(* ===== verification/Prelude.thy ===== *)
theory Prelude
  imports Main "HOL-Library.Word" "HOL-Library.Signed_Division" "HOL-Library.List_Lexorder"
    "HOL-Library.Char_ord" "HOL-Library.AList" "HOL-Library.Multiset"
begin

section \<open>Prelude: Go's basic types and the lemmas the components share\<close>

text \<open>
  Go's \<^verbatim>\<open>string\<close> and \<^verbatim>\<open>[]byte\<close> are byte sequences; both are \<open>string\<close> here, a list of
  8-bit characters, and \<open>length\<close> is Go's \<^verbatim>\<open>len\<close>.  Go's \<^verbatim>\<open>int64\<close> (lease counters,
  \<^verbatim>\<open>time.Duration\<close>) is a 64-bit word, read as two's complement by \<open>sint\<close>.  A Go map is a
  HOL map; where the code ranges over a map, the order the runtime picks is an argument of
  the model.  A function that returns \<^verbatim>\<open>(T, error)\<close> returns \<open>error + T\<close>; one that returns
  only an error returns \<open>error option\<close>, \<open>None\<close> for \<^verbatim>\<open>nil\<close>.
\<close>

type_synonym int64 = "64 word"

named_theorems lease_simps \<open>unfolding the lease-table writes\<close>
named_theorems frame_simps \<open>what an operation leaves unchanged\<close>

subsection \<open>Integer division as Go performs it\<close>

text \<open>Go's \<^verbatim>\<open>/\<close> on integers truncates towards zero.\<close>

definition go_div :: "int \<Rightarrow> int \<Rightarrow> int" where
  "go_div a b = a sdiv b"

lemma go_div_nonneg: "0 \<le> a \<Longrightarrow> 0 < b \<Longrightarrow> go_div a b = a div b"
  by (simp add: go_div_def signed_divide_int_def sgn_if)

subsection \<open>Milliseconds and seconds as time.Duration values\<close>

definition Millisecond :: int64 where "Millisecond = 1000000"
definition Second :: int64 where "Second = 1000000000"

subsection \<open>strings.Split for a one-byte separator\<close>

fun split_on :: "char \<Rightarrow> string \<Rightarrow> string list" where
  "split_on c [] = [[]]"
| "split_on c (x # xs) =
     (if x = c then [] # split_on c xs
      else (case split_on c xs of [] \<Rightarrow> [[x]] | y # ys \<Rightarrow> (x # y) # ys))"

text \<open>strings.Join with a one-byte separator.\<close>

fun join_with :: "string \<Rightarrow> string list \<Rightarrow> string" where
  "join_with sep [] = []"
| "join_with sep [x] = x"
| "join_with sep (x # y # ys) = x @ sep @ join_with sep (y # ys)"

lemma split_on_nonempty: "split_on c xs \<noteq> []"
  by (induction xs) (auto split: list.splits)

lemma split_on_free: "c \<notin> set xs \<Longrightarrow> split_on c xs = [xs]"
  by (induction xs) auto

lemma split_on_append_sep: "c \<notin> set xs \<Longrightarrow> split_on c (xs @ c # ys) = xs # split_on c ys"
  by (induction xs) (auto split: list.splits)

lemma split_join:
  "xs \<noteq> [] \<Longrightarrow> \<forall>x\<in>set xs. c \<notin> set x \<Longrightarrow> split_on c (join_with [c] xs) = xs"
proof (induction "[c]" xs rule: join_with.induct)
  case 1
  then show ?case by simp
next
  case (2 x)
  then show ?case by (simp add: split_on_free)
next
  case (3 x y ys)
  then show ?case by (simp add: split_on_append_sep)
qed

lemma join_with_inj:
  assumes "xs \<noteq> []" "ys \<noteq> []" "\<forall>x\<in>set xs. c \<notin> set x" "\<forall>y\<in>set ys. c \<notin> set y"
    and "join_with [c] xs = join_with [c] ys"
  shows "xs = ys"
proof -
  have "xs = split_on c (join_with [c] xs)"
    using assms(1,3) by (simp add: split_join)
  also have "\<dots> = split_on c (join_with [c] ys)"
    using assms(5) by simp
  also have "\<dots> = ys"
    using assms(2,4) by (simp add: split_join)
  finally show ?thesis .
qed

subsection \<open>strconv.FormatInt and strconv.ParseInt in base 10 at 64 bits\<close>

definition digit_char :: "nat \<Rightarrow> char" where
  "digit_char d = char_of (48 + d)"

definition char_digit :: "char \<Rightarrow> nat option" where
  "char_digit ch = (let n = of_char ch in if 48 \<le> n \<and> n \<le> (57::nat) then Some (n - 48) else None)"

text \<open>A lower-case hexadecimal digit.\<close>

definition hex_digit :: "nat \<Rightarrow> char" where
  "hex_digit d = (if d < 10 then char_of (48 + d) else char_of (87 + d))"

fun format_nat :: "nat \<Rightarrow> string" where
  "format_nat n =
     (if n < 10 then [digit_char n] else format_nat (n div 10) @ [digit_char (n mod 10)])"

declare format_nat.simps [simp del]

definition FormatInt :: "int64 \<Rightarrow> string" where
  "FormatInt w =
     (if sint w < 0 then CHR ''-'' # format_nat (nat (- sint w)) else format_nat (nat (sint w)))"

fun parse_digits :: "nat \<Rightarrow> string \<Rightarrow> nat option" where
  "parse_digits acc [] = Some acc"
| "parse_digits acc (ch # cs) =
     (case char_digit ch of None \<Rightarrow> None | Some d \<Rightarrow> parse_digits (acc * 10 + d) cs)"

definition parse_uint :: "string \<Rightarrow> nat option" where
  "parse_uint s = (if s = [] then None else parse_digits 0 s)"

text \<open>\<open>None\<close> stands for both of ParseInt's errors, a syntax error and a value out of range.\<close>

definition ParseInt :: "string \<Rightarrow> int64 option" where
  "ParseInt s =
     (case s of
        [] \<Rightarrow> None
      | ch # cs \<Rightarrow>
          (let neg = (ch = CHR ''-'');
               body = (if ch = CHR ''-'' \<or> ch = CHR ''+'' then cs else s)
           in case parse_uint body of
                None \<Rightarrow> None
              | Some un \<Rightarrow>
                  if \<not> neg \<and> un \<ge> 2 ^ 63 then None
                  else if neg \<and> un > 2 ^ 63 then None
                  else Some (if neg then - word_of_nat un else word_of_nat un)))"

lemma char_digit_digit_char: "d < 10 \<Longrightarrow> char_digit (digit_char d) = Some d"
  by (simp add: char_digit_def digit_char_def Let_def of_char_of take_bit_eq_mod)

lemma parse_digits_append:
  "parse_digits acc (xs @ ys) =
     (case parse_digits acc xs of None \<Rightarrow> None | Some a \<Rightarrow> parse_digits a ys)"
  by (induction xs arbitrary: acc) (auto split: option.splits)

lemma parse_digits_format: "parse_digits 0 (format_nat n) = Some n"
proof (induction n rule: format_nat.induct)
  case (1 n)
  show ?case
  proof (cases "n < 10")
    case True
    then show ?thesis by (simp add: format_nat.simps [of n] char_digit_digit_char)
  next
    case False
    then show ?thesis
      using 1 by (simp add: format_nat.simps [of n] parse_digits_append char_digit_digit_char)
  qed
qed

lemma format_nat_nonempty: "format_nat n \<noteq> []"
  by (subst format_nat.simps) simp

lemma format_nat_digits: "ch \<in> set (format_nat n) \<Longrightarrow> \<exists>d<10. ch = digit_char d"
proof (induction n rule: format_nat.induct)
  case (1 n)
  then show ?case
    by (cases "n < 10") (auto simp: format_nat.simps [of n] intro: exI [of _ "n mod 10"])
qed

lemma digit_char_not_sign:
  assumes "d < 10" shows "digit_char d \<noteq> CHR ''-''" and "digit_char d \<noteq> CHR ''+''"
proof -
  have *: "char_digit (CHR ''-'') = None" "char_digit (CHR ''+'') = None"
    by (simp_all add: char_digit_def Let_def)
  have "char_digit (digit_char d) \<noteq> None"
    using assms by (simp add: char_digit_digit_char)
  with * show "digit_char d \<noteq> CHR ''-''" "digit_char d \<noteq> CHR ''+''"
    by metis+
qed

lemma parse_format_nat_body:
  assumes "format_nat n = ch # cs"
  shows "ch \<noteq> CHR ''-''" "ch \<noteq> CHR ''+''" "parse_uint (ch # cs) = Some n"
proof -
  have "ch \<in> set (format_nat n)" using assms by simp
  then obtain d where "d < 10" "ch = digit_char d" using format_nat_digits by blast
  then show "ch \<noteq> CHR ''-''" "ch \<noteq> CHR ''+''" using digit_char_not_sign by auto
  show "parse_uint (ch # cs) = Some n"
    using parse_digits_format [of n] assms by (simp add: parse_uint_def)
qed

text \<open>Every int64 survives printing and parsing.\<close>

lemma ParseInt_FormatInt: "ParseInt (FormatInt w) = Some w"
proof (cases "sint w < 0")
  case True
  let ?n = "nat (- sint w)"
  have "- (2 ^ 63) \<le> sint w" using sint_ge [of w] by simp
  then have le: "?n \<le> 2 ^ 63" by simp
  have "(word_of_nat ?n :: int64) = word_of_int (int ?n)" by simp
  also have "int ?n = - sint w" using True by simp
  finally have w: "(- word_of_nat ?n :: int64) = w" by simp
  have "parse_uint (format_nat ?n) = Some ?n"
    by (simp add: parse_uint_def format_nat_nonempty parse_digits_format)
  then show ?thesis using True le w by (simp add: FormatInt_def ParseInt_def Let_def)
next
  case False
  let ?n = "nat (sint w)"
  have "sint w < 2 ^ 63" using sint_lt [of w] by simp
  then have lt: "?n < 2 ^ 63" by (simp add: nat_less_iff)
  have "(word_of_nat ?n :: int64) = word_of_int (int ?n)" by simp
  also have "int ?n = sint w" using False by simp
  finally have w: "(word_of_nat ?n :: int64) = w" by simp
  obtain ch cs where s: "format_nat ?n = ch # cs"
    using format_nat_nonempty by (cases "format_nat ?n") auto
  show ?thesis
    using False lt w s parse_format_nat_body [OF s]
    by (simp add: FormatInt_def ParseInt_def Let_def)
qed

subsection \<open>Words\<close>

lemma int64_add_one_neq: "(c :: int64) + 1 \<noteq> c"
  by simp

end
