(* ===== verification/Lease.thy ===== *)
theory Lease
  imports Prelude
begin

section \<open>Leases, the Store contract and the in-memory store\<close>

text \<open>
  \<^verbatim>\<open>internal/lease/lease.go\<close> and \<^verbatim>\<open>internal/lease/memory.go\<close>.  The record \<open>lease\<close> is the
  Go struct, \<open>store\<close> is the Go interface \<^verbatim>\<open>Store\<close> (a record of its seven methods over a
  world \<open>'s\<close> that the methods read and write; \<open>None\<close> from \<open>st_List\<close> means that its paging
  loop never ends), and the \<^verbatim>\<open>MemoryStore_*\<close> definitions are
  the methods of \<^verbatim>\<open>MemoryStore\<close>.  The locale \<open>lease_store\<close> states what the interface's
  comments promise: each write is conditional on the row's counter, and a failed
  condition leaves the table alone.  Its lemmas are the fencing facts that the pollers and
  the coordinator rely on; they are proved once and hold for both stores.
\<close>

subsection \<open>The data\<close>

definition CheckpointTrimHorizon :: string where
  "CheckpointTrimHorizon = ''TRIM_HORIZON''"

definition CheckpointShardEnd :: string where
  "CheckpointShardEnd = ''SHARD_END''"

record lease =
  ShardID :: string
  Owner :: string
  Counter :: int64
  Checkpoint :: string
  ParentIDs :: "string list"

definition IsOwnedBy :: "lease \<Rightarrow> string \<Rightarrow> bool" where
  "IsOwnedBy l owner \<longleftrightarrow> Owner l \<noteq> '''' \<and> Owner l = owner"

text \<open>
  The package's sentinel errors, the two context errors, and every other error a store can
  return (a throttle, a network failure, a malformed row), which the callers only log.
\<close>

datatype lease_error =
    ErrLeaseConflict
  | ErrLeaseNotFound
  | ErrEmptyOwner
  | ErrCanceled
  | ErrDeadlineExceeded
  | ErrStore string

definition transient :: "lease_error \<Rightarrow> bool" where
  "transient e \<longleftrightarrow> e \<notin> {ErrLeaseConflict, ErrLeaseNotFound, ErrEmptyOwner}"

lemma transient_simps [simp]:
  "\<not> transient ErrLeaseConflict" "\<not> transient ErrLeaseNotFound" "\<not> transient ErrEmptyOwner"
  "transient ErrCanceled" "transient ErrDeadlineExceeded" "transient (ErrStore m)"
  by (simp_all add: transient_def)

type_synonym lease_table = "string \<rightharpoonup> lease"

record 's store =
  st_List :: "'s \<Rightarrow> ((lease_error + lease list) \<times> 's) option"
  st_Ensure :: "string \<Rightarrow> string list \<Rightarrow> 's \<Rightarrow> lease_error option \<times> 's"
  st_Acquire :: "string \<Rightarrow> string \<Rightarrow> int64 \<Rightarrow> 's \<Rightarrow> (lease_error + lease) \<times> 's"
  st_Heartbeat :: "lease \<Rightarrow> 's \<Rightarrow> (lease_error + lease) \<times> 's"
  st_Checkpoint :: "lease \<Rightarrow> string \<Rightarrow> 's \<Rightarrow> (lease_error + lease) \<times> 's"
  st_Release :: "lease \<Rightarrow> 's \<Rightarrow> lease_error option \<times> 's"
  st_Delete :: "string \<Rightarrow> int64 \<Rightarrow> 's \<Rightarrow> lease_error option \<times> 's"

subsection \<open>MemoryStore\<close>

text \<open>
  The state is the Go map.  \<^verbatim>\<open>cloneLease\<close> copies the parent slice so that callers do not
  share it with the store; on values it is the identity.  \<^verbatim>\<open>List\<close> ranges over the map:
  \<open>ord\<close> gives the keys in the order the runtime yields them.
\<close>

definition cloneLease :: "lease \<Rightarrow> lease" where
  "cloneLease l = l\<lparr>ParentIDs := ParentIDs l\<rparr>"

definition MemoryStore_List ::
  "(lease_table \<Rightarrow> string list) \<Rightarrow> lease_table \<Rightarrow> ((lease_error + lease list) \<times> lease_table) option" where
  "MemoryStore_List ord s = Some (Inr (map cloneLease (List.map_filter s (ord s))), s)"

definition MemoryStore_Ensure ::
  "string \<Rightarrow> string list \<Rightarrow> lease_table \<Rightarrow> lease_error option \<times> lease_table" where
  "MemoryStore_Ensure shardID parentIDs s =
     (case s shardID of
        Some _ \<Rightarrow> (None, s)
      | None \<Rightarrow> (None, s(shardID \<mapsto> \<lparr>ShardID = shardID, Owner = '''', Counter = 0,
                          Checkpoint = CheckpointTrimHorizon, ParentIDs = [] @ parentIDs\<rparr>)))"

definition MemoryStore_Acquire ::
  "string \<Rightarrow> string \<Rightarrow> int64 \<Rightarrow> lease_table \<Rightarrow> (lease_error + lease) \<times> lease_table" where
  "MemoryStore_Acquire shardID owner expectedCounter s =
     (if owner = '''' then (Inl ErrEmptyOwner, s)
      else (case s shardID of
          None \<Rightarrow> (Inl ErrLeaseNotFound, s)
        | Some cur \<Rightarrow>
            if Counter cur \<noteq> expectedCounter then (Inl ErrLeaseConflict, s)
            else (let cur' = cur\<lparr>Owner := owner, Counter := Counter cur + 1\<rparr>
                  in (Inr (cloneLease cur'), s(shardID \<mapsto> cur')))))"

definition MemoryStore_conditionalUpdate ::
  "lease \<Rightarrow> (lease \<Rightarrow> lease) \<Rightarrow> lease_table \<Rightarrow> (lease_error + lease) \<times> lease_table" where
  "MemoryStore_conditionalUpdate expected mutate s =
     (case s (ShardID expected) of
        None \<Rightarrow> (Inl ErrLeaseNotFound, s)
      | Some cur \<Rightarrow>
          if Owner cur \<noteq> Owner expected \<or> Counter cur \<noteq> Counter expected
          then (Inl ErrLeaseConflict, s)
          else (Inr (cloneLease (mutate cur)), s(ShardID expected \<mapsto> mutate cur)))"

definition MemoryStore_Heartbeat :: "lease \<Rightarrow> lease_table \<Rightarrow> (lease_error + lease) \<times> lease_table" where
  "MemoryStore_Heartbeat l = MemoryStore_conditionalUpdate l (\<lambda>x. x\<lparr>Counter := Counter x + 1\<rparr>)"

definition MemoryStore_Checkpoint ::
  "lease \<Rightarrow> string \<Rightarrow> lease_table \<Rightarrow> (lease_error + lease) \<times> lease_table" where
  "MemoryStore_Checkpoint l seq =
     MemoryStore_conditionalUpdate l (\<lambda>x. x\<lparr>Checkpoint := seq, Counter := Counter x + 1\<rparr>)"

definition MemoryStore_Release :: "lease \<Rightarrow> lease_table \<Rightarrow> lease_error option \<times> lease_table" where
  "MemoryStore_Release l s =
     (case MemoryStore_conditionalUpdate l (\<lambda>x. x\<lparr>Owner := '''', Counter := Counter x + 1\<rparr>) s of
        (Inl err, s') \<Rightarrow> (Some err, s')
      | (Inr _, s') \<Rightarrow> (None, s'))"

definition MemoryStore_Delete ::
  "string \<Rightarrow> int64 \<Rightarrow> lease_table \<Rightarrow> lease_error option \<times> lease_table" where
  "MemoryStore_Delete shardID expectedCounter s =
     (case s shardID of
        None \<Rightarrow> (None, s)
      | Some cur \<Rightarrow>
          if Counter cur \<noteq> expectedCounter then (Some ErrLeaseConflict, s)
          else (None, s(shardID := None)))"

definition NewMemoryStore :: "lease_table" where
  "NewMemoryStore = Map.empty"

definition memory_store :: "(lease_table \<Rightarrow> string list) \<Rightarrow> lease_table store" where
  "memory_store ord =
     \<lparr>st_List = MemoryStore_List ord, st_Ensure = MemoryStore_Ensure,
      st_Acquire = MemoryStore_Acquire, st_Heartbeat = MemoryStore_Heartbeat,
      st_Checkpoint = MemoryStore_Checkpoint, st_Release = MemoryStore_Release,
      st_Delete = MemoryStore_Delete\<rparr>"

subsection \<open>What a conditional write may do to the table\<close>

text \<open>
  \<open>committed t k g u t'\<close>: row \<open>k\<close> of \<open>t\<close> exists and passes the guard \<open>g\<close>, and \<open>t'\<close> is \<open>t\<close>
  with the row replaced by \<open>u\<close> of it.  \<open>refused\<close>: the error says why nothing was
  written; a transient error (a lost reply) leaves it open whether the write landed.
\<close>

definition committed ::
  "lease_table \<Rightarrow> string \<Rightarrow> (lease \<Rightarrow> bool) \<Rightarrow> (lease \<Rightarrow> lease option) \<Rightarrow> lease_table \<Rightarrow> bool" where
  "committed t k g u t' \<longleftrightarrow> (\<exists>r. t k = Some r \<and> g r \<and> t' = t(k := u r))"

definition refused ::
  "lease_table \<Rightarrow> string \<Rightarrow> (lease \<Rightarrow> bool) \<Rightarrow> (lease \<Rightarrow> lease option) \<Rightarrow> lease_error
     \<Rightarrow> lease_table \<Rightarrow> bool" where
  "refused t k g u e t' \<longleftrightarrow>
     (case e of
        ErrLeaseNotFound \<Rightarrow> t k = None \<and> t' = t
      | ErrLeaseConflict \<Rightarrow> (\<exists>r. t k = Some r \<and> \<not> g r) \<and> t' = t
      | ErrEmptyOwner \<Rightarrow> False
      | _ \<Rightarrow> t' = t \<or> committed t k g u t')"

definition write_result ::
  "lease_table \<Rightarrow> string \<Rightarrow> (lease \<Rightarrow> bool) \<Rightarrow> (lease \<Rightarrow> lease) \<Rightarrow> lease_error + lease
     \<Rightarrow> lease_table \<Rightarrow> bool" where
  "write_result t k g u res t' \<longleftrightarrow>
     (case res of
        Inl e \<Rightarrow> refused t k g (Some \<circ> u) e t'
      | Inr l \<Rightarrow> committed t k g (Some \<circ> u) t' \<and> t' k = Some l)"

definition fresh_lease :: "string \<Rightarrow> string list \<Rightarrow> lease" where
  "fresh_lease k ps = \<lparr>ShardID = k, Owner = '''', Counter = 0,
     Checkpoint = CheckpointTrimHorizon, ParentIDs = ps\<rparr>"

definition ensure_result ::
  "lease_table \<Rightarrow> string \<Rightarrow> string list \<Rightarrow> lease_error option \<Rightarrow> lease_table \<Rightarrow> bool" where
  "ensure_result t k ps e t' \<longleftrightarrow>
     (let t1 = (if t k = None then t(k \<mapsto> fresh_lease k ps) else t)
      in case e of None \<Rightarrow> t' = t1 | Some e \<Rightarrow> transient e \<and> (t' = t \<or> t' = t1))"

definition delete_result ::
  "lease_table \<Rightarrow> string \<Rightarrow> int64 \<Rightarrow> lease_error option \<Rightarrow> lease_table \<Rightarrow> bool" where
  "delete_result t k c e t' \<longleftrightarrow>
     (let g = (\<lambda>r. Counter r = c); u = (\<lambda>_. None)
      in case e of
           None \<Rightarrow> (t k = None \<and> t' = t) \<or> committed t k g u t'
         | Some e \<Rightarrow> e \<noteq> ErrLeaseNotFound \<and> refused t k g u e t')"

lemmas write_defs = write_result_def refused_def committed_def

definition current :: "lease_table \<Rightarrow> lease \<Rightarrow> bool" where
  "current t l \<longleftrightarrow> (\<exists>r. t (ShardID l) = Some r \<and> Owner r = Owner l \<and> Counter r = Counter l)"

definition holds_token :: "lease \<Rightarrow> lease \<Rightarrow> bool" where
  "holds_token l r \<longleftrightarrow> Owner r = Owner l \<and> Counter r = Counter l"

lemma current_iff: "current t l \<longleftrightarrow> (\<exists>r. t (ShardID l) = Some r \<and> holds_token l r)"
  by (simp add: current_def holds_token_def)

subsection \<open>The contract of the Store interface\<close>

text \<open>
  A store over a world \<open>'s\<close> whose lease table is \<open>view s\<close>.  Each law restates a promise of
  the comments of the interface.  A token with an empty owner is outside the contract of the
  conditional writes: the empty owner is the marker of an unowned row.
\<close>

locale lease_store =
  fixes st :: "'s store"
    and view :: "'s \<Rightarrow> lease_table"
    and inv :: "'s \<Rightarrow> bool"
  assumes keyed: "inv s \<Longrightarrow> view s k = Some r \<Longrightarrow> ShardID r = k"
    and list_law: "inv s \<Longrightarrow> st_List st s = Some (listed, s') \<Longrightarrow> inv s' \<and> view s' = view s"
    and ensure_law: "inv s \<Longrightarrow> st_Ensure st k ps s = (e, s') \<Longrightarrow>
      inv s' \<and> ensure_result (view s) k ps e (view s')"
    and acquire_empty: "inv s \<Longrightarrow> st_Acquire st k '''' c s = (Inl ErrEmptyOwner, s)"
    and acquire_law: "inv s \<Longrightarrow> w \<noteq> '''' \<Longrightarrow> st_Acquire st k w c s = (res, s') \<Longrightarrow>
      inv s' \<and> write_result (view s) k (\<lambda>x. Counter x = c)
                 (\<lambda>x. x\<lparr>Owner := w, Counter := c + 1\<rparr>) res (view s')"
    and heartbeat_law: "inv s \<Longrightarrow> Owner l \<noteq> '''' \<Longrightarrow> st_Heartbeat st l s = (res, s') \<Longrightarrow>
      inv s' \<and> write_result (view s) (ShardID l) (holds_token l)
                 (\<lambda>x. x\<lparr>Counter := Counter l + 1\<rparr>) res (view s')"
    and checkpoint_law: "inv s \<Longrightarrow> Owner l \<noteq> '''' \<Longrightarrow> st_Checkpoint st l seq s = (res, s') \<Longrightarrow>
      inv s' \<and> write_result (view s) (ShardID l) (holds_token l)
                 (\<lambda>x. x\<lparr>Checkpoint := seq, Counter := Counter l + 1\<rparr>) res (view s')"
    and release_law: "inv s \<Longrightarrow> Owner l \<noteq> '''' \<Longrightarrow> st_Release st l s = (e, s') \<Longrightarrow>
      inv s' \<and> (case e of
          None \<Rightarrow> committed (view s) (ShardID l) (holds_token l)
                   (\<lambda>x. Some (x\<lparr>Owner := '''', Counter := Counter l + 1\<rparr>)) (view s')
        | Some e \<Rightarrow> refused (view s) (ShardID l) (holds_token l)
                   (\<lambda>x. Some (x\<lparr>Owner := '''', Counter := Counter l + 1\<rparr>)) e (view s'))"
    and delete_law: "inv s \<Longrightarrow> st_Delete st k c s = (e, s') \<Longrightarrow>
      inv s' \<and> delete_result (view s) k c e (view s')"
begin

text \<open>A writer whose token is no longer current changes nothing, whatever it tries.\<close>

lemma stale_heartbeat:
  assumes "inv s" "Owner l \<noteq> ''''" "\<not> current (view s) l" "st_Heartbeat st l s = (r, s')"
  shows "\<exists>e. r = Inl e" and "view s' = view s"
  using heartbeat_law [OF assms(1,2,4)] assms(3)
  by (auto simp: write_defs current_iff split: sum.splits lease_error.splits)

lemma stale_checkpoint:
  assumes "inv s" "Owner l \<noteq> ''''" "\<not> current (view s) l" "st_Checkpoint st l seq s = (r, s')"
  shows "\<exists>e. r = Inl e" and "view s' = view s"
  using checkpoint_law [OF assms(1,2,4)] assms(3)
  by (auto simp: write_defs current_iff split: sum.splits lease_error.splits)

lemma stale_release:
  assumes "inv s" "Owner l \<noteq> ''''" "\<not> current (view s) l" "st_Release st l s = (e, s')"
  shows "\<exists>e'. e = Some e'" and "view s' = view s"
  using release_law [OF assms(1,2,4)] assms(3)
  by (auto simp: write_defs current_iff split: option.splits lease_error.splits)

text \<open>A successful write hands back the row as it now is, and retires every older token.\<close>

lemma acquire_success:
  assumes "inv s" "w \<noteq> ''''" "st_Acquire st k w c s = (Inr l, s')"
  shows "current (view s') l" and "Owner l = w" and "ShardID l = k"
    and "view s' k = Some l" and "\<exists>r. view s k = Some r \<and> Counter r = c \<and> Counter l = c + 1
           \<and> Checkpoint l = Checkpoint r \<and> ParentIDs l = ParentIDs r"
    and "j \<noteq> k \<Longrightarrow> view s' j = view s j"
    and "Counter old = c \<Longrightarrow> ShardID old = k \<Longrightarrow> \<not> current (view s') old"
  using acquire_law [OF assms] keyed [OF assms(1)]
  by (auto simp: write_defs current_def)

lemma heartbeat_success:
  assumes "inv s" "Owner l \<noteq> ''''" "st_Heartbeat st l s = (Inr l', s')"
  shows "current (view s) l" and "current (view s') l'" and "\<not> current (view s') l"
    and "Owner l' = Owner l" and "ShardID l' = ShardID l" and "Counter l' = Counter l + 1"
    and "view s' (ShardID l) = Some l'" and "j \<noteq> ShardID l \<Longrightarrow> view s' j = view s j"
    and "\<exists>r. view s (ShardID l) = Some r \<and> Checkpoint l' = Checkpoint r"
  using heartbeat_law [OF assms] keyed [OF assms(1)]
  by (auto simp: write_defs current_def holds_token_def)

lemma checkpoint_success:
  assumes "inv s" "Owner l \<noteq> ''''" "st_Checkpoint st l seq s = (Inr l', s')"
  shows "current (view s) l" and "current (view s') l'" and "\<not> current (view s') l"
    and "Owner l' = Owner l" and "ShardID l' = ShardID l" and "Counter l' = Counter l + 1"
    and "view s' (ShardID l) = Some l'" and "j \<noteq> ShardID l \<Longrightarrow> view s' j = view s j"
    and "Checkpoint l' = seq"
  using checkpoint_law [OF assms] keyed [OF assms(1)]
  by (auto simp: write_defs current_def holds_token_def)

lemma heartbeat_inv: "inv s \<Longrightarrow> Owner l \<noteq> '''' \<Longrightarrow> st_Heartbeat st l s = (r, s') \<Longrightarrow> inv s'"
  using heartbeat_law by blast

lemma checkpoint_inv: "inv s \<Longrightarrow> Owner l \<noteq> '''' \<Longrightarrow> st_Checkpoint st l seq s = (r, s') \<Longrightarrow> inv s'"
  using checkpoint_law by blast

lemma release_inv: "inv s \<Longrightarrow> Owner l \<noteq> '''' \<Longrightarrow> st_Release st l s = (e, s') \<Longrightarrow> inv s'"
  using release_law by blast

text \<open>Neither a heartbeat nor a release moves a checkpoint, even when its reply is lost.\<close>

lemma heartbeat_keeps_checkpoint:
  assumes "inv s" "Owner l \<noteq> ''''" "st_Heartbeat st l s = (r, s')"
  shows "map_option Checkpoint (view s' k) = map_option Checkpoint (view s k)"
  using heartbeat_law [OF assms]
  by (auto simp: write_defs split: sum.splits lease_error.splits)

lemma release_keeps_checkpoint:
  assumes "inv s" "Owner l \<noteq> ''''" "st_Release st l s = (e, s')"
  shows "map_option Checkpoint (view s' k) = map_option Checkpoint (view s k)"
  using release_law [OF assms]
  by (auto simp: write_defs split: option.splits lease_error.splits)

text \<open>A checkpoint attempt either leaves the row's checkpoint alone or sets it to \<open>seq\<close>.\<close>

lemma checkpoint_moves_to:
  assumes "inv s" "Owner l \<noteq> ''''" "st_Checkpoint st l seq s = (r, s')"
  shows "view s' k = view s k \<or>
    (k = ShardID l \<and> current (view s) l \<and> map_option Checkpoint (view s' k) = Some seq)"
  using checkpoint_law [OF assms]
  by (auto simp: write_defs current_iff split: sum.splits lease_error.splits if_splits)

text \<open>
  The race of the takeover: worker \<open>w\<close> and worker \<open>w'\<close> both saw counter \<open>c\<close>.  If \<open>w\<close>'s
  conditional write lands, \<open>w'\<close> gets a conflict and the table stays as \<open>w\<close> left it.
\<close>

lemma acquire_race:
  assumes "inv s" "w \<noteq> ''''" "w' \<noteq> ''''"
    and "st_Acquire st k w c s = (Inr l, s1)" and "st_Acquire st k w' c s1 = (r, s2)"
  shows "\<exists>e. r = Inl e" and "view s2 = view s1"
proof -
  have i1: "inv s1" using acquire_law [OF assms(1,2,4)] by blast
  have "view s1 k = Some l" "Counter l \<noteq> c"
    using acquire_success(4,5) [OF assms(1,2,4)] by auto
  then show "\<exists>e. r = Inl e" "view s2 = view s1"
    using acquire_law [OF i1 assms(3,5)]
    by (auto simp: write_defs split: sum.splits lease_error.splits)
qed

end

subsection \<open>MemoryStore keeps the contract\<close>

definition keyed_table :: "lease_table \<Rightarrow> bool" where
  "keyed_table t \<longleftrightarrow> (\<forall>k r. t k = Some r \<longrightarrow> ShardID r = k)"

lemma cloneLease_id [simp]: "cloneLease l = l"
  by (simp add: cloneLease_def)

lemma map_cloneLease [simp]: "map cloneLease ls = ls"
  by (simp add: map_idI)

lemma keyed_table_empty: "keyed_table NewMemoryStore"
  by (simp add: keyed_table_def NewMemoryStore_def)

lemmas memory_defs [lease_simps] =
  memory_store_def MemoryStore_List_def MemoryStore_Ensure_def MemoryStore_Acquire_def
  MemoryStore_conditionalUpdate_def MemoryStore_Heartbeat_def MemoryStore_Checkpoint_def
  MemoryStore_Release_def MemoryStore_Delete_def

interpretation mem: lease_store "memory_store ord" "\<lambda>s. s" keyed_table for ord
proof (unfold_locales, goal_cases)
  case (1 s k r) then show ?case by (simp add: keyed_table_def)
next
  case (2 s r s') then show ?case by (simp add: lease_simps)
next
  case (3 s k ps e s') then show ?case
    by (auto simp: lease_simps ensure_result_def fresh_lease_def keyed_table_def
        split: option.splits if_splits)
next
  case (4 s k c) then show ?case by (simp add: lease_simps)
next
  case (5 s w k c r s') then show ?case
    by (auto simp: lease_simps write_defs keyed_table_def Let_def split: option.splits if_splits)
next
  case (6 s l r s') then show ?case
    by (auto simp: lease_simps write_defs keyed_table_def holds_token_def
        split: option.splits if_splits)
next
  case (7 s l seq r s') then show ?case
    by (auto simp: lease_simps write_defs keyed_table_def holds_token_def
        split: option.splits if_splits)
next
  case (8 s l e s') then show ?case
    by (auto simp: lease_simps write_defs keyed_table_def holds_token_def
        split: option.splits if_splits sum.splits)
next
  case (9 s k c e s') then show ?case
    by (auto simp: lease_simps write_defs delete_result_def keyed_table_def
        split: option.splits if_splits)
qed

text \<open>\<open>List\<close> returns every row exactly once, in whatever order the map is ranged over.\<close>

definition range_order :: "(lease_table \<Rightarrow> string list) \<Rightarrow> bool" where
  "range_order ord \<longleftrightarrow> (\<forall>t. finite (dom t) \<longrightarrow> distinct (ord t) \<and> set (ord t) = dom t)"

lemma distinct_map_filter_keyed:
  assumes "keyed_table t" "distinct ks" "set ks \<subseteq> dom t"
  shows "distinct (map ShardID (List.map_filter t ks)) \<and>
    map ShardID (List.map_filter t ks) = ks"
  using assms by (induction ks) (auto simp: List.map_filter_def keyed_table_def)

lemma set_map_filter_table: "set (List.map_filter t ks) = {l. \<exists>k\<in>set ks. t k = Some l}"
  by (force simp: List.map_filter_def)

text \<open>
  MemoryStore.List returns exactly the rows of the table, each once, and does not
  change it, whatever order the Go map is ranged over.
\<close>

theorem memory_list_complete:
  assumes "range_order ord" "finite (dom s)" "keyed_table s"
    and "MemoryStore_List ord s = Some (Inr ls, s')"
  shows "s' = s \<and> set ls = ran s \<and> distinct (map ShardID ls)"
proof -
  have d: "distinct (ord s)" and e: "set (ord s) = dom s"
    using assms(1,2) by (auto simp: range_order_def)
  have ls: "ls = List.map_filter s (ord s)" and s': "s' = s"
    using assms(4) by (auto simp: MemoryStore_List_def)
  have "set ls = ran s"
    using e by (auto simp: ls set_map_filter_table ran_def dom_def)
  with s' show ?thesis
    using distinct_map_filter_keyed [OF assms(3) d] e d by (simp add: ls)
qed

subsection \<open>A refusal-free contract determines the result\<close>

text \<open>
  Apart from transient errors the contract leaves no choice: a write that answers with
  anything else answers, and writes, exactly what \<^verbatim>\<open>MemoryStore\<close> does on the same table.
\<close>

definition settled :: "lease_error + lease \<Rightarrow> bool" where
  "settled r \<longleftrightarrow> (\<forall>e. r = Inl e \<longrightarrow> \<not> transient e)"

lemma write_result_determined:
  assumes "write_result t k g u r1 t1" "write_result t k g u r2 t2" "settled r1" "settled r2"
  shows "(r1, t1) = (r2, t2)"
  using assms
  by (auto simp: write_defs transient_def settled_def split: sum.splits lease_error.splits)

lemma memory_settled:
  "MemoryStore_conditionalUpdate l u s = (r, s') \<Longrightarrow> settled r"
  "MemoryStore_Acquire k w c s = (r, s') \<Longrightarrow> settled r"
  by (auto simp: lease_simps Let_def settled_def split: option.splits if_splits)

context lease_store begin

lemma keyed_view: "inv s \<Longrightarrow> keyed_table (view s)"
  using keyed by (simp add: keyed_table_def)

lemma acquire_as_memory:
  assumes "inv s" "st_Acquire st k w c s = (r, s')" "settled r"
  shows "MemoryStore_Acquire k w c (view s) = (r, view s')"
proof (cases "w = []")
  case True
  then show ?thesis
    using acquire_empty [OF assms(1), of k c] assms(2) by (simp add: MemoryStore_Acquire_def)
next
  case False
  obtain r2 t2 where m: "MemoryStore_Acquire k w c (view s) = (r2, t2)" by fastforce
  then have "write_result (view s) k (\<lambda>x. Counter x = c) (\<lambda>x. x\<lparr>Owner := w, Counter := c + 1\<rparr>) r2 t2"
    using mem.acquire_law [OF keyed_view [OF assms(1)] False] by (simp add: memory_store_def)
  with acquire_law [OF assms(1) False assms(2)] show ?thesis
    using m write_result_determined assms(3) memory_settled(2) [OF m] by metis
qed

lemma heartbeat_as_memory:
  assumes "inv s" "Owner l \<noteq> []" "st_Heartbeat st l s = (r, s')" "settled r"
  shows "MemoryStore_Heartbeat l (view s) = (r, view s')"
proof -
  obtain r2 t2 where m: "MemoryStore_Heartbeat l (view s) = (r2, t2)" by fastforce
  then have "write_result (view s) (ShardID l) (holds_token l)
      (\<lambda>x. x\<lparr>Counter := Counter l + 1\<rparr>) r2 t2"
    using mem.heartbeat_law [OF keyed_view [OF assms(1)] assms(2)] by (simp add: memory_store_def)
  moreover have "settled r2"
    using m memory_settled(1) by (simp add: MemoryStore_Heartbeat_def)
  ultimately show ?thesis
    using heartbeat_law [OF assms(1-3)] m assms(4) write_result_determined by metis
qed

lemma checkpoint_as_memory:
  assumes "inv s" "Owner l \<noteq> []" "st_Checkpoint st l seq s = (r, s')" "settled r"
  shows "MemoryStore_Checkpoint l seq (view s) = (r, view s')"
proof -
  obtain r2 t2 where m: "MemoryStore_Checkpoint l seq (view s) = (r2, t2)" by fastforce
  then have "write_result (view s) (ShardID l) (holds_token l)
      (\<lambda>x. x\<lparr>Checkpoint := seq, Counter := Counter l + 1\<rparr>) r2 t2"
    using mem.checkpoint_law [OF keyed_view [OF assms(1)] assms(2)] by (simp add: memory_store_def)
  moreover have "settled r2"
    using m memory_settled(1) by (simp add: MemoryStore_Checkpoint_def)
  ultimately show ?thesis
    using checkpoint_law [OF assms(1-3)] m assms(4) write_result_determined by metis
qed

lemma release_as_memory:
  assumes "inv s" "Owner l \<noteq> []" "st_Release st l s = (e, s')" "\<forall>x. e = Some x \<longrightarrow> \<not> transient x"
  shows "MemoryStore_Release l (view s) = (e, view s')"
proof (cases e)
  case None
  then show ?thesis
    using release_law [OF assms(1-3)] by (auto simp: lease_simps committed_def holds_token_def)
next
  case (Some x)
  then show ?thesis
    using release_law [OF assms(1-3)] assms(4)
    by (cases x) (auto simp: lease_simps refused_def holds_token_def)
qed

lemma delete_as_memory:
  assumes "inv s" "st_Delete st k c s = (e, s')" "\<forall>x. e = Some x \<longrightarrow> \<not> transient x"
  shows "MemoryStore_Delete k c (view s) = (e, view s')"
proof (cases e)
  case None
  then show ?thesis
    using delete_law [OF assms(1,2)]
    by (auto simp: lease_simps delete_result_def committed_def)
next
  case (Some x)
  then show ?thesis
    using delete_law [OF assms(1,2)] assms(3)
    by (cases x) (auto simp: lease_simps delete_result_def refused_def)
qed

lemma ensure_as_memory:
  assumes "inv s" "st_Ensure st k ps s = (None, s')"
  shows "MemoryStore_Ensure k ps (view s) = (None, view s')"
  using ensure_law [OF assms]
  by (auto simp: lease_simps ensure_result_def fresh_lease_def split: option.splits if_splits)

end

subsection \<open>Properties of the in-memory store\<close>

text \<open>
  A takeover fences the previous owner off: once a worker has acquired a shard at counter
  c, every heartbeat, checkpoint and release under a token with counter c is refused as a
  conflict, so is a second acquire at c, and none of them changes the table.
\<close>

theorem memory_takeover_fences:
  assumes "MemoryStore_Acquire k w c t = (Inr l, t1)" "ShardID old = k" "Counter old = c"
  shows "MemoryStore_Heartbeat old t1 = (Inl ErrLeaseConflict, t1) \<and>
    MemoryStore_Checkpoint old seq t1 = (Inl ErrLeaseConflict, t1) \<and>
    MemoryStore_Release old t1 = (Some ErrLeaseConflict, t1) \<and>
    MemoryStore_Acquire k w' c t1 =
      (Inl (if w' = '''' then ErrEmptyOwner else ErrLeaseConflict), t1)"
  using assms by (auto simp: lease_simps Let_def split: option.splits if_splits)

definition sample_lease :: lease where
  "sample_lease = \<lparr>ShardID = ''s'', Owner = ''a'', Counter = 7, Checkpoint = ''42'', ParentIDs = []\<rparr>"

theorem memory_takeover_fences_witness:
  "\<exists>t1. MemoryStore_Acquire ''s'' ''b'' 7 [''s'' \<mapsto> sample_lease] =
      (Inr (sample_lease\<lparr>Owner := ''b'', Counter := 8\<rparr>), t1) \<and>
    MemoryStore_Checkpoint sample_lease ''43'' t1 = (Inl ErrLeaseConflict, t1)"
proof -
  have "MemoryStore_Acquire ''s'' ''b'' 7 [''s'' \<mapsto> sample_lease] =
      (Inr (sample_lease\<lparr>Owner := ''b'', Counter := 8\<rparr>),
       [''s'' \<mapsto> sample_lease\<lparr>Owner := ''b'', Counter := 8\<rparr>])"
    by (simp add: MemoryStore_Acquire_def sample_lease_def Let_def)
  from this memory_takeover_fences [OF this, of sample_lease "''43''"] show ?thesis
    by (auto simp: sample_lease_def)
qed

text \<open>A witness of the listing property: a table of one row.\<close>

theorem memory_list_complete_witness:
  "set [sample_lease] = ran [''s'' \<mapsto> sample_lease] \<and> distinct (map ShardID [sample_lease])"
proof -
  let ?t = "[''s'' \<mapsto> sample_lease]"
  let ?ord = "\<lambda>t. sorted_list_of_set (dom t) :: string list"
  have "range_order ?ord" by (simp add: range_order_def)
  moreover have "keyed_table ?t" by (simp add: keyed_table_def sample_lease_def)
  moreover have "MemoryStore_List ?ord ?t = Some (Inr [sample_lease], ?t)"
    by (simp add: MemoryStore_List_def List.map_filter_def)
  ultimately show ?thesis
    using memory_list_complete [of ?ord ?t "[sample_lease]" ?t] by simp
qed

end
