(* ===== verification/Dynamo.thy ===== *)
theory Dynamo
  imports Lease
begin

section \<open>The DynamoDB lease store\<close>

text \<open>
  \<^verbatim>\<open>internal/lease/dynamodb.go\<close>.  The DynamoDB service and its SDK are not part of the
  repository: a \<open>dynamo_client\<close> over a world \<open>'w\<close> is a parameter, and the locale
  \<open>dynamo_api\<close> states the documented behaviour of its five calls on a table (a conditional
  write is atomic; a failed condition writes nothing; after a lost reply the write may or
  may not have landed; GetItem with a consistent read returns the row).  The code's own
  part is modelled in full: the attribute names, the conditions and updates it builds, the
  error normalisation, the row codec and the paging loop.  The SDK's expression builder
  appears as the expression it builds; \<^verbatim>\<open>Build\<close> fails only on an empty builder.
\<close>

subsection \<open>Attribute values, conditions and updates\<close>

abbreviation attrLeaseKey :: string where "attrLeaseKey \<equiv> ''leaseKey''"
abbreviation attrLeaseOwner :: string where "attrLeaseOwner \<equiv> ''leaseOwner''"
abbreviation attrLeaseCounter :: string where "attrLeaseCounter \<equiv> ''leaseCounter''"
abbreviation attrCheckpoint :: string where "attrCheckpoint \<equiv> ''checkpoint''"
abbreviation attrParentShardID :: string where "attrParentShardID \<equiv> ''parentShardId''"

definition parentSeparator :: char where
  "parentSeparator = CHR '',''"

text \<open>\<open>OtherAttr\<close> stands for the member types the code has no case for.\<close>

datatype attribute_value = S string | N string | SS "string list" | OtherAttr nat

type_synonym item = "string \<rightharpoonup> attribute_value"

datatype condition =
    AttributeNotExists string
  | Equal string attribute_value
  | And condition condition

datatype update_action = SetAttr string attribute_value | RemoveAttr string

datatype aws_error = ConditionalCheckFailedException | AwsOther lease_error

definition isConditionalCheckFailed :: "aws_error \<Rightarrow> bool" where
  "isConditionalCheckFailed e \<longleftrightarrow> e = ConditionalCheckFailedException"

text \<open>An SDK error handed on to the caller unchanged.\<close>

definition pass_error :: "aws_error \<Rightarrow> lease_error" where
  "pass_error e = (case e of
     ConditionalCheckFailedException \<Rightarrow> ErrStore ''ConditionalCheckFailedException''
   | AwsOther le \<Rightarrow> le)"

text \<open>
  A Go map that may be nil or empty (the start key of a scan, the item of a GetItem reply)
  is an option, \<open>None\<close> for a map of length 0.
\<close>

record 'w dynamo_client =
  dc_Scan :: "string \<Rightarrow> item option \<Rightarrow> 'w \<Rightarrow> (aws_error + (item list \<times> item option)) \<times> 'w"
  dc_PutItem :: "string \<Rightarrow> item \<Rightarrow> condition \<Rightarrow> 'w \<Rightarrow> aws_error option \<times> 'w"
  dc_UpdateItem ::
    "string \<Rightarrow> item \<Rightarrow> update_action list \<Rightarrow> condition \<Rightarrow> 'w \<Rightarrow> (aws_error + item) \<times> 'w"
  dc_DeleteItem :: "string \<Rightarrow> item \<Rightarrow> condition \<Rightarrow> 'w \<Rightarrow> aws_error option \<times> 'w"
  dc_GetItem :: "string \<Rightarrow> item \<Rightarrow> 'w \<Rightarrow> (aws_error + item option) \<times> 'w"

record 'w DynamoDBStore =
  ddb_client :: "'w dynamo_client"
  ddb_table :: string

definition NewDynamoDBStore :: "'w dynamo_client \<Rightarrow> string \<Rightarrow> 'w DynamoDBStore" where
  "NewDynamoDBStore client table = \<lparr>ddb_client = client, ddb_table = table\<rparr>"

subsection \<open>The row codec\<close>

definition leaseKey :: "string \<Rightarrow> item" where
  "leaseKey shardID = [attrLeaseKey \<mapsto> S shardID]"

definition marshalLease :: "lease \<Rightarrow> item" where
  "marshalLease l =
     (let item = [attrLeaseKey \<mapsto> S (ShardID l),
                  attrLeaseCounter \<mapsto> N (FormatInt (Counter l)),
                  attrCheckpoint \<mapsto> S (Checkpoint l)];
          item = (if Owner l \<noteq> '''' then item(attrLeaseOwner \<mapsto> S (Owner l)) else item)
      in if length (ParentIDs l) > 0 then item(attrParentShardID \<mapsto> SS (ParentIDs l)) else item)"

definition stringAttr :: "item \<Rightarrow> string \<Rightarrow> string option" where
  "stringAttr m name = (case m name of Some (S v) \<Rightarrow> Some v | _ \<Rightarrow> None)"

definition unmarshalLease :: "item \<Rightarrow> lease_error + lease" where
  "unmarshalLease m =
     (case stringAttr m attrLeaseKey of
        None \<Rightarrow> Inl (ErrStore ''lease row missing leaseKey'')
      | Some shardID \<Rightarrow>
          (let owner = (case stringAttr m attrLeaseOwner of Some ow \<Rightarrow> ow | None \<Rightarrow> '''');
               cp = (case stringAttr m attrCheckpoint of Some cp \<Rightarrow> cp | None \<Rightarrow> '''');
               parents = (case m attrParentShardID of
                            Some (SS ps) \<Rightarrow> [] @ ps
                          | Some (S v) \<Rightarrow> if v \<noteq> '''' then split_on parentSeparator v else []
                          | _ \<Rightarrow> [])
           in case m attrLeaseCounter of
                Some (N n) \<Rightarrow>
                  (case ParseInt n of
                     None \<Rightarrow> Inl (ErrStore ''strconv.ParseInt'')
                   | Some v \<Rightarrow> Inr \<lparr>ShardID = shardID, Owner = owner, Counter = v,
                                    Checkpoint = cp, ParentIDs = parents\<rparr>)
              | _ \<Rightarrow> Inr \<lparr>ShardID = shardID, Owner = owner, Counter = 0,
                         Checkpoint = cp, ParentIDs = parents\<rparr>))"

fun unmarshal_items :: "item list \<Rightarrow> lease_error + lease list" where
  "unmarshal_items [] = Inr []"
| "unmarshal_items (it # its) =
     (case unmarshalLease it of
        Inl e \<Rightarrow> Inl e
      | Inr l \<Rightarrow> (case unmarshal_items its of Inl e \<Rightarrow> Inl e | Inr ls \<Rightarrow> Inr (l # ls)))"

subsection \<open>The operations\<close>

partial_function (option) list_pages ::
  "'w DynamoDBStore \<Rightarrow> lease list \<Rightarrow> item option \<Rightarrow> 'w
     \<Rightarrow> ((lease_error + lease list) \<times> 'w) option" where
  "list_pages s out startKey w =
     (case dc_Scan (ddb_client s) (ddb_table s) startKey w of
        (Inl err, w1) \<Rightarrow> Some (Inl (pass_error err), w1)
      | (Inr (items, lastKey), w1) \<Rightarrow>
          (case unmarshal_items items of
             Inl err \<Rightarrow> Some (Inl err, w1)
           | Inr ls \<Rightarrow>
               if lastKey = None then Some (Inr (out @ ls), w1)
               else list_pages s (out @ ls) lastKey w1))"

definition DynamoDBStore_List ::
  "'w DynamoDBStore \<Rightarrow> 'w \<Rightarrow> ((lease_error + lease list) \<times> 'w) option" where
  "DynamoDBStore_List s w = list_pages s [] None w"

definition DynamoDBStore_Ensure ::
  "'w DynamoDBStore \<Rightarrow> string \<Rightarrow> string list \<Rightarrow> 'w \<Rightarrow> lease_error option \<times> 'w" where
  "DynamoDBStore_Ensure s shardID parentIDs w =
     (let cond = AttributeNotExists attrLeaseKey;
          item = marshalLease \<lparr>ShardID = shardID, Owner = '''', Counter = 0,
                   Checkpoint = CheckpointTrimHorizon, ParentIDs = parentIDs\<rparr>
      in case dc_PutItem (ddb_client s) (ddb_table s) item cond w of
           (None, w1) \<Rightarrow> (None, w1)
         | (Some err, w1) \<Rightarrow>
             if isConditionalCheckFailed err then (None, w1) else (Some (pass_error err), w1))"

definition rowExists ::
  "'w DynamoDBStore \<Rightarrow> string \<Rightarrow> 'w \<Rightarrow> (lease_error + bool) \<times> 'w" where
  "rowExists s shardID w =
     (case dc_GetItem (ddb_client s) (ddb_table s) (leaseKey shardID) w of
        (Inl err, w1) \<Rightarrow> (Inl (pass_error err), w1)
      | (Inr item, w1) \<Rightarrow> (Inr (item \<noteq> None), w1))"

definition update ::
  "'w DynamoDBStore \<Rightarrow> string \<Rightarrow> update_action list \<Rightarrow> condition \<Rightarrow> 'w
     \<Rightarrow> (lease_error + lease) \<times> 'w" where
  "update s shardID upd cond w =
     (case dc_UpdateItem (ddb_client s) (ddb_table s) (leaseKey shardID) upd cond w of
        (Inl err, w1) \<Rightarrow>
          if isConditionalCheckFailed err then
            (case rowExists s shardID w1 of
               (Inl gerr, w2) \<Rightarrow> (Inl gerr, w2)
             | (Inr exists, w2) \<Rightarrow>
                 (Inl (if \<not> exists then ErrLeaseNotFound else ErrLeaseConflict), w2))
          else (Inl (pass_error err), w1)
      | (Inr attributes, w1) \<Rightarrow> (unmarshalLease attributes, w1))"

definition ownerCounterCondition :: "lease \<Rightarrow> condition" where
  "ownerCounterCondition l =
     And (Equal attrLeaseOwner (S (Owner l))) (Equal attrLeaseCounter (N (FormatInt (Counter l))))"

definition DynamoDBStore_Acquire ::
  "'w DynamoDBStore \<Rightarrow> string \<Rightarrow> string \<Rightarrow> int64 \<Rightarrow> 'w \<Rightarrow> (lease_error + lease) \<times> 'w" where
  "DynamoDBStore_Acquire s shardID owner expectedCounter w =
     (if owner = '''' then (Inl ErrEmptyOwner, w)
      else update s shardID
             [SetAttr attrLeaseOwner (S owner),
              SetAttr attrLeaseCounter (N (FormatInt (expectedCounter + 1)))]
             (Equal attrLeaseCounter (N (FormatInt expectedCounter))) w)"

definition DynamoDBStore_Heartbeat ::
  "'w DynamoDBStore \<Rightarrow> lease \<Rightarrow> 'w \<Rightarrow> (lease_error + lease) \<times> 'w" where
  "DynamoDBStore_Heartbeat s l =
     update s (ShardID l) [SetAttr attrLeaseCounter (N (FormatInt (Counter l + 1)))]
       (ownerCounterCondition l)"

definition DynamoDBStore_Checkpoint ::
  "'w DynamoDBStore \<Rightarrow> lease \<Rightarrow> string \<Rightarrow> 'w \<Rightarrow> (lease_error + lease) \<times> 'w" where
  "DynamoDBStore_Checkpoint s l seq =
     update s (ShardID l)
       [SetAttr attrCheckpoint (S seq), SetAttr attrLeaseCounter (N (FormatInt (Counter l + 1)))]
       (ownerCounterCondition l)"

definition DynamoDBStore_Release ::
  "'w DynamoDBStore \<Rightarrow> lease \<Rightarrow> 'w \<Rightarrow> lease_error option \<times> 'w" where
  "DynamoDBStore_Release s l w =
     (case update s (ShardID l)
             [SetAttr attrLeaseCounter (N (FormatInt (Counter l + 1))), RemoveAttr attrLeaseOwner]
             (ownerCounterCondition l) w of
        (Inl err, w1) \<Rightarrow> (Some err, w1)
      | (Inr _, w1) \<Rightarrow> (None, w1))"

definition DynamoDBStore_Delete ::
  "'w DynamoDBStore \<Rightarrow> string \<Rightarrow> int64 \<Rightarrow> 'w \<Rightarrow> lease_error option \<times> 'w" where
  "DynamoDBStore_Delete s shardID expectedCounter w =
     (case dc_DeleteItem (ddb_client s) (ddb_table s) (leaseKey shardID)
             (Equal attrLeaseCounter (N (FormatInt expectedCounter))) w of
        (None, w1) \<Rightarrow> (None, w1)
      | (Some err, w1) \<Rightarrow>
          if isConditionalCheckFailed err then
            (case rowExists s shardID w1 of
               (Inl gerr, w2) \<Rightarrow> (Some gerr, w2)
             | (Inr exists, w2) \<Rightarrow> (if \<not> exists then None else Some ErrLeaseConflict, w2))
          else (Some (pass_error err), w1))"

definition dynamodb_store :: "'w DynamoDBStore \<Rightarrow> 'w store" where
  "dynamodb_store s =
     \<lparr>st_List = DynamoDBStore_List s, st_Ensure = DynamoDBStore_Ensure s,
      st_Acquire = DynamoDBStore_Acquire s, st_Heartbeat = DynamoDBStore_Heartbeat s,
      st_Checkpoint = DynamoDBStore_Checkpoint s, st_Release = DynamoDBStore_Release s,
      st_Delete = DynamoDBStore_Delete s\<rparr>"

subsection \<open>The documented behaviour of the service\<close>

fun holds :: "condition \<Rightarrow> item option \<Rightarrow> bool" where
  "holds (AttributeNotExists n) row = (case row of None \<Rightarrow> True | Some m \<Rightarrow> m n = None)"
| "holds (Equal n v) row = (case row of None \<Rightarrow> False | Some m \<Rightarrow> m n = Some v)"
| "holds (And a b) row = (holds a row \<and> holds b row)"

fun apply_actions :: "update_action list \<Rightarrow> item \<Rightarrow> item" where
  "apply_actions [] m = m"
| "apply_actions (SetAttr n v # as) m = apply_actions as (m(n \<mapsto> v))"
| "apply_actions (RemoveAttr n # as) m = apply_actions as (m(n := None))"

lemma holds_missing: "\<not> holds (Equal n v) None"
  by simp

text \<open>An update of a missing row starts from an item that holds the key alone.\<close>

definition row_base :: "string \<Rightarrow> item option \<Rightarrow> item" where
  "row_base k row = (case row of None \<Rightarrow> leaseKey k | Some m \<Rightarrow> m)"

text \<open>
  A failed call that is not a failed condition carries an error that the callers treat as
  transient; the write behind it landed entirely or not at all.
\<close>

definition lost_reply ::
  "lease_error \<Rightarrow> bool \<Rightarrow> (string \<rightharpoonup> item) \<Rightarrow> (string \<rightharpoonup> item) \<Rightarrow> (string \<rightharpoonup> item) \<Rightarrow> bool" where
  "lost_reply le cond_held t written t' \<longleftrightarrow> transient le \<and> (t' = t \<or> (cond_held \<and> t' = written))"

definition put_spec ::
  "(string \<rightharpoonup> item) \<Rightarrow> string \<Rightarrow> item \<Rightarrow> condition \<Rightarrow> aws_error option \<Rightarrow> (string \<rightharpoonup> item) \<Rightarrow> bool" where
  "put_spec t k it cond res t' \<longleftrightarrow>
     (case res of
        None \<Rightarrow> holds cond (t k) \<and> t' = t(k \<mapsto> it)
      | Some ConditionalCheckFailedException \<Rightarrow> \<not> holds cond (t k) \<and> t' = t
      | Some (AwsOther le) \<Rightarrow> lost_reply le (holds cond (t k)) t (t(k \<mapsto> it)) t')"

definition update_spec ::
  "(string \<rightharpoonup> item) \<Rightarrow> string \<Rightarrow> update_action list \<Rightarrow> condition \<Rightarrow> aws_error + item
     \<Rightarrow> (string \<rightharpoonup> item) \<Rightarrow> bool" where
  "update_spec t k upd cond res t' \<longleftrightarrow>
     (let new = apply_actions upd (row_base k (t k))
      in case res of
           Inr attrs \<Rightarrow> holds cond (t k) \<and> attrs = new \<and> t' = t(k \<mapsto> new)
         | Inl ConditionalCheckFailedException \<Rightarrow> \<not> holds cond (t k) \<and> t' = t
         | Inl (AwsOther le) \<Rightarrow> lost_reply le (holds cond (t k)) t (t(k \<mapsto> new)) t')"

definition deleteitem_spec ::
  "(string \<rightharpoonup> item) \<Rightarrow> string \<Rightarrow> condition \<Rightarrow> aws_error option \<Rightarrow> (string \<rightharpoonup> item) \<Rightarrow> bool" where
  "deleteitem_spec t k cond res t' \<longleftrightarrow>
     (case res of
        None \<Rightarrow> holds cond (t k) \<and> t' = t(k := None)
      | Some ConditionalCheckFailedException \<Rightarrow> \<not> holds cond (t k) \<and> t' = t
      | Some (AwsOther le) \<Rightarrow> lost_reply le (holds cond (t k)) t (t(k := None)) t')"

definition get_spec ::
  "(string \<rightharpoonup> item) \<Rightarrow> string \<Rightarrow> aws_error + item option \<Rightarrow> (string \<rightharpoonup> item) \<Rightarrow> bool" where
  "get_spec t k res t' \<longleftrightarrow> t' = t \<and>
     (case res of
        Inr row \<Rightarrow> t k = row
      | Inl ConditionalCheckFailedException \<Rightarrow> False
      | Inl (AwsOther le) \<Rightarrow> transient le)"

text \<open>
  The rows of a KCL-shaped table: the key is the row's key, the counter a canonical number
  (DynamoDB stores numbers trimmed), the owner absent or a non-empty string.  Other columns
  are free, as KCL writes some of its own.
\<close>

definition kcl_row :: "string \<Rightarrow> item \<Rightarrow> bool" where
  "kcl_row k m \<longleftrightarrow> m attrLeaseKey = Some (S k) \<and>
     (\<exists>c. m attrLeaseCounter = Some (N (FormatInt c))) \<and>
     (m attrLeaseOwner = None \<or> (\<exists>ow. ow \<noteq> '''' \<and> m attrLeaseOwner = Some (S ow)))"

definition kcl_table :: "(string \<rightharpoonup> item) \<Rightarrow> bool" where
  "kcl_table t \<longleftrightarrow> (\<forall>k m. t k = Some m \<longrightarrow> kcl_row k m)"

definition row_lease :: "item \<Rightarrow> lease option" where
  "row_lease m = (case unmarshalLease m of Inl _ \<Rightarrow> None | Inr l \<Rightarrow> Some l)"

definition lease_view :: "(string \<rightharpoonup> item) \<Rightarrow> lease_table" where
  "lease_view t k = (case t k of None \<Rightarrow> None | Some m \<Rightarrow> row_lease m)"

lemma lease_view_iff:
  "lease_view t k = Some l \<longleftrightarrow> (\<exists>m. t k = Some m \<and> unmarshalLease m = Inr l)"
  by (auto simp: lease_view_def row_lease_def split: option.splits sum.splits)

subsection \<open>The codec on KCL-shaped rows\<close>

lemma FormatInt_inj [simp]: "FormatInt a = FormatInt b \<longleftrightarrow> a = b"
  by (metis ParseInt_FormatInt option.inject)

lemmas codec_defs =
  marshalLease_def unmarshalLease_def stringAttr_def leaseKey_def

lemma unmarshal_items_append:
  "unmarshal_items (xs @ ys) =
     (case unmarshal_items xs of Inl e \<Rightarrow> Inl e
      | Inr a \<Rightarrow> (case unmarshal_items ys of Inl e \<Rightarrow> Inl e | Inr b \<Rightarrow> Inr (a @ b)))"
  by (induction xs) (auto split: sum.splits)

lemma unmarshal_items_set:
  "unmarshal_items its = Inr ls \<Longrightarrow> set ls = {l. \<exists>m\<in>set its. unmarshalLease m = Inr l}"
  by (induction its arbitrary: ls) (auto split: sum.splits)

lemma unmarshal_marshal: "unmarshalLease (marshalLease l) = Inr l"
  by (cases l) (simp add: codec_defs Let_def ParseInt_FormatInt)

lemma kcl_row_marshal: "kcl_row (ShardID l) (marshalLease l)"
  by (auto simp: kcl_row_def marshalLease_def Let_def)

lemma kcl_row_lease:
  assumes "kcl_row k m"
  obtains l where "row_lease m = Some l" "unmarshalLease m = Inr l" "ShardID l = k"
    "m attrLeaseCounter = Some (N (FormatInt (Counter l)))"
    "m attrLeaseOwner = (if Owner l = '''' then None else Some (S (Owner l)))"
proof -
  obtain c where c: "m attrLeaseCounter = Some (N (FormatInt c))" and k: "m attrLeaseKey = Some (S k)"
    using assms by (auto simp: kcl_row_def)
  obtain l where l: "unmarshalLease m = Inr l"
    using c k by (auto simp: codec_defs Let_def ParseInt_FormatInt)
  show ?thesis
  proof
    show "row_lease m = Some l" "unmarshalLease m = Inr l" using l by (simp_all add: row_lease_def)
    show "ShardID l = k" "m attrLeaseCounter = Some (N (FormatInt (Counter l)))"
      using l c k by (auto simp: codec_defs Let_def ParseInt_FormatInt)
    show "m attrLeaseOwner = (if Owner l = '''' then None else Some (S (Owner l)))"
      using l c k assms by (auto simp: codec_defs Let_def ParseInt_FormatInt kcl_row_def)
  qed
qed

text \<open>Writing the columns the store writes is the record update the contract names.\<close>

lemma kcl_row_set_counter:
  "kcl_row k m \<Longrightarrow> kcl_row k (m(attrLeaseCounter \<mapsto> N (FormatInt c)))"
  by (auto simp: kcl_row_def)

lemma row_lease_set_counter:
  "kcl_row k m \<Longrightarrow> row_lease m = Some l \<Longrightarrow>
     row_lease (m(attrLeaseCounter \<mapsto> N (FormatInt c))) = Some (l\<lparr>Counter := c\<rparr>)"
  by (auto simp: kcl_row_def row_lease_def codec_defs Let_def ParseInt_FormatInt)

lemma kcl_row_set_owner:
  "kcl_row k m \<Longrightarrow> ow \<noteq> '''' \<Longrightarrow> kcl_row k (m(attrLeaseOwner \<mapsto> S ow))"
  by (auto simp: kcl_row_def)

lemma row_lease_set_owner:
  "kcl_row k m \<Longrightarrow> row_lease m = Some l \<Longrightarrow>
     row_lease (m(attrLeaseOwner \<mapsto> S ow)) = Some (l\<lparr>Owner := ow\<rparr>)"
  by (auto simp: kcl_row_def row_lease_def codec_defs Let_def ParseInt_FormatInt)

lemma kcl_row_remove_owner: "kcl_row k m \<Longrightarrow> kcl_row k (m(attrLeaseOwner := None))"
  by (auto simp: kcl_row_def)

lemma row_lease_remove_owner:
  "kcl_row k m \<Longrightarrow> row_lease m = Some l \<Longrightarrow>
     row_lease (m(attrLeaseOwner := None)) = Some (l\<lparr>Owner := ''''\<rparr>)"
  by (auto simp: kcl_row_def row_lease_def codec_defs Let_def ParseInt_FormatInt)

lemma kcl_row_set_checkpoint: "kcl_row k m \<Longrightarrow> kcl_row k (m(attrCheckpoint \<mapsto> S cp))"
  by (auto simp: kcl_row_def)

lemma row_lease_set_checkpoint:
  "kcl_row k m \<Longrightarrow> row_lease m = Some l \<Longrightarrow>
     row_lease (m(attrCheckpoint \<mapsto> S cp)) = Some (l\<lparr>Checkpoint := cp\<rparr>)"
  by (auto simp: kcl_row_def row_lease_def codec_defs Let_def ParseInt_FormatInt)

locale dynamo_api =
  fixes s :: "'w DynamoDBStore"
    and tbl :: "'w \<Rightarrow> string \<rightharpoonup> item"
    and scan_pages :: "'w \<Rightarrow> item option \<Rightarrow> item list list"
  assumes scan_law: "dc_Scan (ddb_client s) (ddb_table s) k0 w = (scanned, w') \<Longrightarrow>
      tbl w' = tbl w \<and> (case scanned of
          Inl _ \<Rightarrow> True
        | Inr (items, lastKey) \<Rightarrow>
            scan_pages w k0 = items # (if lastKey = None then [] else scan_pages w' lastKey))"
    and scan_cover: "finite (dom (tbl w)) \<Longrightarrow> set (concat (scan_pages w None)) = ran (tbl w)"
    and put_law: "it attrLeaseKey = Some (S k) \<Longrightarrow>
      dc_PutItem (ddb_client s) (ddb_table s) it cond w = (err, w') \<Longrightarrow>
      put_spec (tbl w) k it cond err (tbl w')"
    and update_law: "dc_UpdateItem (ddb_client s) (ddb_table s) (leaseKey k) upd cond w = (upres, w')
      \<Longrightarrow> update_spec (tbl w) k upd cond upres (tbl w')"
    and delete_law: "dc_DeleteItem (ddb_client s) (ddb_table s) (leaseKey k) cond w = (err, w')
      \<Longrightarrow> deleteitem_spec (tbl w) k cond err (tbl w')"
    and get_law: "dc_GetItem (ddb_client s) (ddb_table s) (leaseKey k) w = (got, w') \<Longrightarrow>
      get_spec (tbl w) k got (tbl w')"
begin

abbreviation view where "view w \<equiv> lease_view (tbl w)"

abbreviation inv where "inv w \<equiv> kcl_table (tbl w)"

lemma rowExists_frame:
  "rowExists s k w = (ex, w') \<Longrightarrow> tbl w' = tbl w \<and>
     (case ex of Inl e \<Rightarrow> transient e | Inr b \<Rightarrow> b \<longleftrightarrow> tbl w k \<noteq> None)"
  by (auto simp: rowExists_def get_spec_def pass_error_def
      split: prod.splits sum.splits aws_error.splits dest!: get_law)

lemma view_row:
  assumes "inv w"
  obtains "tbl w k = None" "view w k = None"
  | m l where "tbl w k = Some m" "kcl_row k m" "row_lease m = Some l" "view w k = Some l"
proof (cases "tbl w k")
  case None
  then show thesis using that(1) by (simp add: lease_view_def)
next
  case (Some m)
  then have "kcl_row k m" using assms by (simp add: kcl_table_def)
  then obtain l where "row_lease m = Some l" by (rule kcl_row_lease)
  with Some \<open>kcl_row k m\<close> show thesis using that(2) by (simp add: lease_view_def)
qed

lemma view_upd:
  "row_lease m = Some l \<Longrightarrow> tbl w' = (tbl w)(k \<mapsto> m) \<Longrightarrow> view w' = (view w)(k \<mapsto> l)"
  by (auto simp: lease_view_def fun_eq_iff)

lemma view_del: "tbl w' = (tbl w)(k := None) \<Longrightarrow> view w' = (view w)(k := None)"
  by (auto simp: lease_view_def fun_eq_iff)

lemma inv_upd: "inv w \<Longrightarrow> kcl_row k m \<Longrightarrow> tbl w' = (tbl w)(k \<mapsto> m) \<Longrightarrow> inv w'"
  by (auto simp: kcl_table_def)

text \<open>
  One lemma for the four conditional updates: if the condition says of a row what the guard
  \<open>g\<close> says of the lease, and the actions do to a row what \<open>u\<close> does to the lease, then
  \<^verbatim>\<open>update\<close> is a conditional write in the sense of the contract.
\<close>

lemma update_correct:
  assumes inv: "inv w"
    and cond: "\<And>m l. kcl_row k m \<Longrightarrow> row_lease m = Some l \<Longrightarrow> holds cond (Some m) \<longleftrightarrow> g l"
    and none: "\<not> holds cond None"
    and upd: "\<And>m l. kcl_row k m \<Longrightarrow> row_lease m = Some l \<Longrightarrow> g l \<Longrightarrow>
      kcl_row k (apply_actions upd m) \<and> row_lease (apply_actions upd m) = Some (u l)"
    and run: "update s k upd cond w = (res, w')"
  shows "inv w' \<and> write_result (view w) k g u res (view w')"
proof -
  obtain ur w1 where call:
    "dc_UpdateItem (ddb_client s) (ddb_table s) (leaseKey k) upd cond w = (ur, w1)"
    by (cases "dc_UpdateItem (ddb_client s) (ddb_table s) (leaseKey k) upd cond w")
  note spec = update_law [OF call]
  show ?thesis
    using inv
  proof (cases rule: view_row [of w k])
    case 1
    then show ?thesis
      using spec run call none inv rowExists_frame [of k w1]
      by (cases "rowExists s k w1")
        (auto simp: update_def update_spec_def Let_def isConditionalCheckFailed_def
          pass_error_def lost_reply_def write_defs transient_def
          split: sum.splits aws_error.splits if_splits lease_error.splits)
  next
    case (2 m l)
    let ?m = "apply_actions upd m"
    have gm: "holds cond (Some m) \<longleftrightarrow> g l" using cond 2 by blast
    have ok: "g l \<Longrightarrow> kcl_row k ?m \<and> row_lease ?m = Some (u l)" using upd 2 by blast
    have um: "g l \<Longrightarrow> unmarshalLease ?m = Inr (u l)"
      using ok by (auto simp: row_lease_def split: sum.splits)
    have landed: "g l \<Longrightarrow> tbl w1 = (tbl w)(k \<mapsto> ?m) \<Longrightarrow> inv w1 \<and> view w1 = (view w)(k \<mapsto> u l)"
      using ok inv_upd [OF inv] view_upd by blast
    show ?thesis
    proof (cases ur)
      case (Inr attrs)
      then have "g l" "attrs = ?m" "tbl w1 = (tbl w)(k \<mapsto> ?m)"
        using spec gm 2 by (auto simp: update_spec_def Let_def row_base_def)
      moreover have "res = Inr (u l)" "w' = w1"
        using run call Inr um [OF \<open>g l\<close>] \<open>attrs = ?m\<close> by (auto simp: update_def)
      ultimately show ?thesis
        using 2 landed by (simp add: write_defs)
    next
      case (Inl e)
      show ?thesis
      proof (cases e)
        case ConditionalCheckFailedException
        then have "\<not> g l" "tbl w1 = tbl w"
          using spec gm 2 Inl by (auto simp: update_spec_def Let_def)
        then show ?thesis
          using run call Inl ConditionalCheckFailedException 2 inv rowExists_frame [of k w1]
          by (cases "rowExists s k w1")
            (auto simp: update_def isConditionalCheckFailed_def write_defs transient_def
              split: sum.splits lease_error.splits)
      next
        case (AwsOther le)
        then have "res = Inl le" "w' = w1"
          using run call Inl by (auto simp: update_def isConditionalCheckFailed_def pass_error_def)
        moreover have "transient le" "tbl w1 = tbl w \<or> g l \<and> tbl w1 = (tbl w)(k \<mapsto> ?m)"
          using spec gm 2 Inl AwsOther
          by (auto simp: update_spec_def Let_def lost_reply_def row_base_def)
        ultimately show ?thesis
          using landed inv 2
          by (auto simp: write_defs transient_def split: lease_error.splits)
      qed
    qed
  qed
qed

lemma cond_owner_counter:
  assumes "Owner l \<noteq> ''''" "kcl_row k m" "row_lease m = Some r"
  shows "holds (ownerCounterCondition l) (Some m) \<longleftrightarrow> holds_token l r"
  using assms(2)
proof (rule kcl_row_lease)
  fix l' assume "row_lease m = Some l'"
    "m attrLeaseCounter = Some (N (FormatInt (Counter l')))"
    "m attrLeaseOwner = (if Owner l' = '''' then None else Some (S (Owner l')))"
  then show ?thesis
    using assms(1,3) by (auto simp: ownerCounterCondition_def holds_token_def)
qed

lemma cond_counter:
  assumes "kcl_row k m" "row_lease m = Some r"
  shows "holds (Equal attrLeaseCounter (N (FormatInt c))) (Some m) \<longleftrightarrow> Counter r = c"
  using assms(1)
proof (rule kcl_row_lease)
  fix l' assume "row_lease m = Some l'" "m attrLeaseCounter = Some (N (FormatInt (Counter l')))"
  then show ?thesis using assms(2) by auto
qed

lemma Acquire_correct:
  assumes "inv w" "ow \<noteq> ''''" "DynamoDBStore_Acquire s k ow c w = (res, w')"
  shows "inv w' \<and> write_result (view w) k (\<lambda>x. Counter x = c)
           (\<lambda>x. x\<lparr>Owner := ow, Counter := c + 1\<rparr>) res (view w')"
proof (rule update_correct [OF assms(1) cond_counter])
  show "update s k [SetAttr attrLeaseOwner (S ow),
          SetAttr attrLeaseCounter (N (FormatInt (c + 1)))]
        (Equal attrLeaseCounter (N (FormatInt c))) w = (res, w')"
    using assms(2,3) by (simp add: DynamoDBStore_Acquire_def)
qed (auto simp: assms(2) kcl_row_set_owner kcl_row_set_counter row_lease_set_owner
      row_lease_set_counter [OF kcl_row_set_owner])

lemma Heartbeat_correct:
  assumes "inv w" "Owner l \<noteq> ''''" "DynamoDBStore_Heartbeat s l w = (res, w')"
  shows "inv w' \<and> write_result (view w) (ShardID l) (holds_token l)
           (\<lambda>x. x\<lparr>Counter := Counter l + 1\<rparr>) res (view w')"
  by (rule update_correct [OF assms(1) cond_owner_counter [OF assms(2)]])
    (use assms(3) in \<open>auto simp: DynamoDBStore_Heartbeat_def kcl_row_set_counter
      row_lease_set_counter ownerCounterCondition_def\<close>)

lemma Checkpoint_correct:
  assumes "inv w" "Owner l \<noteq> ''''" "DynamoDBStore_Checkpoint s l seq w = (res, w')"
  shows "inv w' \<and> write_result (view w) (ShardID l) (holds_token l)
           (\<lambda>x. x\<lparr>Checkpoint := seq, Counter := Counter l + 1\<rparr>) res (view w')"
proof (rule update_correct [OF assms(1) cond_owner_counter [OF assms(2)]])
  show "update s (ShardID l)
       [SetAttr attrCheckpoint (S seq), SetAttr attrLeaseCounter (N (FormatInt (Counter l + 1)))]
       (ownerCounterCondition l) w = (res, w')"
    using assms(3) by (simp add: DynamoDBStore_Checkpoint_def)
qed (auto simp: kcl_row_set_counter kcl_row_set_checkpoint row_lease_set_checkpoint
      row_lease_set_counter [OF kcl_row_set_checkpoint] ownerCounterCondition_def)

lemma Release_correct:
  assumes "inv w" "Owner l \<noteq> ''''" "DynamoDBStore_Release s l w = (e, w')"
  shows "inv w' \<and> (case e of
          None \<Rightarrow> committed (view w) (ShardID l) (holds_token l)
                   (\<lambda>x. Some (x\<lparr>Owner := '''', Counter := Counter l + 1\<rparr>)) (view w')
        | Some e \<Rightarrow> refused (view w) (ShardID l) (holds_token l)
                   (\<lambda>x. Some (x\<lparr>Owner := '''', Counter := Counter l + 1\<rparr>)) e (view w'))"
proof -
  obtain res where upd: "update s (ShardID l)
      [SetAttr attrLeaseCounter (N (FormatInt (Counter l + 1))), RemoveAttr attrLeaseOwner]
      (ownerCounterCondition l) w = (res, w')"
    and e: "e = (case res of Inl err \<Rightarrow> Some err | Inr _ \<Rightarrow> None)"
    using assms(3) by (auto simp: DynamoDBStore_Release_def split: prod.splits sum.splits)
  have "inv w' \<and> write_result (view w) (ShardID l) (holds_token l)
           (\<lambda>x. x\<lparr>Owner := '''', Counter := Counter l + 1\<rparr>) res (view w')"
    by (rule update_correct [OF assms(1) cond_owner_counter [OF assms(2)] _ _ upd])
      (auto simp: kcl_row_set_counter kcl_row_remove_owner
        row_lease_set_counter row_lease_remove_owner [OF kcl_row_set_counter]
        ownerCounterCondition_def)
  then show ?thesis using e by (auto simp: write_result_def comp_def split: sum.splits)
qed

lemma Ensure_correct:
  assumes "inv w" "DynamoDBStore_Ensure s k ps w = (e, w')"
  shows "inv w' \<and> ensure_result (view w) k ps e (view w')"
proof -
  let ?it = "marshalLease (fresh_lease k ps)"
  obtain pe w1 where call:
    "dc_PutItem (ddb_client s) (ddb_table s) ?it (AttributeNotExists attrLeaseKey) w = (pe, w1)"
    by fastforce
  have key: "?it attrLeaseKey = Some (S k)" by (simp add: marshalLease_def fresh_lease_def Let_def)
  have row: "kcl_row k ?it" using kcl_row_marshal [of "fresh_lease k ps"] by (simp add: fresh_lease_def)
  have lease: "row_lease ?it = Some (fresh_lease k ps)" by (simp add: row_lease_def unmarshal_marshal)
  have run: "(case (pe, w1) of (None, w1) \<Rightarrow> (None, w1) | (Some err, w1) \<Rightarrow>
      if isConditionalCheckFailed err then (None, w1) else (Some (pass_error err), w1)) = (e, w')"
    using assms(2) call by (simp add: DynamoDBStore_Ensure_def Let_def fresh_lease_def)
  note spec = put_law [OF key call]
  have put: "tbl w1 = (tbl w)(k \<mapsto> ?it) \<Longrightarrow> inv w1 \<and> view w1 = (view w)(k \<mapsto> fresh_lease k ps)"
    using inv_upd [OF assms(1) row] view_upd [OF lease] by blast
  have nx: "holds (AttributeNotExists attrLeaseKey) (tbl w k) \<longleftrightarrow> tbl w k = None"
    using assms(1) by (auto simp: kcl_table_def kcl_row_def split: option.splits)
  have vn: "view w k = None \<longleftrightarrow> tbl w k = None"
    using assms(1) by (cases rule: view_row [of w k]) auto
  show ?thesis
    using run spec put nx vn assms(1)
    by (auto simp: put_spec_def ensure_result_def Let_def isConditionalCheckFailed_def
        pass_error_def lost_reply_def split: option.splits aws_error.splits)
qed

lemma Delete_correct:
  assumes "inv w" "DynamoDBStore_Delete s k c w = (e, w')"
  shows "inv w' \<and> delete_result (view w) k c e (view w')"
proof -
  let ?c = "Equal attrLeaseCounter (N (FormatInt c))"
  obtain de w1 where call:
    "dc_DeleteItem (ddb_client s) (ddb_table s) (leaseKey k) ?c w = (de, w1)"
    by fastforce
  note spec = delete_law [OF call]
  have hc: "holds ?c (tbl w k) \<longleftrightarrow> (\<exists>r. view w k = Some r \<and> Counter r = c)"
    using assms(1) by (cases rule: view_row [of w k]) (auto simp: cond_counter holds_missing simp del: holds.simps)
  have del: "tbl w1 = (tbl w)(k := None) \<Longrightarrow> inv w1 \<and> view w1 = (view w)(k := None)"
    using assms(1) view_del by (auto simp: kcl_table_def)
  have vn: "view w k = None \<longleftrightarrow> tbl w k = None"
    using assms(1) by (cases rule: view_row [of w k]) auto
  obtain ex w2 where rx: "rowExists s k w1 = (ex, w2)" by fastforce
  note rxf = rowExists_frame [OF rx]
  show ?thesis
    using assms(2) call rx rxf spec hc del vn assms(1)
    by (auto simp: DynamoDBStore_Delete_def deleteitem_spec_def delete_result_def
        isConditionalCheckFailed_def pass_error_def lost_reply_def write_defs transient_def
        simp del: holds.simps
        split: option.splits aws_error.splits sum.splits if_splits lease_error.splits)
qed

text \<open>The paging loop of a scan ends: each page leaves less of the table to scan.\<close>

lemma list_pages_returns:
  "\<exists>r w'. list_pages s out k0 w = Some (r, w') \<and> tbl w' = tbl w \<and>
     (\<forall>ls. r = Inr ls \<longrightarrow>
        (\<exists>more. unmarshal_items (concat (scan_pages w k0)) = Inr more \<and> ls = out @ more))"
proof (induction "length (scan_pages w k0)" arbitrary: out k0 w rule: less_induct)
  case less
  obtain sc w1 where call: "dc_Scan (ddb_client s) (ddb_table s) k0 w = (sc, w1)" by fastforce
  note law = scan_law [OF call]
  show ?case
  proof (cases sc)
    case (Inl e)
    with law call show ?thesis by (subst list_pages.simps) simp
  next
    case (Inr p)
    obtain items lk where p: "p = (items, lk)" by (cases p)
    have pages: "scan_pages w k0 = items # (if lk = None then [] else scan_pages w1 lk)"
      and tb: "tbl w1 = tbl w" using law Inr p by auto
    show ?thesis
    proof (cases "unmarshal_items items")
      case (Inl e)
      with call Inr p tb show ?thesis by (subst list_pages.simps) simp
    next
      case un: (Inr ls)
      show ?thesis
      proof (cases lk)
        case None
        with call Inr p un pages tb show ?thesis by (subst list_pages.simps) simp
      next
        case (Some k1)
        have "length (scan_pages w1 lk) < length (scan_pages w k0)" using pages Some by simp
        from less [OF this, of "out @ ls"] obtain r w2 where
          rec: "list_pages s (out @ ls) lk w1 = Some (r, w2)" "tbl w2 = tbl w1"
          "\<forall>ls'. r = Inr ls' \<longrightarrow> (\<exists>more. unmarshal_items (concat (scan_pages w1 lk)) = Inr more
              \<and> ls' = (out @ ls) @ more)"
          by blast
        have "list_pages s out k0 w = Some (r, w2)"
          using call Inr p un rec(1) Some by (subst list_pages.simps) simp
        with rec tb pages Some un show ?thesis
          by (auto simp: unmarshal_items_append)
      qed
    qed
  qed
qed

lemma list_pages_frame: "list_pages s out k0 w = Some (r, w') \<Longrightarrow> tbl w' = tbl w"
  using list_pages_returns [of out k0 w] by auto

end

text \<open>
  The contract holds of the DynamoDB store as the code builds it on such a service: whatever
  is proved of \<^verbatim>\<open>lease_store\<close> holds of it.
\<close>

sublocale dynamo_api \<subseteq> dyn: lease_store "dynamodb_store s" "\<lambda>w. lease_view (tbl w)" "\<lambda>w. kcl_table (tbl w)"
proof (unfold_locales, goal_cases)
  case (1 w k r)
  then show ?case by (cases rule: view_row [of w k]) (auto elim: kcl_row_lease)
next
  case (2 w r w')
  then show ?case by (auto simp: dynamodb_store_def DynamoDBStore_List_def dest: list_pages_frame)
next
  case (3 w k ps e w')
  then show ?case by (auto simp: dynamodb_store_def dest: Ensure_correct)
next
  case (4 w k c)
  then show ?case by (simp add: dynamodb_store_def DynamoDBStore_Acquire_def)
next
  case (5 w ow k c r w')
  then show ?case by (simp add: dynamodb_store_def Acquire_correct)
next
  case (6 w l r w')
  then show ?case by (simp add: dynamodb_store_def Heartbeat_correct)
next
  case (7 w l seq r w')
  then show ?case by (simp add: dynamodb_store_def Checkpoint_correct)
next
  case (8 w l e w')
  then show ?case using Release_correct by (simp add: dynamodb_store_def)
next
  case (9 w k c e w')
  then show ?case by (auto simp: dynamodb_store_def dest: Delete_correct)
qed

context dynamo_api begin

lemma is_lease_store:
  "lease_store (dynamodb_store s) (\<lambda>w. lease_view (tbl w)) (\<lambda>w. kcl_table (tbl w))"
  by (rule dyn.lease_store_axioms)

end

subsection \<open>A service that behaves as documented\<close>

text \<open>
  The hypotheses of \<^verbatim>\<open>dynamo_api\<close> hold of this service: a table, whose scan is one page in
  key order, and a schedule that says of each call whether its reply is lost, before or
  after it took effect.
\<close>

datatype fault = NoFault | LostBefore | LostAfter

record ref_world =
  rw_table :: "string \<rightharpoonup> item"

  rw_faults :: "fault list"

definition next_fault :: "ref_world \<Rightarrow> fault \<times> ref_world" where
  "next_fault w = (case rw_faults w of
     [] \<Rightarrow> (NoFault, w) | f # fs \<Rightarrow> (f, w\<lparr>rw_faults := fs\<rparr>))"

definition item_key :: "item \<Rightarrow> string" where
  "item_key m = (case m attrLeaseKey of Some (S k) \<Rightarrow> k | _ \<Rightarrow> '''')"

definition timeout :: aws_error where
  "timeout = AwsOther (ErrStore ''timeout'')"

definition ref_page :: "(string \<rightharpoonup> item) \<Rightarrow> item list" where
  "ref_page t = List.map_filter t (sorted_list_of_set (dom t))"

definition ref_scan :: "ref_world \<Rightarrow> (aws_error + (item list \<times> item option)) \<times> ref_world" where
  "ref_scan w = (case next_fault w of
     (NoFault, w1) \<Rightarrow> (Inr (ref_page (rw_table w1), None), w1)
   | (_, w1) \<Rightarrow> (Inl timeout, w1))"

definition ref_get :: "item \<Rightarrow> ref_world \<Rightarrow> (aws_error + item option) \<times> ref_world" where
  "ref_get key w = (case next_fault w of
     (NoFault, w1) \<Rightarrow> (Inr (rw_table w1 (item_key key)), w1)
   | (_, w1) \<Rightarrow> (Inl timeout, w1))"

definition ref_write ::
  "string \<Rightarrow> item option \<Rightarrow> condition \<Rightarrow> 'r \<Rightarrow> ref_world \<Rightarrow> (aws_error + 'r) \<times> ref_world" where
  "ref_write k new cond r w =
     (let (f, w1) = next_fault w;
          ok = holds cond (rw_table w1 k);
          w2 = (if ok \<and> f \<noteq> LostBefore then w1\<lparr>rw_table := (rw_table w1)(k := new)\<rparr> else w1)
      in (if f \<noteq> NoFault then Inl timeout
          else if ok then Inr r else Inl ConditionalCheckFailedException, w2))"

definition ref_error :: "(aws_error + unit) \<times> ref_world \<Rightarrow> aws_error option \<times> ref_world" where
  "ref_error r = (case r of (Inl e, w) \<Rightarrow> (Some e, w) | (Inr _, w) \<Rightarrow> (None, w))"

definition ref_client :: "ref_world dynamo_client" where
  "ref_client =
     \<lparr>dc_Scan = (\<lambda>_ _. ref_scan),
      dc_PutItem = (\<lambda>_ it cond w. ref_error (ref_write (item_key it) (Some it) cond () w)),
      dc_UpdateItem = (\<lambda>_ key upd cond w.
        let new = apply_actions upd (row_base (item_key key) (rw_table w (item_key key)))
        in ref_write (item_key key) (Some new) cond new w),
      dc_DeleteItem = (\<lambda>_ key cond w. ref_error (ref_write (item_key key) None cond () w)),
      dc_GetItem = (\<lambda>_. ref_get)\<rparr>"

lemma next_fault_table: "next_fault w = (f, w1) \<Longrightarrow> rw_table w1 = rw_table w"
  by (auto simp: next_fault_def split: list.splits)

lemma item_key_simps [simp]: "item_key (leaseKey k) = k"
  "it attrLeaseKey = Some (S k) \<Longrightarrow> item_key it = k"
  by (simp_all add: item_key_def leaseKey_def)

lemma ref_write_cases:
  assumes "ref_write k new cond r w = (res, w')"
  shows "(res = Inr r \<and> holds cond (rw_table w k) \<and> rw_table w' = (rw_table w)(k := new))
    \<or> (res = Inl ConditionalCheckFailedException \<and> \<not> holds cond (rw_table w k)
        \<and> rw_table w' = rw_table w)
    \<or> (res = Inl timeout \<and> (rw_table w' = rw_table w
        \<or> holds cond (rw_table w k) \<and> rw_table w' = (rw_table w)(k := new)))"
proof -
  obtain f w1 where nf: "next_fault w = (f, w1)" by fastforce
  then have "rw_table w1 = rw_table w" by (rule next_fault_table)
  with assms nf show ?thesis
    by (auto simp: ref_write_def Let_def split: if_splits)
qed

interpretation reference: dynamo_api "NewDynamoDBStore ref_client T" rw_table
  "\<lambda>w _. [ref_page (rw_table w)]" for T
proof (unfold_locales, goal_cases)
  case (1 k0 w r w')
  then show ?case
    by (auto simp: NewDynamoDBStore_def ref_client_def ref_scan_def
        dest!: next_fault_table split: prod.splits fault.splits)
next
  case (2 w)
  then show ?case by (auto simp: ref_page_def set_map_filter_table ran_def)
next
  case (3 it k cond w e w')
  obtain res where res: "ref_write k (Some it) cond () w = (res, w')"
    and e: "e = (case res of Inl x \<Rightarrow> Some x | Inr _ \<Rightarrow> None)"
    using 3 by (auto simp: NewDynamoDBStore_def ref_client_def ref_error_def
        split: prod.splits sum.splits)
  then show ?case
    using ref_write_cases [OF res] by (auto simp: put_spec_def lost_reply_def timeout_def)
next
  case (4 k upd cond w r w')
  let ?new = "apply_actions upd (row_base k (rw_table w k))"
  have "ref_write k (Some ?new) cond ?new w = (r, w')"
    using 4 by (simp add: NewDynamoDBStore_def ref_client_def Let_def)
  then show ?case
    using ref_write_cases by (fastforce simp: update_spec_def Let_def lost_reply_def timeout_def)
next
  case (5 k cond w e w')
  obtain res where res: "ref_write k None cond () w = (res, w')"
    and e: "e = (case res of Inl x \<Rightarrow> Some x | Inr _ \<Rightarrow> None)"
    using 5 by (auto simp: NewDynamoDBStore_def ref_client_def ref_error_def
        split: prod.splits sum.splits)
  then show ?case
    using ref_write_cases [OF res] by (auto simp: deleteitem_spec_def lost_reply_def timeout_def)
next
  case (6 k w r w')
  then show ?case
    by (auto simp: NewDynamoDBStore_def ref_client_def ref_get_def get_spec_def timeout_def
        dest!: next_fault_table split: prod.splits fault.splits)
qed

subsection \<open>Properties of the DynamoDB store\<close>

text \<open>
  C33.  The row codec round-trips: reading back the row the store writes gives the lease,
  counter and parents included, for every int64 counter.
\<close>

theorem unmarshal_marshal_roundtrip: "unmarshalLease (marshalLease l) = Inr l"
  by (rule unmarshal_marshal)

text \<open>
  A row written before parents became a string set, with its parents joined by commas,
  still reads as the same lease.
\<close>

theorem legacy_parents_readable:
  assumes "ps \<noteq> []" "\<forall>p\<in>set ps. p \<noteq> '''' \<and> CHR '','' \<notin> set p"
  shows "unmarshalLease
      ((marshalLease (l\<lparr>ParentIDs := []\<rparr>))(attrParentShardID \<mapsto> S (join_with '','' ps))) =
    Inr (l\<lparr>ParentIDs := ps\<rparr>)"
proof -
  have "join_with '','' ps \<noteq> ''''"
    using assms by (cases ps; cases "tl ps") auto
  moreover have "split_on CHR '','' (join_with '','' ps) = ps"
    using assms by (intro split_join) auto
  ultimately show ?thesis
    by (cases l) (simp add: codec_defs Let_def ParseInt_FormatInt parentSeparator_def)
qed

theorem legacy_parents_readable_witness:
  "unmarshalLease ((marshalLease sample_lease)(attrParentShardID \<mapsto> S ''p1,p2'')) =
    Inr (sample_lease\<lparr>ParentIDs := [''p1'', ''p2'']\<rparr>)"
  using legacy_parents_readable [of "[''p1'', ''p2'']" sample_lease]
  by (simp add: sample_lease_def)


definition sample_world :: "fault list \<Rightarrow> ref_world" where
  "sample_world fs = \<lparr>rw_table = [''s'' \<mapsto> marshalLease sample_lease], rw_faults = fs\<rparr>"

definition sample_store :: "ref_world DynamoDBStore" where
  "sample_store = NewDynamoDBStore ref_client ''leases''"

lemma sample_kcl: "kcl_table (rw_table (sample_world fs))"
  using kcl_row_marshal [of sample_lease]
  by (simp add: kcl_table_def sample_world_def sample_lease_def)

lemmas sample_api = reference.dynamo_api_axioms [of "''leases''", folded sample_store_def]

lemmas sample_run = DynamoDBStore_Acquire_def DynamoDBStore_Checkpoint_def update_def rowExists_def
  sample_store_def NewDynamoDBStore_def ref_client_def ref_write_def ref_get_def next_fault_def
  sample_world_def sample_lease_def marshalLease_def Let_def row_base_def
  ownerCounterCondition_def isConditionalCheckFailed_def unmarshalLease_def stringAttr_def
  ParseInt_FormatInt


text \<open>
  On DynamoDB too a takeover fences the previous owner off: after an acquire at counter c
  has succeeded, a heartbeat, checkpoint or release under a token with that counter fails,
  even if the service loses replies, and leaves the lease table as it was.
\<close>

theorem dynamo_takeover_fences:
  assumes "dynamo_api s tbl pages" "kcl_table (tbl w)"
    and "DynamoDBStore_Acquire s k ow c w = (Inr l, w1)"
    and "ShardID old = k" "Counter old = c" "Owner old \<noteq> ''''"
  shows "(DynamoDBStore_Heartbeat s old w1 = (r, w2) \<longrightarrow>
        (\<exists>x. r = Inl x) \<and> lease_view (tbl w2) = lease_view (tbl w1)) \<and>
    (DynamoDBStore_Checkpoint s old seq w1 = (r, w2) \<longrightarrow>
        (\<exists>x. r = Inl x) \<and> lease_view (tbl w2) = lease_view (tbl w1)) \<and>
    (DynamoDBStore_Release s old w1 = (e, w2) \<longrightarrow>
        (\<exists>x. e = Some x) \<and> lease_view (tbl w2) = lease_view (tbl w1))"
proof -
  note dyn = dynamo_api.is_lease_store [OF assms(1)]
  have ow: "ow \<noteq> ''''" using assms(3) by (auto simp: DynamoDBStore_Acquire_def)
  have acq: "st_Acquire (dynamodb_store s) k ow c w = (Inr l, w1)"
    using assms(3) by (simp add: dynamodb_store_def)
  have inv1: "kcl_table (tbl w1)"
    using lease_store.acquire_law [OF dyn assms(2) ow acq] by blast
  have stale: "\<not> current (lease_view (tbl w1)) old"
    using lease_store.acquire_success(7) [OF dyn assms(2) ow acq] assms(4,5) by blast
  note facts = lease_store.stale_heartbeat [OF dyn inv1 assms(6) stale]
    lease_store.stale_checkpoint [OF dyn inv1 assms(6) stale]
    lease_store.stale_release [OF dyn inv1 assms(6) stale]
  then show ?thesis by (fastforce simp: dynamodb_store_def)
qed

theorem dynamo_takeover_fences_witness:
  "\<exists>w1 r w2. DynamoDBStore_Acquire sample_store ''s'' ''b'' 7 (sample_world [NoFault, LostAfter]) =
      (Inr (sample_lease\<lparr>Owner := ''b'', Counter := 8\<rparr>), w1) \<and>
    DynamoDBStore_Checkpoint sample_store sample_lease ''43'' w1 = (r, w2) \<and> (\<exists>x. r = Inl x) \<and>
    lease_view (rw_table w2) = lease_view (rw_table w1)"
proof -
  let ?w = "sample_world [NoFault, LostAfter]"
  obtain r0 w1 where run: "DynamoDBStore_Acquire sample_store ''s'' ''b'' 7 ?w = (r0, w1)"
    by fastforce
  have r0: "r0 = Inr (sample_lease\<lparr>Owner := ''b'', Counter := 8\<rparr>)"
    using run by (simp add: sample_run)
  obtain r w2 where cp: "DynamoDBStore_Checkpoint sample_store sample_lease ''43'' w1 = (r, w2)"
    by fastforce
  have "(\<exists>x. r = Inl x) \<and> lease_view (rw_table w2) = lease_view (rw_table w1)"
    using dynamo_takeover_fences [OF sample_api sample_kcl run [unfolded r0],
        of sample_lease r w2 "''43''"] cp
    by (simp add: sample_lease_def)
  with run r0 cp show ?thesis by blast
qed



end
