(* ===== verification/Fencing.thy ===== *)
theory Fencing
  imports Dynamo
begin

section \<open>Fencing over a whole history (lease.go, dynamodb.go)\<close>

text \<open>
  A takeover fences the old owner off in the state right after it; here, in every later state.
  \<open>store_ops\<close> is any sequence of store calls by any number of workers, with any tokens and whatever
  the replies, that does not delete the row in question (the coordinator deletes only rows of
  trimmed shards, see \<open>Coordinator\<close>; a deleted and re-created row starts again at counter 0).
  The counter of a row only goes up, so a token stays stale until the counter has gone all the
  way around, \<open>2^64\<close> writes later.
\<close>

inductive store_ops :: "'s store \<Rightarrow> string \<Rightarrow> 's \<Rightarrow> nat \<Rightarrow> 's \<Rightarrow> bool"
  for st :: "'s store" and k :: string and s0 :: 's where
  ops_start: "store_ops st k s0 0 s0"
| ops_list: "store_ops st k s0 n s \<Longrightarrow> st_List st s = Some (x, s') \<Longrightarrow> store_ops st k s0 (Suc n) s'"
| ops_ensure: "store_ops st k s0 n s \<Longrightarrow> st_Ensure st j ps s = (e, s') \<Longrightarrow> store_ops st k s0 (Suc n) s'"
| ops_acquire: "store_ops st k s0 n s \<Longrightarrow> st_Acquire st j v c s = (r, s') \<Longrightarrow> store_ops st k s0 (Suc n) s'"
| ops_heartbeat: "store_ops st k s0 n s \<Longrightarrow> Owner l \<noteq> [] \<Longrightarrow> st_Heartbeat st l s = (r, s') \<Longrightarrow> store_ops st k s0 (Suc n) s'"
| ops_checkpoint: "store_ops st k s0 n s \<Longrightarrow> Owner l \<noteq> [] \<Longrightarrow> st_Checkpoint st l seq s = (r, s') \<Longrightarrow> store_ops st k s0 (Suc n) s'"
| ops_release: "store_ops st k s0 n s \<Longrightarrow> Owner l \<noteq> [] \<Longrightarrow> st_Release st l s = (e, s') \<Longrightarrow> store_ops st k s0 (Suc n) s'"
| ops_delete: "store_ops st k s0 n s \<Longrightarrow> j \<noteq> k \<Longrightarrow> st_Delete st j c s = (e, s') \<Longrightarrow> store_ops st k s0 (Suc n) s'"

text \<open>What one call does to the counter of a row: nothing, or one up.\<close>

definition ticks :: "lease option \<Rightarrow> lease option \<Rightarrow> bool" where
  "ticks x y \<longleftrightarrow> (\<forall>r. x = Some r \<longrightarrow> (\<exists>r'. y = Some r' \<and> (Counter r' = Counter r \<or> Counter r' = Counter r + 1)))"

lemma ticks_refl [simp]: "ticks x x"
  by (simp add: ticks_def)

lemma ticks_committed:
  "committed t j g (Some \<circ> u) t' \<Longrightarrow> (\<And>r. g r \<Longrightarrow> Counter (u r) = Counter r + 1) \<Longrightarrow> ticks (t k) (t' k)"
  by (auto simp: committed_def ticks_def)

lemma ticks_refused:
  "refused t j g (Some \<circ> u) e t' \<Longrightarrow> (\<And>r. g r \<Longrightarrow> Counter (u r) = Counter r + 1) \<Longrightarrow> ticks (t k) (t' k)"
  by (auto simp: refused_def split: lease_error.splits intro: ticks_committed)

lemma ticks_write:
  "write_result t j g u res t' \<Longrightarrow> (\<And>r. g r \<Longrightarrow> Counter (u r) = Counter r + 1) \<Longrightarrow> ticks (t k) (t' k)"
  by (auto simp: write_result_def split: sum.splits intro: ticks_committed ticks_refused)

context lease_store begin

lemma ops_tick:
  assumes "inv s"
  shows "st_List st s = Some (x, s') \<Longrightarrow> inv s' \<and> ticks (view s k) (view s' k)"
    and "st_Ensure st j ps s = (e, s') \<Longrightarrow> inv s' \<and> ticks (view s k) (view s' k)"
    and "st_Acquire st j v c s = (r, s') \<Longrightarrow> inv s' \<and> ticks (view s k) (view s' k)"
    and "Owner l \<noteq> [] \<Longrightarrow> st_Heartbeat st l s = (r, s') \<Longrightarrow> inv s' \<and> ticks (view s k) (view s' k)"
    and "Owner l \<noteq> [] \<Longrightarrow> st_Checkpoint st l seq s = (r, s') \<Longrightarrow> inv s' \<and> ticks (view s k) (view s' k)"
    and "Owner l \<noteq> [] \<Longrightarrow> st_Release st l s = (e, s') \<Longrightarrow> inv s' \<and> ticks (view s k) (view s' k)"
    and "j \<noteq> k \<Longrightarrow> st_Delete st j c s = (e, s') \<Longrightarrow> inv s' \<and> ticks (view s k) (view s' k)"
proof -
  show "st_List st s = Some (x, s') \<Longrightarrow> inv s' \<and> ticks (view s k) (view s' k)"
    using list_law [OF assms] by fastforce
  show "st_Ensure st j ps s = (e, s') \<Longrightarrow> inv s' \<and> ticks (view s k) (view s' k)"
    using ensure_law [OF assms, of j ps e s']
    by (auto simp: ensure_result_def ticks_def Let_def split: option.splits if_splits)
  show "st_Acquire st j v c s = (r, s') \<Longrightarrow> inv s' \<and> ticks (view s k) (view s' k)"
    using acquire_law [OF assms, of v j c r s'] acquire_empty [OF assms, of j c] assms
    by (cases "v = []") (auto intro: ticks_write)
  show "Owner l \<noteq> [] \<Longrightarrow> st_Heartbeat st l s = (r, s') \<Longrightarrow> inv s' \<and> ticks (view s k) (view s' k)"
    using heartbeat_law [OF assms, of l r s'] by (auto simp: holds_token_def intro: ticks_write)
  show "Owner l \<noteq> [] \<Longrightarrow> st_Checkpoint st l seq s = (r, s') \<Longrightarrow> inv s' \<and> ticks (view s k) (view s' k)"
    using checkpoint_law [OF assms, of l seq r s'] by (auto simp: holds_token_def intro: ticks_write)
  show "Owner l \<noteq> [] \<Longrightarrow> st_Release st l s = (e, s') \<Longrightarrow> inv s' \<and> ticks (view s k) (view s' k)"
    using release_law [OF assms, of l e s']
      ticks_committed [of "view s" "ShardID l" "holds_token l" "\<lambda>x. x\<lparr>Owner := [], Counter := Counter l + 1\<rparr>" "view s'" k]
      ticks_refused [of "view s" "ShardID l" "holds_token l" "\<lambda>x. x\<lparr>Owner := [], Counter := Counter l + 1\<rparr>" _ "view s'" k]
    by (auto simp: holds_token_def comp_def split: option.splits)
  show "j \<noteq> k \<Longrightarrow> st_Delete st j c s = (e, s') \<Longrightarrow> inv s' \<and> ticks (view s k) (view s' k)"
    using delete_law [OF assms, of j c e s']
    by (auto simp: delete_result_def committed_def refused_def Let_def split: option.splits lease_error.splits)
qed

lemma counter_advances:
  assumes "inv s0" "view s0 k = Some r0"
  shows "store_ops st k s0 n s \<Longrightarrow>
    inv s \<and> (\<exists>r m. m \<le> n \<and> view s k = Some r \<and> Counter r = Counter r0 + of_nat m)"
proof (induction rule: store_ops.induct)
  case ops_start
  then show ?case using assms by auto
next
  have step: "inv s' \<and> (\<exists>r m. m \<le> Suc n \<and> view s' k = Some r \<and> Counter r = Counter r0 + of_nat m)"
    if "\<exists>r m. m \<le> n \<and> view s k = Some r \<and> Counter r = Counter r0 + of_nat m" "inv s' \<and> ticks (view s k) (view s' k)" for n s s'
  proof -
    from that obtain r m r' where "m \<le> n" "view s k = Some r" "Counter r = Counter r0 + of_nat m" "view s' k = Some r'"
      "Counter r' = Counter r \<or> Counter r' = Counter r + 1" by (auto simp: ticks_def)
    then have "\<exists>m'\<le>Suc n. Counter r' = Counter r0 + of_nat m'"
      by (elim disjE) (auto intro: exI [of _ m] exI [of _ "Suc m"] simp: add.commute add.left_commute)
    with \<open>view s' k = Some r'\<close> that(2) show ?thesis by blast
  qed
  {
    case (ops_list n s x s')
    then show ?case using step ops_tick(1) by blast
  next
    case (ops_ensure n s j ps e s')
    then show ?case using step ops_tick(2) by blast
  next
    case (ops_acquire n s j v c r s')
    then show ?case using step ops_tick(3) by blast
  next
    case (ops_heartbeat n s l r s')
    then show ?case using step ops_tick(4) by blast
  next
    case (ops_checkpoint n s l seq r s')
    then show ?case using step ops_tick(5) by blast
  next
    case (ops_release n s l e s')
    then show ?case using step ops_tick(6) by blast
  next
    case (ops_delete n s j c e s')
    then show ?case using step ops_tick(7) by blast
  }
qed

lemma never_current_again:
  assumes "inv s" "w \<noteq> []" "st_Acquire st k w c s = (Inr l, s1)" "store_ops st k s1 n s2" "n < 2 ^ 64 - 1"
    and "ShardID old = k" "Counter old = c"
  shows "inv s2 \<and> \<not> current (view s2) old"
proof -
  note won = acquire_success [OF assms(1-3)]
  have "inv s1" using acquire_law [OF assms(1-3)] by blast
  from counter_advances [OF this won(4) assms(4)] won(5) obtain r m where
    r: "inv s2" "m \<le> n" "view s2 k = Some r" "Counter r = c + (1 + of_nat m)" by (auto simp: add.assoc)
  have "(1 + of_nat m :: int64) = of_nat (Suc m)" by simp
  moreover have "(of_nat (Suc m) :: int64) \<noteq> 0"
    using r(2) assms(5) by (simp only: of_nat_eq_0_iff word_of_nat_eq_0_iff) (auto dest!: dvd_imp_le)
  ultimately have "Counter r \<noteq> c" using r(4) by simp
  with r(1,3) assms(6,7) show ?thesis by (auto simp: current_def)
qed

end



end
