(* ===== verification/Taker.thy ===== *)
theory Taker
  imports Lease
begin

section \<open>The fair-share plan (lease taker)\<close>

text \<open>
  \<^verbatim>\<open>internal/lease/taker.go\<close>.  \<open>Plan\<close> and its helpers are the Go functions; a Go
  \<^verbatim>\<open>map[string]bool\<close> is a predicate, since a missing key reads as false, and Go's \<^verbatim>\<open>int\<close>
  is \<open>int\<close>, as lengths of slices bound every value.  The lemmas say what a pass may
  do: how much it takes or gives up, which shards it may touch, whom it may steal from, and
  when it does nothing.
\<close>

record plan_input =
  pi_Leases :: "lease list"
  pi_Self :: string
  pi_Fresh :: "string \<Rightarrow> bool"
  pi_Drained :: "string \<Rightarrow> bool"
  pi_Owned :: "string \<Rightarrow> bool"

record plan_result =
  pr_Acquire :: "string list"
  pr_Release :: "string list"
  pr_Steal :: string

definition activeShards :: "lease list \<Rightarrow> lease list" where
  "activeShards leases = filter (\<lambda>l. Checkpoint l \<noteq> CheckpointShardEnd) leases"

definition activeWorkers :: "lease list \<Rightarrow> (string \<Rightarrow> bool) \<Rightarrow> string \<Rightarrow> int" where
  "activeWorkers active fresh self =
     int (card (fold (\<lambda>l owners. if Owner l \<noteq> '''' \<and> fresh (ShardID l)
                                 then insert (Owner l) owners else owners) active {self}))"

definition fairShareTarget :: "int \<Rightarrow> int \<Rightarrow> int" where
  "fairShareTarget shards workers =
     (if shards = 0 then 0
      else (let workers = (if workers < 1 then 1 else workers)
            in go_div (shards + workers - 1) workers))"

definition ownedActive :: "lease list \<Rightarrow> (string \<Rightarrow> bool) \<Rightarrow> string list" where
  "ownedActive active owned = map ShardID (filter (\<lambda>l. owned (ShardID l)) active)"

text \<open>
  The counts of \<^verbatim>\<open>pickStealTarget\<close> are an association list in first-seen order; the code
  sorts the owners before it looks at them, so the order of the Go map does not matter.
\<close>

fun bump_count :: "string \<Rightarrow> (string \<times> int) list \<Rightarrow> (string \<times> int) list" where
  "bump_count o' [] = [(o', 1)]"
| "bump_count o' ((p, n) # cs) = (if p = o' then (p, n + 1) # cs else (p, n) # bump_count o' cs)"

definition count_of :: "(string \<times> int) list \<Rightarrow> string \<Rightarrow> int" where
  "count_of cs p = (case map_of cs p of None \<Rightarrow> 0 | Some n \<Rightarrow> n)"

definition peer_counts :: "lease list \<Rightarrow> plan_input \<Rightarrow> (string \<times> int) list" where
  "peer_counts active inp =
     fold (\<lambda>l cs. if Owner l \<noteq> '''' \<and> Owner l \<noteq> pi_Self inp \<and> pi_Fresh inp (ShardID l)
                  then bump_count (Owner l) cs else cs) active []"

fun best_owner :: "(string \<times> int) list \<Rightarrow> string list \<Rightarrow> string \<Rightarrow> int \<Rightarrow> string \<times> int" where
  "best_owner counts [] bestOwner bestCount = (bestOwner, bestCount)"
| "best_owner counts (p # ps) bestOwner bestCount =
     (if count_of counts p > bestCount then best_owner counts ps p (count_of counts p)
      else best_owner counts ps bestOwner bestCount)"

definition pickStealTarget :: "lease list \<Rightarrow> plan_input \<Rightarrow> int \<Rightarrow> string" where
  "pickStealTarget active inp target =
     (let counts = peer_counts active inp;
          owners = sort (map fst counts);
          bestOwner = fst (best_owner counts owners '''' target)
      in if bestOwner = '''' then ''''
         else (let candidates = map ShardID (filter (\<lambda>l. Owner l = bestOwner
                     \<and> pi_Fresh inp (ShardID l) \<and> pi_Drained inp (ShardID l)) active)
               in if length candidates = 0 then '''' else sort candidates ! 0))"

definition acquirable :: "plan_input \<Rightarrow> lease \<Rightarrow> bool" where
  "acquirable inp l \<longleftrightarrow>
     \<not> (pi_Owned inp (ShardID l) \<or> \<not> pi_Drained inp (ShardID l)) \<and>
     (Owner l = '''' \<or> Owner l = pi_Self inp \<or> \<not> pi_Fresh inp (ShardID l))"

fun acquire_loop :: "plan_input \<Rightarrow> int \<Rightarrow> string list \<Rightarrow> lease list \<Rightarrow> string list" where
  "acquire_loop inp want acquire [] = acquire"
| "acquire_loop inp want acquire (l # ls) =
     (if int (length acquire) \<ge> want then acquire
      else if acquirable inp l then acquire_loop inp want (acquire @ [ShardID l]) ls
      else acquire_loop inp want acquire ls)"

definition plan_target :: "plan_input \<Rightarrow> int" where
  "plan_target inp =
     (let active = activeShards (pi_Leases inp)
      in fairShareTarget (int (length active)) (activeWorkers active (pi_Fresh inp) (pi_Self inp)))"

definition my_shards :: "plan_input \<Rightarrow> string list" where
  "my_shards inp = sort (ownedActive (activeShards (pi_Leases inp)) (pi_Owned inp))"

definition Plan :: "plan_input \<Rightarrow> plan_result" where
  "Plan inp =
     (let active = activeShards (pi_Leases inp);
          target = plan_target inp;
          myShards = my_shards inp
      in if int (length myShards) > target
         then \<lparr>pr_Acquire = [], pr_Release = drop (nat target) myShards, pr_Steal = ''''\<rparr>
         else (let want = target - int (length myShards)
               in if want \<le> 0 then \<lparr>pr_Acquire = [], pr_Release = [], pr_Steal = ''''\<rparr>
                  else (let acquire = sort (acquire_loop inp want [] active)
                        in if int (length acquire) \<ge> want
                           then \<lparr>pr_Acquire = acquire, pr_Release = [], pr_Steal = ''''\<rparr>
                           else \<lparr>pr_Acquire = acquire, pr_Release = [],
                                 pr_Steal = pickStealTarget active inp target\<rparr>)))"

subsection \<open>The fair share is the ceiling of shards over workers\<close>

lemma ceil_div_bounds:
  fixes a b :: int
  assumes "0 < a" "0 < b"
  shows "a \<le> ((a + b - 1) div b) * b" and "((a + b - 1) div b - 1) * b < a"
    and "0 < (a + b - 1) div b"
proof -
  let ?q = "(a + b - 1) div b"
  have m: "?q * b = a + b - 1 - (a + b - 1) mod b"
    by (simp add: minus_mod_eq_div_mult)
  have r: "0 \<le> (a + b - 1) mod b" "(a + b - 1) mod b < b" using assms(2) by simp_all
  show "a \<le> ?q * b" using m r by linarith
  show "(?q - 1) * b < a" using m r by (simp add: left_diff_distrib)
  show "0 < ?q" using assms by (simp add: pos_imp_zdiv_pos_iff)
qed

lemma fairShareTarget_nonneg: "0 \<le> shards \<Longrightarrow> 0 \<le> fairShareTarget shards workers"
  by (simp add: fairShareTarget_def Let_def go_div_nonneg pos_imp_zdiv_nonneg_iff)

lemma plan_target_nonneg: "0 \<le> plan_target inp"
  by (simp add: plan_target_def Let_def fairShareTarget_nonneg)

text \<open>
  The target of a worker is the ceiling of active shards over active workers: w workers
  at the target cover all shards, w workers one below it do not.
\<close>

theorem fair_share_is_ceiling:
  assumes "0 < shards" "0 < workers"
  shows "shards \<le> fairShareTarget shards workers * workers \<and>
    (fairShareTarget shards workers - 1) * workers < shards \<and> 0 < fairShareTarget shards workers"
  using ceil_div_bounds [OF assms] assms by (simp add: fairShareTarget_def Let_def go_div_nonneg)

theorem fair_share_is_ceiling_witness:
  "(7::int) \<le> fairShareTarget 7 3 * 3 \<and> (fairShareTarget 7 3 - 1) * 3 < 7 \<and> 0 < fairShareTarget 7 3"
  by (rule fair_share_is_ceiling) simp_all

subsection \<open>Owners and counts\<close>

definition fresh_holdings :: "plan_input \<Rightarrow> string \<Rightarrow> int" where
  "fresh_holdings inp p =
     int (length (filter (\<lambda>l. Owner l = p \<and> pi_Fresh inp (ShardID l)) (activeShards (pi_Leases inp))))"

lemma count_of_bump: "count_of (bump_count p cs) q = count_of cs q + (if q = p then 1 else 0)"
  by (induction cs) (auto simp: count_of_def)

lemma keys_bump: "fst ` set (bump_count p cs) = insert p (fst ` set cs)"
  by (induction p cs rule: bump_count.induct) (simp_all add: insert_commute)

lemma distinct_bump: "distinct (map fst cs) \<Longrightarrow> distinct (map fst (bump_count p cs))"
proof (induction cs)
  case (Cons c cs)
  then show ?case
    using keys_bump [of p cs] by (cases c) auto
qed simp

abbreviation counted :: "plan_input \<Rightarrow> lease \<Rightarrow> bool" where
  "counted inp l \<equiv> Owner l \<noteq> '''' \<and> Owner l \<noteq> pi_Self inp \<and> pi_Fresh inp (ShardID l)"

lemma fold_counts:
  "count_of (fold (\<lambda>l cs. if counted inp l then bump_count (Owner l) cs else cs) ls cs) q =
     count_of cs q + int (length (filter (\<lambda>l. counted inp l \<and> Owner l = q) ls)) \<and>
   fst ` set (fold (\<lambda>l cs. if counted inp l then bump_count (Owner l) cs else cs) ls cs) =
     fst ` set cs \<union> Owner ` {l \<in> set ls. counted inp l}"
proof (induction ls arbitrary: cs)
  case (Cons l ls)
  show ?case
    using Cons [of "bump_count (Owner l) cs"] Cons [of cs]
    by (auto simp: count_of_bump keys_bump)
qed simp

lemma peer_count:
  "count_of (peer_counts active inp) p =
     (if p = '''' \<or> p = pi_Self inp then 0
      else int (length (filter (\<lambda>l. Owner l = p \<and> pi_Fresh inp (ShardID l)) active)))"
proof -
  have "filter (\<lambda>l. counted inp l \<and> Owner l = p) active =
      (if p = '''' \<or> p = pi_Self inp then []
       else filter (\<lambda>l. Owner l = p \<and> pi_Fresh inp (ShardID l)) active)"
    by (auto intro: filter_cong simp: filter_empty_conv)
  then show ?thesis
    using fold_counts [of inp active "[]" p] by (simp add: peer_counts_def count_of_def)
qed

lemma peer_holdings:
  "p \<noteq> '''' \<Longrightarrow> p \<noteq> pi_Self inp \<Longrightarrow>
     count_of (peer_counts (activeShards (pi_Leases inp)) inp) p = fresh_holdings inp p"
  by (simp add: peer_count fresh_holdings_def)

lemma peer_keys:
  "set (map fst (peer_counts active inp)) = Owner ` {l \<in> set active. counted inp l}"
  using fold_counts [of inp active "[]"] by (simp add: peer_counts_def)

lemma best_owner_spec:
  assumes "best_owner counts ps o0 c0 = (p, c)"
  shows "(p = o0 \<and> c = c0 \<and> (\<forall>q\<in>set ps. count_of counts q \<le> c0)) \<or>
    (p \<in> set ps \<and> c = count_of counts p \<and> c0 < c \<and> (\<forall>q\<in>set ps. count_of counts q \<le> c))"
  using assms
proof (induction counts ps o0 c0 rule: best_owner.induct)
  case (2 counts q ps o0 c0)
  then show ?case
    by (cases "count_of counts q > c0") fastforce+
qed simp

text \<open>The owner picked is the most loaded peer above the target, and there is one if any is.\<close>

lemma picked_owner:
  assumes "best_owner (peer_counts active inp) (sort (map fst (peer_counts active inp))) '''' t = (p, c)"
    and "0 \<le> t"
  shows "(p = '''' \<and> (\<forall>q. count_of (peer_counts active inp) q \<le> t)) \<or>
    (p \<noteq> '''' \<and> p \<noteq> pi_Self inp \<and> t < count_of (peer_counts active inp) p \<and>
     (\<forall>q. count_of (peer_counts active inp) q \<le> count_of (peer_counts active inp) p))"
proof -
  let ?cs = "peer_counts active inp"
  have absent: "count_of ?cs q = 0" if "q \<notin> set (map fst ?cs)" for q
  proof -
    have "map_of ?cs q = None" using that by (simp add: map_of_eq_None_iff)
    then show ?thesis by (simp add: count_of_def)
  qed
  have keys: "set (sort (map fst ?cs)) = set (map fst ?cs)" by simp
  have "q \<in> set (map fst ?cs) \<Longrightarrow> q \<noteq> '''' \<and> q \<noteq> pi_Self inp" for q
    unfolding peer_keys by auto
  with best_owner_spec [OF assms(1), unfolded keys] absent assms(2) show ?thesis
    by (smt (verit))
qed

lemma steal_spec:
  assumes "pickStealTarget active inp t = sid" "sid \<noteq> ''''" "0 \<le> t"
  obtains l p where "l \<in> set active" "ShardID l = sid" "Owner l = p" "p \<noteq> ''''" "p \<noteq> pi_Self inp"
    "pi_Fresh inp sid" "pi_Drained inp sid" "t < count_of (peer_counts active inp) p"
    "\<forall>q. count_of (peer_counts active inp) q \<le> count_of (peer_counts active inp) p"
proof -
  let ?cs = "peer_counts active inp"
  obtain p c where best: "best_owner ?cs (sort (map fst ?cs)) '''' t = (p, c)" by fastforce
  let ?cand = "map ShardID (filter (\<lambda>l. Owner l = p \<and> pi_Fresh inp (ShardID l)
      \<and> pi_Drained inp (ShardID l)) active)"
  have p: "p \<noteq> ''''" and ne: "?cand \<noteq> []" and s: "sid = sort ?cand ! 0"
    using assms(1,2) best by (auto simp: pickStealTarget_def Let_def split: if_splits)
  have "sort ?cand ! 0 \<in> set (sort ?cand)"
    using ne by (intro nth_mem) (simp add: filter_empty_conv)
  with s have "sid \<in> set ?cand" by simp
  then obtain l where "l \<in> set active" "ShardID l = sid" "Owner l = p" "pi_Fresh inp sid"
    "pi_Drained inp sid" by auto
  moreover have "p \<noteq> pi_Self inp" "t < count_of ?cs p" "\<forall>q. count_of ?cs q \<le> count_of ?cs p"
    using picked_owner [OF best assms(3)] p by auto
  ultimately show thesis using p that by blast
qed

lemma no_steal_spec:
  assumes "pickStealTarget active inp t = ''''" "0 \<le> t" "\<forall>l\<in>set active. ShardID l \<noteq> ''''"
    and "\<forall>l\<in>set active. counted inp l \<longrightarrow> pi_Drained inp (ShardID l)"
  shows "count_of (peer_counts active inp) q \<le> t"
proof -
  let ?cs = "peer_counts active inp"
  obtain p c where best: "best_owner ?cs (sort (map fst ?cs)) '''' t = (p, c)" by fastforce
  let ?cand = "map ShardID (filter (\<lambda>l. Owner l = p \<and> pi_Fresh inp (ShardID l)
      \<and> pi_Drained inp (ShardID l)) active)"
  have "p = ''''"
  proof (rule ccontr)
    assume p: "p \<noteq> ''''"
    then have self: "p \<noteq> pi_Self inp" and "0 < count_of ?cs p"
      using picked_owner [OF best assms(2)] assms(2) by auto
    then have "filter (\<lambda>l. Owner l = p \<and> pi_Fresh inp (ShardID l)) active \<noteq> []"
      using p by (auto simp: peer_count)
    then obtain l where l: "l \<in> set active" "Owner l = p" "pi_Fresh inp (ShardID l)"
      by (auto simp: filter_empty_conv)
    then have "ShardID l \<in> set ?cand" using p self assms(4) by auto
    then have "0 < length ?cand" by (rule length_pos_if_in_set)
    then have ne: "?cand \<noteq> []" by fastforce
    then have "sort ?cand ! 0 \<in> set (sort ?cand)"
      by (intro nth_mem) (simp add: filter_empty_conv)
    then have "sort ?cand ! 0 \<noteq> ''''" using assms(3) by auto
    then show False
      using assms(1) best p ne by (simp add: pickStealTarget_def Let_def)
  qed
  then show ?thesis using picked_owner [OF best assms(2)] by auto
qed

subsection \<open>The acquire loop\<close>

lemma acquire_loop_acc:
  "\<exists>more. acquire_loop inp want acc ls = acc @ more \<and>
     (\<forall>s\<in>set more. \<exists>l\<in>set ls. ShardID l = s \<and> acquirable inp l) \<and>
     (int (length acc) \<le> want \<longrightarrow> int (length acc + length more) \<le> want) \<and>
     (int (length acc + length more) < want \<longrightarrow>
        (\<forall>l\<in>set ls. acquirable inp l \<longrightarrow> ShardID l \<in> set more))"
proof (induction inp want acc ls rule: acquire_loop.induct)
  case (1 inp want acc)
  then show ?case by simp
next
  case (2 inp want acc l ls)
  show ?case
  proof (cases "int (length acc) \<ge> want")
    case True
    then show ?thesis by (intro exI [of _ "[]"]) simp
  next
    case False
    show ?thesis
    proof (cases "acquirable inp l")
      case True
      with 2(1) False obtain more where
        "acquire_loop inp want (acc @ [ShardID l]) ls = acc @ ShardID l # more"
        "\<forall>s\<in>set more. \<exists>l\<in>set ls. ShardID l = s \<and> acquirable inp l"
        "int (length acc + 1 + length more) \<le> want"
        "int (length acc + 1 + length more) < want \<longrightarrow>
          (\<forall>l\<in>set ls. acquirable inp l \<longrightarrow> ShardID l \<in> set more)"
        by auto
      with True False show ?thesis
        by (intro exI [of _ "ShardID l # more"]) auto
    next
      case notacq: False
      with 2(2) False show ?thesis by auto
    qed
  qed
qed

subsection \<open>What a pass does\<close>

lemma sort_Nil_iff [simp]: "sort xs = [] \<longleftrightarrow> xs = []"
  by (metis length_0_conv length_sort)

lemma want_le:
  "\<not> int (length ms) > t \<Longrightarrow> t - int (length ms) \<le> 0 \<longleftrightarrow> int (length ms) = t"
  by linarith

lemma length_my_shards:
  "length (my_shards inp) =
     length (filter (\<lambda>l. pi_Owned inp (ShardID l)) (activeShards (pi_Leases inp)))"
  by (simp add: my_shards_def ownedActive_def)

lemma Plan_cases:
  obtains (over) "int (length (my_shards inp)) > plan_target inp"
      "Plan inp = \<lparr>pr_Acquire = [], pr_Release = drop (nat (plan_target inp)) (my_shards inp),
                   pr_Steal = ''''\<rparr>"
  | (at) "int (length (my_shards inp)) = plan_target inp"
      "Plan inp = \<lparr>pr_Acquire = [], pr_Release = [], pr_Steal = ''''\<rparr>"
  | (full) "int (length (my_shards inp)) < plan_target inp"
      "int (length (acquire_loop inp (plan_target inp - int (length (my_shards inp))) []
              (activeShards (pi_Leases inp)))) = plan_target inp - int (length (my_shards inp))"
      "Plan inp = \<lparr>pr_Acquire = sort (acquire_loop inp (plan_target inp - int (length (my_shards inp)))
                      [] (activeShards (pi_Leases inp))), pr_Release = [], pr_Steal = ''''\<rparr>"
  | (short) "int (length (my_shards inp)) < plan_target inp"
      "int (length (acquire_loop inp (plan_target inp - int (length (my_shards inp))) []
              (activeShards (pi_Leases inp)))) < plan_target inp - int (length (my_shards inp))"
      "Plan inp = \<lparr>pr_Acquire = sort (acquire_loop inp (plan_target inp - int (length (my_shards inp)))
                      [] (activeShards (pi_Leases inp))), pr_Release = [],
                   pr_Steal = pickStealTarget (activeShards (pi_Leases inp)) inp (plan_target inp)\<rparr>"
proof -
  let ?t = "plan_target inp" and ?m = "int (length (my_shards inp))"
  let ?acq = "acquire_loop inp (?t - ?m) [] (activeShards (pi_Leases inp))"
  consider "?m > ?t" | "?m = ?t" | "?m < ?t" by linarith
  then show thesis
  proof cases
    case 1
    then show thesis by (intro over) (simp_all add: Plan_def Let_def)
  next
    case 2
    then show thesis by (intro at) (simp_all add: Plan_def Let_def)
  next
    case 3
    have "int (length ?acq) \<le> ?t - ?m"
      using acquire_loop_acc [of inp "?t - ?m" "[]" "activeShards (pi_Leases inp)"] 3 by auto
    with 3 show thesis
      by (cases "int (length ?acq) = ?t - ?m") (auto simp: Plan_def Let_def intro: full short)
  qed
qed

lemmas acquire_loop_spec = acquire_loop_acc [where acc = "[]", simplified]

text \<open>
  C23.  One pass never takes a worker past its fair share: what it owns, less what it
  releases, plus what it acquires and the one shard it steals, is at most the target; a pass
  that releases neither acquires nor steals and ends exactly on the target.
\<close>

theorem plan_within_target:
  "int (length (my_shards inp)) - int (length (pr_Release (Plan inp)))
     + int (length (pr_Acquire (Plan inp))) + (if pr_Steal (Plan inp) = '''' then 0 else 1)
   \<le> plan_target inp \<and>
   (pr_Release (Plan inp) \<noteq> [] \<longrightarrow> pr_Acquire (Plan inp) = [] \<and> pr_Steal (Plan inp) = '''' \<and>
      int (length (my_shards inp)) - int (length (pr_Release (Plan inp))) = plan_target inp)"
  using plan_target_nonneg [of inp]
  by (cases rule: Plan_cases [of inp]) (auto simp: of_nat_diff)

text \<open>A snapshot for the witnesses: worker a holds three of four shards, worker b one.\<close>

definition sample_plan :: "string \<Rightarrow> plan_input" where
  "sample_plan self =
     \<lparr>pi_Leases = [\<lparr>ShardID = ''s3'', Owner = ''a'', Counter = 1, Checkpoint = ''9'', ParentIDs = []\<rparr>,
        \<lparr>ShardID = ''s1'', Owner = ''a'', Counter = 1, Checkpoint = ''9'', ParentIDs = []\<rparr>,
        \<lparr>ShardID = ''s2'', Owner = ''a'', Counter = 1, Checkpoint = ''9'', ParentIDs = []\<rparr>,
        \<lparr>ShardID = ''s4'', Owner = ''b'', Counter = 1, Checkpoint = ''9'', ParentIDs = []\<rparr>],
      pi_Self = self, pi_Fresh = (\<lambda>_. True), pi_Drained = (\<lambda>_. True),
      pi_Owned = (\<lambda>s. if self = ''a'' then s \<noteq> ''s4'' else s = ''s4'')\<rparr>"

theorem plan_within_target_witness:
  "pr_Release (Plan (sample_plan ''a'')) = [''s3''] \<and> plan_target (sample_plan ''a'') = 2 \<and>
   int (length (my_shards (sample_plan ''a''))) = 3"
proof -
  have r: "pr_Release (Plan (sample_plan ''a'')) = [''s3'']" by code_simp
  have t: "plan_target (sample_plan ''a'') = 2" by code_simp
  show ?thesis using plan_within_target [of "sample_plan ''a''"] r t by simp
qed

text \<open>
  C24.  A pass only asks for shards it may take: each acquired shard is an active lease that this
  worker does not poll, with its parents drained, and is unowned, its own, or not
  heartbeated; a stolen shard is an active, drained shard of a fresh peer that holds strictly
  more than the target and no less than any other peer, and is asked for only when every
  acquirable shard is already in the plan.
\<close>

theorem plan_takes_only_available:
  assumes "sid = pr_Steal (Plan inp)"
  shows "(\<forall>s\<in>set (pr_Acquire (Plan inp)). \<exists>l\<in>set (pi_Leases inp).
        ShardID l = s \<and> Checkpoint l \<noteq> CheckpointShardEnd \<and> \<not> pi_Owned inp s \<and> pi_Drained inp s \<and>
        (Owner l = '''' \<or> Owner l = pi_Self inp \<or> \<not> pi_Fresh inp s)) \<and>
    (sid \<noteq> '''' \<longrightarrow>
      (\<exists>l\<in>set (pi_Leases inp). ShardID l = sid \<and> Checkpoint l \<noteq> CheckpointShardEnd \<and>
        pi_Drained inp sid \<and> pi_Fresh inp sid \<and> Owner l \<noteq> '''' \<and> Owner l \<noteq> pi_Self inp \<and>
        plan_target inp < fresh_holdings inp (Owner l) \<and>
        (\<forall>q. q \<noteq> '''' \<and> q \<noteq> pi_Self inp \<longrightarrow> fresh_holdings inp q \<le> fresh_holdings inp (Owner l))) \<and>
      (\<forall>l\<in>set (pi_Leases inp). Checkpoint l \<noteq> CheckpointShardEnd \<and> acquirable inp l \<longrightarrow>
        ShardID l \<in> set (pr_Acquire (Plan inp))))"
proof (cases rule: Plan_cases [of inp])
  case over
  then show ?thesis using assms by simp
next
  case at
  then show ?thesis using assms by simp
next
  case full
  then show ?thesis
    using assms acquire_loop_spec [of inp "plan_target inp - int (length (my_shards inp))"
        "activeShards (pi_Leases inp)"]
    by (fastforce simp: activeShards_def acquirable_def)
next
  case short
  let ?act = "activeShards (pi_Leases inp)"
  note loop = acquire_loop_spec [of inp "plan_target inp - int (length (my_shards inp))" ?act]
  have steal: "\<exists>l\<in>set (pi_Leases inp). ShardID l = sid \<and> Checkpoint l \<noteq> CheckpointShardEnd \<and>
        pi_Drained inp sid \<and> pi_Fresh inp sid \<and> Owner l \<noteq> '''' \<and> Owner l \<noteq> pi_Self inp \<and>
        plan_target inp < fresh_holdings inp (Owner l) \<and>
        (\<forall>q. q \<noteq> '''' \<and> q \<noteq> pi_Self inp \<longrightarrow> fresh_holdings inp q \<le> fresh_holdings inp (Owner l))"
    if "sid \<noteq> ''''"
  proof -
    have "pickStealTarget ?act inp (plan_target inp) = sid" using short assms by simp
    then show ?thesis
    proof (rule steal_spec [OF _ that plan_target_nonneg])
      fix l p assume *: "l \<in> set ?act" "ShardID l = sid" "Owner l = p" "p \<noteq> ''''" "p \<noteq> pi_Self inp"
        "pi_Fresh inp sid" "pi_Drained inp sid" "plan_target inp < count_of (peer_counts ?act inp) p"
        "\<forall>q. count_of (peer_counts ?act inp) q \<le> count_of (peer_counts ?act inp) p"
      have "fresh_holdings inp q \<le> fresh_holdings inp p" if "q \<noteq> ''''" "q \<noteq> pi_Self inp" for q
        using *(4,5,9) that by (metis peer_holdings)
      moreover have "plan_target inp < fresh_holdings inp p"
        using *(8) peer_holdings [OF *(4,5)] by simp
      ultimately show ?thesis
        using *(1-7) by (intro bexI [of _ l]) (auto simp: activeShards_def)
    qed
  qed
  have acq: "set (pr_Acquire (Plan inp)) =
      set (acquire_loop inp (plan_target inp - int (length (my_shards inp))) [] ?act)"
    using short(3) by simp
  have "\<forall>s\<in>set (pr_Acquire (Plan inp)). \<exists>l\<in>set ?act. ShardID l = s \<and> acquirable inp l"
    using loop unfolding acq by blast
  then have taken: "\<forall>s\<in>set (pr_Acquire (Plan inp)). \<exists>l\<in>set (pi_Leases inp).
        ShardID l = s \<and> Checkpoint l \<noteq> CheckpointShardEnd \<and> \<not> pi_Owned inp s \<and> pi_Drained inp s \<and>
        (Owner l = '''' \<or> Owner l = pi_Self inp \<or> \<not> pi_Fresh inp s)"
    by (fastforce simp: activeShards_def acquirable_def)
  have "\<forall>l\<in>set ?act. acquirable inp l \<longrightarrow> ShardID l \<in> set (pr_Acquire (Plan inp))"
    using loop short(2) unfolding acq by blast
  then have "\<forall>l\<in>set (pi_Leases inp). Checkpoint l \<noteq> CheckpointShardEnd \<and> acquirable inp l \<longrightarrow>
        ShardID l \<in> set (pr_Acquire (Plan inp))"
    by (simp add: activeShards_def)
  with steal taken show ?thesis by blast
qed

theorem plan_takes_only_available_witness:
  "pr_Steal (Plan (sample_plan ''b'')) = ''s1'' \<and>
   (\<exists>l\<in>set (pi_Leases (sample_plan ''b'')). ShardID l = ''s1'' \<and>
      plan_target (sample_plan ''b'') < fresh_holdings (sample_plan ''b'') (Owner l))"
proof -
  have s: "pr_Steal (Plan (sample_plan ''b'')) = ''s1''" by code_simp
  show ?thesis
    using plan_takes_only_available [of "''s1''" "sample_plan ''b''"] s by fastforce
qed

subsection \<open>The order of the snapshot\<close>

lemma sort_perm: "mset xs = mset ys \<Longrightarrow> sort xs = sort (ys :: 'a :: linorder list)"
  by (metis mset_sort properties_for_sort sorted_sort)

lemma fold_insert_owners:
  "fold (\<lambda>l owners. if P l then insert (f l) owners else owners) ls A = A \<union> f ` {l \<in> set ls. P l}"
  by (induction ls arbitrary: A) auto

lemma activeWorkers_eq:
  "activeWorkers active fresh self =
     int (card (insert self (Owner ` {l \<in> set active. Owner l \<noteq> '''' \<and> fresh (ShardID l)})))"
  by (simp add: activeWorkers_def fold_insert_owners)

lemma activeWorkers_pos: "0 < activeWorkers active fresh self"
  by (simp add: activeWorkers_eq card_gt_0_iff)

lemma length_acquire_loop:
  "int (length acc) \<le> want \<Longrightarrow>
     length (acquire_loop inp want acc ls) = min (nat want) (length acc + length (filter (acquirable inp) ls))"
  by (induction inp want acc ls rule: acquire_loop.induct) auto

lemma distinct_peer_keys: "distinct (map fst (peer_counts active inp))"
proof -
  have "distinct (map fst cs) \<Longrightarrow>
      distinct (map fst (fold (\<lambda>l cs. if counted inp l then bump_count (Owner l) cs else cs) ls cs))"
    for ls cs
    by (induction ls arbitrary: cs) (simp_all add: distinct_bump)
  then show ?thesis by (simp add: peer_counts_def)
qed

lemma best_owner_cong:
  "(\<And>q. count_of c1 q = count_of c2 q) \<Longrightarrow> best_owner c1 ps o0 n0 = best_owner c2 ps o0 n0"
  by (induction c1 ps o0 n0 rule: best_owner.induct) simp_all

lemma pickStealTarget_perm:
  assumes "mset a1 = mset a2"
  shows "pickStealTarget a1 inp t = pickStealTarget a2 inp t"
proof -
  have f: "mset (filter P a1) = mset (filter P a2)" for P
    using assms by (metis mset_filter)
  have "count_of (peer_counts a1 inp) q = count_of (peer_counts a2 inp) q" for q
    by (simp add: peer_count mset_eq_length [OF f])
  moreover have "sort (map fst (peer_counts a1 inp)) = sort (map fst (peer_counts a2 inp))"
  proof -
    have "set (map fst (peer_counts a1 inp)) = set (map fst (peer_counts a2 inp))"
      unfolding peer_keys using assms by (metis set_mset_mset)
    then show ?thesis
      using distinct_peer_keys by (metis sorted_list_of_set_sort_remdups distinct_remdups_id)
  qed
  ultimately have best: "best_owner (peer_counts a1 inp) (sort (map fst (peer_counts a1 inp))) o0 n0
      = best_owner (peer_counts a2 inp) (sort (map fst (peer_counts a2 inp))) o0 n0" for o0 n0
    by (metis best_owner_cong)
  have m: "mset (map ShardID (filter P a1)) = mset (map ShardID (filter P a2))" for P
    using f by (metis mset_map)
  show ?thesis
    unfolding pickStealTarget_def Let_def best sort_perm [OF m] mset_eq_length [OF m] ..
qed

text \<open>
  C25.  The plan does not depend on the order in which the store lists the leases, except for
  which of several free shards are acquired: the shards released, the shard stolen and the
  number acquired are the same for every listing of one snapshot.
\<close>

theorem plan_order_independent:
  assumes "mset ls1 = mset ls2"
  shows "pr_Release (Plan (inp\<lparr>pi_Leases := ls1\<rparr>)) = pr_Release (Plan (inp\<lparr>pi_Leases := ls2\<rparr>)) \<and>
    pr_Steal (Plan (inp\<lparr>pi_Leases := ls1\<rparr>)) = pr_Steal (Plan (inp\<lparr>pi_Leases := ls2\<rparr>)) \<and>
    length (pr_Acquire (Plan (inp\<lparr>pi_Leases := ls1\<rparr>))) = length (pr_Acquire (Plan (inp\<lparr>pi_Leases := ls2\<rparr>)))"
proof -
  let ?i1 = "inp\<lparr>pi_Leases := ls1\<rparr>" and ?i2 = "inp\<lparr>pi_Leases := ls2\<rparr>"
  have act: "mset (activeShards ls1) = mset (activeShards ls2)"
    using assms by (metis activeShards_def mset_filter)
  have target: "plan_target ?i1 = plan_target ?i2"
    using act mset_eq_length [OF act] mset_eq_setD [OF act]
    by (simp add: plan_target_def activeWorkers_eq Let_def)
  have mine: "my_shards ?i1 = my_shards ?i2"
  proof -
    have "mset (filter P (activeShards ls1)) = mset (filter P (activeShards ls2))" for P
      using act by (metis mset_filter)
    then show ?thesis
      unfolding my_shards_def ownedActive_def by (intro sort_perm) (simp add: mset_map)
  qed
  have "acquirable ?i1 = acquirable ?i2" by (simp add: acquirable_def fun_eq_iff)
  then have "length (filter (acquirable ?i1) (activeShards ls1)) =
      length (filter (acquirable ?i2) (activeShards ls2))"
    using act by (metis mset_filter size_mset)
  then have acq: "length (acquire_loop ?i1 want [] (activeShards ls1)) =
      length (acquire_loop ?i2 want [] (activeShards ls2))" if "0 \<le> want" for want
    using that by (simp add: length_acquire_loop)
  have "peer_counts a ?i1 = peer_counts a ?i2" for a by (simp add: peer_counts_def)
  then have "pickStealTarget a ?i1 t = pickStealTarget a ?i2 t" for a t
    by (simp add: pickStealTarget_def Let_def)
  then have steal: "pickStealTarget (activeShards ls1) ?i1 t = pickStealTarget (activeShards ls2) ?i2 t" for t
    using pickStealTarget_perm [OF act] by simp
  show ?thesis
    using target mine acq steal by (simp add: Plan_def Let_def)
qed

theorem plan_order_independent_witness:
  "pr_Steal (Plan ((sample_plan ''b'')\<lparr>pi_Leases := rev (pi_Leases (sample_plan ''b''))\<rparr>)) = ''s1''"
proof -
  have "pr_Steal (Plan ((sample_plan ''b'')\<lparr>pi_Leases := pi_Leases (sample_plan ''b'')\<rparr>)) = ''s1''"
    by code_simp
  then show ?thesis
    using plan_order_independent [of "rev (pi_Leases (sample_plan ''b''))"
        "pi_Leases (sample_plan ''b'')" "sample_plan ''b''"] by simp
qed

text \<open>
  A worker that does nothing sees a balanced group: if all parents are drained and the plan
  is empty, then the worker holds at most its fair share, and if it holds less, every active
  shard is polled by it or freshly held by a peer, and no peer holds more than the fair share.
\<close>

theorem plan_idle_means_balanced:
  assumes "pr_Acquire (Plan inp) = []" "pr_Release (Plan inp) = []" "pr_Steal (Plan inp) = ''''"
    and drained: "\<forall>l\<in>set (pi_Leases inp). pi_Drained inp (ShardID l) \<and> ShardID l \<noteq> ''''"
  shows "int (length (my_shards inp)) \<le> plan_target inp \<and>
    (int (length (my_shards inp)) < plan_target inp \<longrightarrow>
      (\<forall>l\<in>set (pi_Leases inp). Checkpoint l \<noteq> CheckpointShardEnd \<longrightarrow>
         pi_Owned inp (ShardID l) \<or> counted inp l) \<and>
      (\<forall>p. p \<noteq> '''' \<and> p \<noteq> pi_Self inp \<longrightarrow> fresh_holdings inp p \<le> plan_target inp))"
proof (cases rule: Plan_cases [of inp])
  case over
  then have False
    using assms(2) plan_target_nonneg [of inp] by (simp add: nat_less_iff zless_nat_eq_int_zless)
  then show ?thesis ..
next
  case at
  then show ?thesis by simp
next
  case full
  then have "acquire_loop inp (plan_target inp - int (length (my_shards inp))) []
      (activeShards (pi_Leases inp)) = []"
    using assms(1) by simp
  with full(1,2) have False by simp
  then show ?thesis ..
next
  case short
  let ?act = "activeShards (pi_Leases inp)" and ?w = "plan_target inp - int (length (my_shards inp))"
  have "acquire_loop inp ?w [] ?act = []"
    using short(3) assms(1) by simp
  then have free: "\<forall>l\<in>set ?act. \<not> acquirable inp l"
    using acquire_loop_spec [of inp ?w ?act] short(1) by auto
  have noid: "\<forall>l\<in>set ?act. ShardID l \<noteq> ''''"
    and dr: "\<forall>l\<in>set ?act. counted inp l \<longrightarrow> pi_Drained inp (ShardID l)"
    using drained by (auto simp: activeShards_def)
  have "pickStealTarget ?act inp (plan_target inp) = ''''" using short(3) assms(3) by simp
  from no_steal_spec [OF this plan_target_nonneg noid dr]
  have "\<forall>p. p \<noteq> '''' \<and> p \<noteq> pi_Self inp \<longrightarrow> fresh_holdings inp p \<le> plan_target inp"
    by (metis peer_holdings)
  with free drained short(1) show ?thesis
    by (auto simp: activeShards_def acquirable_def)
qed

theorem plan_idle_means_balanced_witness:
  "pr_Acquire (Plan ((sample_plan ''b'')\<lparr>pi_Leases := tl (pi_Leases (sample_plan ''b''))\<rparr>)) = [] \<and>
   int (length (my_shards ((sample_plan ''b'')\<lparr>pi_Leases := tl (pi_Leases (sample_plan ''b''))\<rparr>))) = 1 \<and>
   plan_target ((sample_plan ''b'')\<lparr>pi_Leases := tl (pi_Leases (sample_plan ''b''))\<rparr>) = 2 \<and>
   fresh_holdings ((sample_plan ''b'')\<lparr>pi_Leases := tl (pi_Leases (sample_plan ''b''))\<rparr>) ''a'' \<le> 2"
proof -
  let ?i = "(sample_plan ''b'')\<lparr>pi_Leases := tl (pi_Leases (sample_plan ''b''))\<rparr>"
  have a: "pr_Acquire (Plan ?i) = []" by code_simp
  have r: "pr_Release (Plan ?i) = []" by code_simp
  have s: "pr_Steal (Plan ?i) = ''''" by code_simp
  have d: "\<forall>l\<in>set (pi_Leases ?i). pi_Drained ?i (ShardID l) \<and> ShardID l \<noteq> ''''" by code_simp
  have t: "plan_target ?i = 2" by code_simp
  have m: "int (length (my_shards ?i)) = 1" by code_simp
  have self: "pi_Self ?i = ''b''" by code_simp
  from plan_idle_means_balanced [OF a r s d] show ?thesis
    unfolding t m self using a by simp
qed

end
