(* ===== verification/Pdata.thy ===== *)
theory Pdata
  imports Prelude
begin

section \<open>Attributes and their truncation (signal.go)\<close>

text \<open>
  The part of pdata the exporter touches.  A \<^verbatim>\<open>pcommon.Map\<close> is a list of key/value pairs in
  wire order, read by first match (\<^verbatim>\<open>Get\<close>) and written in place or at the end (\<^verbatim>\<open>PutStr\<close>).
  Of a value only the string kind is opened by the program; the other kinds keep enough to be
  told apart.  \<^verbatim>\<open>exporter/awskinesisexporter/signal.go\<close> is \<open>utf8SafeCut\<close> and
  \<open>clampStringAttrs\<close>; the lemmas show that a cut of valid UTF-8 is valid UTF-8 for a limit
  of at least four bytes, that it is the longest such cut, and what happens below four.
\<close>

datatype pvalue =
    ValueTypeEmpty
  | ValueTypeStr string
  | ValueTypeBool bool
  | ValueTypeInt int64
  | ValueTypeBytes string
  | ValueTypeDouble nat
  | ValueTypeMap nat
  | ValueTypeSlice nat

type_synonym attrs = "(string \<times> pvalue) list"

definition Get :: "attrs \<Rightarrow> string \<Rightarrow> pvalue option" where
  "Get m k = map_of m k"

definition PutStr :: "string \<Rightarrow> string \<Rightarrow> attrs \<Rightarrow> attrs" where
  "PutStr k v m = AList.update k (ValueTypeStr v) m"

lemma Get_PutStr: "Get (PutStr k v m) k' = (if k' = k then Some (ValueTypeStr v) else Get m k')"
  by (simp add: Get_def PutStr_def update_conv')

subsection \<open>UTF-8\<close>

text \<open>Go's \<^verbatim>\<open>utf8.RuneStart\<close> and the well-formed sequences of \<^verbatim>\<open>utf8.ValidString\<close>.\<close>

definition cont_byte :: "char \<Rightarrow> bool" where
  "cont_byte c \<longleftrightarrow> 128 \<le> (of_char c :: nat) \<and> (of_char c :: nat) < 192"

definition RuneStart :: "char \<Rightarrow> bool" where
  "RuneStart b \<longleftrightarrow> \<not> cont_byte b"

definition byte_in :: "nat \<Rightarrow> nat \<Rightarrow> char \<Rightarrow> bool" where
  "byte_in lo hi c \<longleftrightarrow> lo \<le> of_char c \<and> of_char c \<le> hi"

definition lead1 :: "char \<Rightarrow> bool" where
  "lead1 a \<longleftrightarrow> of_char a < (128 :: nat)"

definition lead2 :: "char \<Rightarrow> char \<Rightarrow> bool" where
  "lead2 a b \<longleftrightarrow> byte_in 194 223 a \<and> cont_byte b"

definition lead3 :: "char \<Rightarrow> char \<Rightarrow> bool" where
  "lead3 a b \<longleftrightarrow> byte_in 224 224 a \<and> byte_in 160 191 b \<or> byte_in 225 236 a \<and> cont_byte b \<or>
     byte_in 237 237 a \<and> byte_in 128 159 b \<or> byte_in 238 239 a \<and> cont_byte b"

definition lead4 :: "char \<Rightarrow> char \<Rightarrow> bool" where
  "lead4 a b \<longleftrightarrow> byte_in 240 240 a \<and> byte_in 144 191 b \<or> byte_in 241 243 a \<and> cont_byte b \<or>
     byte_in 244 244 a \<and> byte_in 128 143 b"

lemma lead_bytes:
  "lead1 a \<Longrightarrow> RuneStart a" "lead2 a b \<Longrightarrow> RuneStart a \<and> \<not> RuneStart b"
  "lead3 a b \<Longrightarrow> RuneStart a \<and> \<not> RuneStart b" "lead4 a b \<Longrightarrow> RuneStart a \<and> \<not> RuneStart b"
  by (auto simp: lead1_def lead2_def lead3_def lead4_def byte_in_def cont_byte_def RuneStart_def)

fun rune_len :: "string \<Rightarrow> nat" where
  "rune_len [] = 0"
| "rune_len (a # s) =
     (if lead1 a then 1
      else case s of [] \<Rightarrow> 0
      | b # t \<Rightarrow>
        (if lead2 a b then 2
         else case t of [] \<Rightarrow> 0
         | c # u \<Rightarrow>
           (if lead3 a b \<and> cont_byte c then 3
            else case u of [] \<Rightarrow> 0
            | d # _ \<Rightarrow> (if lead4 a b \<and> cont_byte c \<and> cont_byte d then 4 else 0))))"

function valid_utf8 :: "string \<Rightarrow> bool" where
  "valid_utf8 s \<longleftrightarrow>
     (if s = [] then True else if rune_len s = 0 then False else valid_utf8 (drop (rune_len s) s))"
  by pat_completeness auto
termination
  by (relation "measure length") auto

declare valid_utf8.simps [simp del]

lemma valid_utf8_Nil [simp]: "valid_utf8 []"
  by (simp add: valid_utf8.simps)

text \<open>The shapes of a leading rune, one case per length.\<close>

lemma rune_len_cases:
  assumes "rune_len s \<noteq> 0"
  obtains (one) a t where "s = a # t" "lead1 a" "rune_len s = 1"
  | (two) a b t where "s = a # b # t" "\<not> lead1 a" "lead2 a b" "rune_len s = 2"
  | (three) a b c t where "s = a # b # c # t" "\<not> lead1 a" "\<not> lead2 a b" "lead3 a b" "cont_byte c"
      "rune_len s = 3"
  | (four) a b c d t where "s = a # b # c # d # t" "\<not> lead1 a" "\<not> lead2 a b"
      "\<not> (lead3 a b \<and> cont_byte c)" "lead4 a b" "cont_byte c" "cont_byte d" "rune_len s = 4"
  using assms by (cases s) (auto split: if_splits list.splits)

lemma rune_len_shape:
  assumes "rune_len s \<noteq> 0"
  shows "rune_len s \<le> 4 \<and> rune_len s \<le> length s \<and> RuneStart (s ! 0) \<and>
     (\<forall>n. 0 < n \<and> n < rune_len s \<longrightarrow> \<not> RuneStart (s ! n))"
  using assms
proof (cases rule: rune_len_cases)
  case one
  then show ?thesis by (auto simp: lead_bytes)
next
  case (two a b t)
  then show ?thesis using lead_bytes(2) [of a b] by (auto simp: less_2_cases_iff)
next
  case (three a b c t)
  have n: "n = 1 \<or> n = 2" if "0 < n" "n < 3" for n :: nat using that by linarith
  have "\<not> RuneStart (s ! n)" if "0 < n" "n < 3" for n
    using n [OF that] three lead_bytes(3) [of a b] by (elim disjE) (simp_all add: RuneStart_def)
  with three show ?thesis using lead_bytes(3) [of a b] by simp
next
  case (four a b c d t)
  have n: "n = 1 \<or> n = 2 \<or> n = 3" if "0 < n" "n < 4" for n :: nat using that by linarith
  have "\<not> RuneStart (s ! n)" if "0 < n" "n < 4" for n
    using n [OF that] four lead_bytes(4) [of a b]
    by (elim disjE) (simp_all add: RuneStart_def numeral_3_eq_3)
  with four show ?thesis using lead_bytes(4) [of a b] by simp
qed

lemma rune_len_prefix:
  assumes "rune_len s \<noteq> 0" "rune_len s \<le> n"
  shows "rune_len (take n s) = rune_len s"
  using assms(1)
proof (cases rule: rune_len_cases)
  case one
  then show ?thesis using assms by (cases n) auto
next
  case two
  then show ?thesis using assms by (cases n; cases "n - 1") auto
next
  case three
  then show ?thesis using assms by (cases n; cases "n - 1"; cases "n - 2") auto
next
  case four
  then show ?thesis using assms by (cases n; cases "n - 1"; cases "n - 2"; cases "n - 3") auto
qed

lemma valid_step:
  assumes "valid_utf8 s" "s \<noteq> []"
  shows "rune_len s \<noteq> 0" and "valid_utf8 (drop (rune_len s) s)" and "rune_len s \<le> 4"
    and "rune_len s \<le> length s" and "RuneStart (s ! 0)"
    and "\<And>n. 0 < n \<Longrightarrow> n < rune_len s \<Longrightarrow> \<not> RuneStart (s ! n)"
  using assms rune_len_shape [of s] by (simp_all add: valid_utf8.simps [of s] split: if_splits)

text \<open>Cutting valid UTF-8 before a byte that starts a rune leaves valid UTF-8.\<close>

lemma valid_take:
  assumes "valid_utf8 s" "n < length s" "RuneStart (s ! n)"
  shows "valid_utf8 (take n s)"
  using assms
proof (induction s arbitrary: n rule: valid_utf8.induct)
  case (1 s)
  have ne: "s \<noteq> []" using 1(3) by auto
  note v = valid_step [OF 1(2) ne]
  show ?case
  proof (cases "n = 0")
    case False
    then have le: "rune_len s \<le> n" using v(6) 1(4) by (meson not_less not_gr0)
    have len: "rune_len (take n s) = rune_len s"
      using rune_len_prefix [OF v(1) le] .
    have "valid_utf8 (take (n - rune_len s) (drop (rune_len s) s))"
      using 1(3,4) ne v(1,2) le by (intro 1(1)) simp_all
    then have "valid_utf8 (drop (rune_len s) (take n s))"
      by (simp add: drop_take)
    then show ?thesis
      using len v(1) by (subst valid_utf8.simps) simp
  qed simp
qed

text \<open>Among any position and the three before it, one starts a rune.\<close>

lemma start_near:
  assumes "valid_utf8 s" "m < length s"
  shows "\<exists>n\<le>m. m \<le> n + 3 \<and> RuneStart (s ! n)"
  using assms
proof (induction s arbitrary: m rule: valid_utf8.induct)
  case (1 s)
  have ne: "s \<noteq> []" using 1(3) by auto
  note v = valid_step [OF 1(2) ne]
  show ?case
  proof (cases "m < rune_len s")
    case True
    then show ?thesis using v(3,5) by (intro exI [of _ 0]) auto
  next
    case False
    then have "m - rune_len s < length (drop (rune_len s) s)" using 1(3) v(4) by auto
    then obtain n where n: "n \<le> m - rune_len s" "m - rune_len s \<le> n + 3"
      "RuneStart (drop (rune_len s) s ! n)"
      using 1(1) [OF ne v(1) v(2)] by blast
    then show ?thesis
      using False v(4) by (intro exI [of _ "n + rune_len s"]) (auto simp: add.commute)
  qed
qed

subsection \<open>utf8SafeCut\<close>

text \<open>The loop \<^verbatim>\<open>for n := maxBytes; n > maxBytes-4 && n > 0; n--\<close>; the caller has
  \<^verbatim>\<open>len(s) > maxBytes\<close>, so the index is in range.\<close>

function cut_loop :: "string \<Rightarrow> int \<Rightarrow> int \<Rightarrow> int" where
  "cut_loop s maxBytes n =
     (if n > maxBytes - 4 \<and> n > 0
      then (if RuneStart (s ! nat n) then n else cut_loop s maxBytes (n - 1))
      else maxBytes)"
  by pat_completeness auto
termination
  by (relation "measure (\<lambda>(s, m, n). nat n)") auto

declare cut_loop.simps [simp del]

definition utf8SafeCut :: "string \<Rightarrow> int \<Rightarrow> int" where
  "utf8SafeCut s maxBytes = cut_loop s maxBytes maxBytes"

lemma cut_loop_finds:
  assumes "b \<le> n" "m - 4 < b" "0 < b" "RuneStart (s ! nat b)" "n \<le> m"
  shows "b \<le> cut_loop s m n \<and> cut_loop s m n \<le> n \<and> RuneStart (s ! nat (cut_loop s m n)) \<and>
    (\<forall>k. cut_loop s m n < k \<and> k \<le> n \<longrightarrow> \<not> RuneStart (s ! nat k))"
  using assms
proof (induction s m n rule: cut_loop.induct)
  case (1 s m n)
  show ?case
  proof (cases "RuneStart (s ! nat n)")
    case True
    then show ?thesis using 1 by (subst (1 2 3 4) cut_loop.simps) auto
  next
    case False
    with 1(2,5) have lt: "b \<le> n - 1" by (cases "b = n") auto
    have IH: "b \<le> cut_loop s m (n - 1) \<and> cut_loop s m (n - 1) \<le> n - 1 \<and>
        RuneStart (s ! nat (cut_loop s m (n - 1))) \<and>
        (\<forall>k. cut_loop s m (n - 1) < k \<and> k \<le> n - 1 \<longrightarrow> \<not> RuneStart (s ! nat k))"
      using 1(2-6) False lt by (intro 1(1)) auto
    have "cut_loop s m n = cut_loop s m (n - 1)"
      using 1(2-4) False by (subst cut_loop.simps) auto
    with IH False show ?thesis
      by simp (metis linorder_not_less order.order_iff_strict zle_diff1_eq)
  qed
qed

lemma cut_loop_range:
  "n \<le> m \<Longrightarrow> 0 \<le> m \<Longrightarrow> 0 \<le> cut_loop s m n \<and> cut_loop s m n \<le> m"
  by (induction s m n rule: cut_loop.induct) (subst (1 2) cut_loop.simps, auto)

lemma utf8SafeCut_range: "0 \<le> m \<Longrightarrow> 0 \<le> utf8SafeCut s m \<and> utf8SafeCut s m \<le> m"
  by (simp add: utf8SafeCut_def cut_loop_range)

lemma utf8SafeCut_spec:
  assumes "valid_utf8 s" "4 \<le> m" "m < int (length s)"
  shows "m - 3 \<le> utf8SafeCut s m \<and> utf8SafeCut s m \<le> m \<and>
    valid_utf8 (take (nat (utf8SafeCut s m)) s) \<and>
    (\<forall>k. utf8SafeCut s m < k \<and> k \<le> m \<longrightarrow> \<not> RuneStart (s ! nat k))"
proof -
  have "nat m < length s" using assms(2,3) by linarith
  with start_near [OF assms(1) this] obtain n where n: "n \<le> nat m" "nat m \<le> n + 3" "RuneStart (s ! n)"
    by blast
  have "int n \<le> m" "m - 4 < int n" "0 < int n" using n(1,2) assms(2) by linarith+
  with cut_loop_finds [of "int n" m m s] n(3) have
    c: "int n \<le> utf8SafeCut s m" "utf8SafeCut s m \<le> m" "RuneStart (s ! nat (utf8SafeCut s m))"
      "\<forall>k. utf8SafeCut s m < k \<and> k \<le> m \<longrightarrow> \<not> RuneStart (s ! nat k)"
    by (auto simp: utf8SafeCut_def)
  have "nat (utf8SafeCut s m) < length s" using c(1,2) assms(3) by linarith
  with valid_take [OF assms(1) this c(3)] c n(2) show ?thesis by auto
qed

text \<open>
  C35.  Truncation keeps UTF-8 valid and drops as little as it can: for a limit of four bytes
  or more and a valid string longer than the limit, the cut is at most three bytes below the
  limit, what is kept is valid UTF-8, and no longer prefix within the limit ends on a rune
  boundary.
\<close>

theorem utf8_cut_keeps_valid:
  assumes "valid_utf8 s" "4 \<le> m" "m < int (length s)"
  shows "m - 3 \<le> utf8SafeCut s m \<and> utf8SafeCut s m \<le> m \<and>
    valid_utf8 (take (nat (utf8SafeCut s m)) s) \<and>
    (\<forall>k. utf8SafeCut s m < k \<and> k \<le> m \<longrightarrow> \<not> RuneStart (s ! nat k))"
  using assms by (rule utf8SafeCut_spec)

definition e_acute :: string where
  "e_acute = [CHR 0xC3, CHR 0xA9]"

theorem utf8_cut_keeps_valid_witness:
  "valid_utf8 (take (nat (utf8SafeCut (e_acute @ e_acute @ ''!'' @ e_acute) 6)) (e_acute @ e_acute @ ''!'' @ e_acute)) \<and>
   utf8SafeCut (e_acute @ e_acute @ ''!'' @ e_acute) 6 = 5"
proof -
  have v: "valid_utf8 (e_acute @ e_acute @ ''!'' @ e_acute)" by code_simp
  have c: "utf8SafeCut (e_acute @ e_acute @ ''!'' @ e_acute) 6 = 5" by code_simp
  have l: "6 < int (length (e_acute @ e_acute @ ''!'' @ e_acute))" by code_simp
  show ?thesis using utf8_cut_keeps_valid [OF v _ l] c by simp
qed


subsection \<open>clampStringAttrs\<close>

text \<open>\<^verbatim>\<open>m.Range\<close> visits every entry and \<^verbatim>\<open>v.SetStr\<close> rewrites it in place; the result is
  the map and the number of values changed.\<close>

definition clamp_value :: "int \<Rightarrow> pvalue \<Rightarrow> pvalue \<times> int" where
  "clamp_value maxBytes v =
     (case v of
        ValueTypeStr s \<Rightarrow>
          (if int (length s) \<le> maxBytes then (v, 0)
           else (ValueTypeStr (take (nat (utf8SafeCut s maxBytes)) s), 1))
      | _ \<Rightarrow> (v, 0))"

fun clampStringAttrs :: "attrs \<Rightarrow> int \<Rightarrow> attrs \<times> int" where
  "clampStringAttrs [] maxBytes = ([], 0)"
| "clampStringAttrs ((k, v) # m) maxBytes =
     (let (v', c) = clamp_value maxBytes v; (m', changed) = clampStringAttrs m maxBytes
      in ((k, v') # m', c + changed))"

definition value_within :: "int \<Rightarrow> pvalue \<Rightarrow> bool" where
  "value_within maxBytes v \<longleftrightarrow> (\<forall>s. v = ValueTypeStr s \<longrightarrow> int (length s) \<le> maxBytes)"

definition value_utf8 :: "pvalue \<Rightarrow> bool" where
  "value_utf8 v \<longleftrightarrow> (\<forall>s. v = ValueTypeStr s \<longrightarrow> valid_utf8 s)"

lemma clamp_value_spec:
  assumes "0 < m" "clamp_value m v = (v', c)"
  shows "value_within m v'" and "0 \<le> c" and "c = 0 \<longleftrightarrow> value_within m v"
    and "c = 0 \<Longrightarrow> v' = v" and "value_utf8 v \<Longrightarrow> 4 \<le> m \<Longrightarrow> value_utf8 v'"
proof -
  have "int (min (length s) (nat (utf8SafeCut s m))) \<le> m" for s
    using utf8SafeCut_range [of m s] assms(1) by linarith
  with assms show "value_within m v'"
    by (auto simp: clamp_value_def value_within_def split: pvalue.splits if_splits)
  show "value_utf8 v \<Longrightarrow> 4 \<le> m \<Longrightarrow> value_utf8 v'"
    using assms utf8SafeCut_spec [of _ m]
    by (auto simp: clamp_value_def value_utf8_def split: pvalue.splits if_splits)
qed (use assms in \<open>auto simp: clamp_value_def value_within_def split: pvalue.splits if_splits\<close>)

lemma clampStringAttrs_eq:
  "clampStringAttrs m b =
     (map (\<lambda>(k, v). (k, fst (clamp_value b v))) m, sum_list (map (\<lambda>(k, v). snd (clamp_value b v)) m))"
  by (induction m) (auto simp: split_def Let_def)

lemma clamp_count:
  assumes "0 < b"
  shows "snd (clamp_value b v) = (if value_within b v then 0 else 1)"
  by (auto simp: clamp_value_def value_within_def split: pvalue.splits)

lemma clamp_unchanged: "value_within b v \<Longrightarrow> clamp_value b v = (v, 0)"
  by (auto simp: clamp_value_def value_within_def split: pvalue.splits)

lemma clamp_within: "0 < b \<Longrightarrow> value_within b (fst (clamp_value b v))"
  using clamp_value_spec(1) [of b v] by (metis prod.collapse)

lemma clamp_utf8: "4 \<le> b \<Longrightarrow> value_utf8 v \<Longrightarrow> value_utf8 (fst (clamp_value b v))"
  using clamp_value_spec(5) [of b v] by (cases "clamp_value b v") simp

text \<open>The values of an attribute map, and what one clamping pass does to a list of maps.\<close>

definition values_of :: "attrs \<Rightarrow> pvalue list" where
  "values_of m = map snd m"

lemma values_clamp: "values_of (fst (clampStringAttrs m b)) = map (fst \<circ> clamp_value b) (values_of m)"
  by (simp add: clampStringAttrs_eq values_of_def split_def comp_def)

lemma count_clamp:
  "snd (clampStringAttrs m b) = sum_list (map (snd \<circ> clamp_value b) (values_of m))"
  by (simp add: clampStringAttrs_eq values_of_def split_def comp_def)

lemma sum_clamp_zero:
  "0 < b \<Longrightarrow> sum_list (map (snd \<circ> clamp_value b) vs) = int (length (filter (\<lambda>v. \<not> value_within b v) vs))"
  by (induction vs) (simp_all add: clamp_count)

lemma clampStringAttrs_id: "\<forall>v\<in>set (values_of m). value_within b v \<Longrightarrow> fst (clampStringAttrs m b) = m"
  by (induction m) (auto simp: clampStringAttrs_eq values_of_def clamp_unchanged)

end
