(* ===== verification/Batch.thy ===== *)
theory Batch
  imports Pdata
begin

section \<open>Batches of spans, log records and metrics\<close>

text \<open>
  The shape shared by \<^verbatim>\<open>ptrace.Traces\<close>, \<^verbatim>\<open>plog.Logs\<close> and \<^verbatim>\<open>pmetric.Metrics\<close>: resources hold
  scopes, scopes hold leaves.  The three type families are disjoint in pdata and the Go code
  repeats itself for each of them; here the leaf is a type parameter and each operation is
  written once over it and instantiated per signal.  Parts the exporter only copies are opaque
  (the \<open>rest\<close> fields).  The theory holds the truncation pass and the halving of
  \<^verbatim>\<open>signal_traces.go\<close>, \<^verbatim>\<open>signal_logs.go\<close> and \<^verbatim>\<open>signal_metrics.go\<close>; the lemmas say that halving
  loses, repeats and relabels no item, and that truncation touches only oversize strings.
\<close>

record resource =
  res_attrs :: attrs
  res_rest :: nat

record scope =
  sc_name :: string
  sc_version :: string
  sc_attrs :: attrs
  sc_rest :: nat

record 'l scope_group =
  sg_scope :: scope
  sg_schema :: string
  sg_leaves :: "'l list"

record 'l resource_group =
  rg_resource :: resource
  rg_schema :: string
  rg_scopes :: "'l scope_group list"

type_synonym 'l batch = "'l resource_group list"

text \<open>The leaves: spans (with the attributes of their events and links) and log records.\<close>

record span =
  sp_name :: string
  sp_attrs :: attrs
  sp_events :: "(attrs \<times> nat) list"
  sp_links :: "(attrs \<times> nat) list"
  sp_rest :: nat

record log_record =
  lr_attrs :: attrs
  lr_body :: pvalue
  lr_rest :: nat

text \<open>
  A metric is a shell (name, description, unit, metadata, kind with its settings) around
  datapoints.  The kinds have datapoint types of their own in pdata; what the exporter touches
  of them, attributes and exemplars, is the same, and a summary has no exemplars.
\<close>

datatype dp_value = IntValue int64 | DoubleValue nat | OtherValue nat

record datapoint =
  dp_attrs :: attrs
  dp_exemplars :: "(attrs \<times> nat) list"
  dp_value :: dp_value
  dp_rest :: nat

datatype metric_data =
    MetricTypeEmpty
  | MetricTypeGauge "datapoint list"
  | MetricTypeSum nat bool "datapoint list"
  | MetricTypeHistogram nat "datapoint list"
  | MetricTypeExponentialHistogram nat "datapoint list"
  | MetricTypeSummary "datapoint list"

record metric =
  m_name :: string
  m_description :: string
  m_unit :: string
  m_metadata :: attrs
  m_data :: metric_data

type_synonym traces = "span batch"
type_synonym logs = "log_record batch"
type_synonym metrics = "metric batch"

definition group_leaves :: "'l resource_group \<Rightarrow> 'l list" where
  "group_leaves rg = concat (map sg_leaves (rg_scopes rg))"

definition leaves :: "'l batch \<Rightarrow> 'l list" where
  "leaves b = concat (map group_leaves b)"

text \<open>\<^verbatim>\<open>SpanCount\<close>, \<^verbatim>\<open>LogRecordCount\<close>, \<^verbatim>\<open>DataPointCount\<close>.\<close>

definition leaf_count :: "'l batch \<Rightarrow> nat" where
  "leaf_count b = length (leaves b)"

fun data_points :: "metric_data \<Rightarrow> datapoint list" where
  "data_points MetricTypeEmpty = []"
| "data_points (MetricTypeGauge ds) = ds"
| "data_points (MetricTypeSum t monotonic ds) = ds"
| "data_points (MetricTypeHistogram t ds) = ds"
| "data_points (MetricTypeExponentialHistogram t ds) = ds"
| "data_points (MetricTypeSummary ds) = ds"

definition DataPointCount :: "metrics \<Rightarrow> nat" where
  "DataPointCount md = sum_list (map (length \<circ> data_points \<circ> m_data) (leaves md))"

text \<open>An item is a leaf together with the identity it is exported under.\<close>

definition group_items :: "'l resource_group \<Rightarrow> (resource \<times> string \<times> scope \<times> string \<times> 'l) list" where
  "group_items rg =
     concat (map (\<lambda>sg. map (\<lambda>l. (rg_resource rg, rg_schema rg, sg_scope sg, sg_schema sg, l)) (sg_leaves sg))
       (rg_scopes rg))"

definition items :: "'l batch \<Rightarrow> (resource \<times> string \<times> scope \<times> string \<times> 'l) list" where
  "items b = concat (map group_items b)"

lemma items_simps [simp]: "items [] = []" "items (rg # b) = group_items rg @ items b"
  "items (b @ c) = items b @ items c"
  by (simp_all add: items_def)

lemma length_group_items: "length (group_items rg) = length (group_leaves rg)"
  by (simp add: group_items_def group_leaves_def length_concat comp_def)

lemma leaf_count_items: "leaf_count b = length (items b)"
  by (induction b) (simp_all add: leaf_count_def leaves_def length_group_items)

lemma leaves_items: "leaves b = map (\<lambda>(r, rs, s, ss, l). l) (items b)"
  by (simp add: leaves_def items_def group_leaves_def group_items_def map_concat comp_def
      group_leaves_def [abs_def])

subsection \<open>Truncating attributes\<close>

text \<open>The loops \<^verbatim>\<open>changed += clampStringAttrs(...)\<close> over a slice.\<close>

definition clamp_all :: "('a \<Rightarrow> 'a \<times> int) \<Rightarrow> 'a list \<Rightarrow> 'a list \<times> int" where
  "clamp_all f xs = (map (fst \<circ> f) xs, sum_list (map (snd \<circ> f) xs))"

definition clamp_entry :: "int \<Rightarrow> attrs \<times> nat \<Rightarrow> (attrs \<times> nat) \<times> int" where
  "clamp_entry maxBytes e =
     (let (a, n) = clampStringAttrs (fst e) maxBytes in ((a, snd e), n))"

definition clamp_span :: "int \<Rightarrow> span \<Rightarrow> span \<times> int" where
  "clamp_span maxBytes sp =
     (let (a, n1) = clampStringAttrs (sp_attrs sp) maxBytes;
          (es, n2) = clamp_all (clamp_entry maxBytes) (sp_events sp);
          (ls, n3) = clamp_all (clamp_entry maxBytes) (sp_links sp)
      in (sp\<lparr>sp_attrs := a, sp_events := es, sp_links := ls\<rparr>, n1 + n2 + n3))"

definition clamp_log :: "int \<Rightarrow> log_record \<Rightarrow> log_record \<times> int" where
  "clamp_log maxBytes lr =
     (let (a, n) = clampStringAttrs (lr_attrs lr) maxBytes in (lr\<lparr>lr_attrs := a\<rparr>, n))"

definition clampNumberExemplars :: "(attrs \<times> nat) list \<Rightarrow> int \<Rightarrow> (attrs \<times> nat) list \<times> int" where
  "clampNumberExemplars exs maxBytes = clamp_all (clamp_entry maxBytes) exs"

definition clamp_point :: "int \<Rightarrow> datapoint \<Rightarrow> datapoint \<times> int" where
  "clamp_point maxBytes dp =
     (let (a, n1) = clampStringAttrs (dp_attrs dp) maxBytes;
          (es, n2) = clampNumberExemplars (dp_exemplars dp) maxBytes
      in (dp\<lparr>dp_attrs := a, dp_exemplars := es\<rparr>, n1 + n2))"

definition clamp_summary_point :: "int \<Rightarrow> datapoint \<Rightarrow> datapoint \<times> int" where
  "clamp_summary_point maxBytes dp =
     (let (a, n) = clampStringAttrs (dp_attrs dp) maxBytes in (dp\<lparr>dp_attrs := a\<rparr>, n))"

definition clampMetricDataPoints :: "int \<Rightarrow> metric \<Rightarrow> metric \<times> int" where
  "clampMetricDataPoints maxBytes m =
     (let (d, n) = (case m_data m of
          MetricTypeGauge ds \<Rightarrow> (let (ds', n) = clamp_all (clamp_point maxBytes) ds in (MetricTypeGauge ds', n))
        | MetricTypeSum t monotonic ds \<Rightarrow> (let (ds', n) = clamp_all (clamp_point maxBytes) ds in (MetricTypeSum t monotonic ds', n))
        | MetricTypeHistogram t ds \<Rightarrow> (let (ds', n) = clamp_all (clamp_point maxBytes) ds in (MetricTypeHistogram t ds', n))
        | MetricTypeExponentialHistogram t ds \<Rightarrow>
            (let (ds', n) = clamp_all (clamp_point maxBytes) ds in (MetricTypeExponentialHistogram t ds', n))
        | MetricTypeSummary ds \<Rightarrow> (let (ds', n) = clamp_all (clamp_summary_point maxBytes) ds in (MetricTypeSummary ds', n))
        | MetricTypeEmpty \<Rightarrow> (MetricTypeEmpty, 0))
      in (m\<lparr>m_data := d\<rparr>, n))"

definition clamp_scope_group :: "(int \<Rightarrow> 'l \<Rightarrow> 'l \<times> int) \<Rightarrow> int \<Rightarrow> 'l scope_group \<Rightarrow> 'l scope_group \<times> int" where
  "clamp_scope_group clamp_leaf maxBytes sg =
     (let (a, n1) = clampStringAttrs (sc_attrs (sg_scope sg)) maxBytes;
          (ls, n2) = clamp_all (clamp_leaf maxBytes) (sg_leaves sg)
      in (sg\<lparr>sg_scope := (sg_scope sg)\<lparr>sc_attrs := a\<rparr>, sg_leaves := ls\<rparr>, n1 + n2))"

definition clamp_resource_group ::
  "(int \<Rightarrow> 'l \<Rightarrow> 'l \<times> int) \<Rightarrow> int \<Rightarrow> 'l resource_group \<Rightarrow> 'l resource_group \<times> int" where
  "clamp_resource_group clamp_leaf maxBytes rg =
     (let (a, n1) = clampStringAttrs (res_attrs (rg_resource rg)) maxBytes;
          (gs, n2) = clamp_all (clamp_scope_group clamp_leaf maxBytes) (rg_scopes rg)
      in (rg\<lparr>rg_resource := (rg_resource rg)\<lparr>res_attrs := a\<rparr>, rg_scopes := gs\<rparr>, n1 + n2))"

definition truncateTracesAttributes :: "traces \<Rightarrow> int \<Rightarrow> traces \<times> int" where
  "truncateTracesAttributes td maxBytes = clamp_all (clamp_resource_group clamp_span maxBytes) td"

definition truncateLogsAttributes :: "logs \<Rightarrow> int \<Rightarrow> logs \<times> int" where
  "truncateLogsAttributes ld maxBytes = clamp_all (clamp_resource_group clamp_log maxBytes) ld"

definition truncateMetricsAttributes :: "metrics \<Rightarrow> int \<Rightarrow> metrics \<times> int" where
  "truncateMetricsAttributes md maxBytes =
     clamp_all (clamp_resource_group clampMetricDataPoints maxBytes) md"

subsection \<open>What truncation changes\<close>

definition batch_values :: "('l \<Rightarrow> pvalue list) \<Rightarrow> 'l batch \<Rightarrow> pvalue list" where
  "batch_values vals b =
     concat (map (\<lambda>rg. values_of (res_attrs (rg_resource rg)) @
       concat (map (\<lambda>sg. values_of (sc_attrs (sg_scope sg)) @ concat (map vals (sg_leaves sg))) (rg_scopes rg))) b)"

definition entry_values :: "attrs \<times> nat \<Rightarrow> pvalue list" where
  "entry_values e = values_of (fst e)"

definition span_values :: "span \<Rightarrow> pvalue list" where
  "span_values sp = values_of (sp_attrs sp) @ concat (map entry_values (sp_events sp)) @
     concat (map entry_values (sp_links sp))"

definition log_values :: "log_record \<Rightarrow> pvalue list" where
  "log_values lr = values_of (lr_attrs lr)"

definition point_values :: "datapoint \<Rightarrow> pvalue list" where
  "point_values dp = values_of (dp_attrs dp) @ concat (map entry_values (dp_exemplars dp))"

fun data_values :: "metric_data \<Rightarrow> pvalue list" where
  "data_values (MetricTypeSummary ds) = concat (map (values_of \<circ> dp_attrs) ds)"
| "data_values d = concat (map point_values (data_points d))"

definition metric_values :: "metric \<Rightarrow> pvalue list" where
  "metric_values m = data_values (m_data m)"

text \<open>
  The contract of a clamping function: it clamps every value it covers, in order, reports how
  many it changed, and is the identity when every value is within the limit.
\<close>

definition clamps :: "('a \<Rightarrow> pvalue list) \<Rightarrow> int \<Rightarrow> ('a \<Rightarrow> 'a \<times> int) \<Rightarrow> bool" where
  "clamps vals b f \<longleftrightarrow> (\<forall>x. vals (fst (f x)) = map (fst \<circ> clamp_value b) (vals x) \<and>
     snd (f x) = sum_list (map (snd \<circ> clamp_value b) (vals x)) \<and>
     ((\<forall>v\<in>set (vals x). value_within b v) \<longrightarrow> fst (f x) = x))"

lemma clampsD:
  assumes "clamps vals b f"
  shows "vals (fst (f x)) = map (fst \<circ> clamp_value b) (vals x)"
    and "snd (f x) = sum_list (map (snd \<circ> clamp_value b) (vals x))"
    and "\<forall>v\<in>set (vals x). value_within b v \<Longrightarrow> fst (f x) = x"
  using assms by (auto simp: clamps_def)

lemma clamps_all:
  assumes "clamps vals b f"
  shows "clamps (\<lambda>xs. concat (map vals xs)) b (clamp_all f)"
  unfolding clamps_def
proof (intro allI)
  fix xs
  show "concat (map vals (fst (clamp_all f xs))) = map (fst \<circ> clamp_value b) (concat (map vals xs)) \<and>
     snd (clamp_all f xs) = sum_list (map (snd \<circ> clamp_value b) (concat (map vals xs))) \<and>
     ((\<forall>v\<in>set (concat (map vals xs)). value_within b v) \<longrightarrow> fst (clamp_all f xs) = xs)"
    by (induction xs) (auto simp: clamp_all_def clampsD [OF assms] comp_def)
qed

lemma clamps_attrs: "clamps values_of b (\<lambda>m. clampStringAttrs m b)"
  by (simp add: clamps_def values_clamp count_clamp clampStringAttrs_id)

lemma clamps_entry: "clamps entry_values b (clamp_entry b)"
  using clampsD [OF clamps_attrs, of _ b]
  by (simp add: clamps_def clamp_entry_def entry_values_def split_def Let_def)

lemmas clamps_entries = clamps_all [OF clamps_entry]
lemmas clamp_rules = clampsD [OF clamps_attrs] clampsD [OF clamps_entries]

lemma clamps_span: "clamps span_values b (clamp_span b)"
  by (simp add: clamps_def clamp_span_def span_values_def split_def Let_def clamp_rules ball_Un del: set_concat set_map)

lemma clamps_log: "clamps log_values b (clamp_log b)"
  by (simp add: clamps_def clamp_log_def log_values_def split_def Let_def clamp_rules)

lemma clamps_point: "clamps point_values b (clamp_point b)"
  by (simp add: clamps_def clamp_point_def clampNumberExemplars_def point_values_def split_def Let_def
      clamp_rules ball_Un del: set_concat set_map)

lemma clamps_summary_point: "clamps (values_of \<circ> dp_attrs) b (clamp_summary_point b)"
  by (simp add: clamps_def clamp_summary_point_def split_def Let_def clamp_rules)

lemmas point_rules = clampsD [OF clamps_all [OF clamps_point]]
  clampsD [OF clamps_all [OF clamps_summary_point]]

lemma clamps_metric: "clamps metric_values b (clampMetricDataPoints b)"
  unfolding clamps_def
proof
  fix m
  show "metric_values (fst (clampMetricDataPoints b m)) = map (fst \<circ> clamp_value b) (metric_values m) \<and>
     snd (clampMetricDataPoints b m) = sum_list (map (snd \<circ> clamp_value b) (metric_values m)) \<and>
     ((\<forall>v\<in>set (metric_values m). value_within b v) \<longrightarrow> fst (clampMetricDataPoints b m) = m)"
    by (cases "m_data m")
      (simp_all add: clampMetricDataPoints_def metric_values_def split_def Let_def point_rules
        del: set_concat set_map)
qed

text \<open>The interface between the batch walk and the leaf it walks over.\<close>

locale leaf_clamp =
  fixes vals :: "'l \<Rightarrow> pvalue list" and clamp :: "int \<Rightarrow> 'l \<Rightarrow> 'l \<times> int"
  assumes clamps_leaf: "clamps vals b (clamp b)"
begin

lemma clamps_scope_group:
  "clamps (\<lambda>sg. values_of (sc_attrs (sg_scope sg)) @ concat (map vals (sg_leaves sg))) b
     (clamp_scope_group clamp b)"
  using clampsD [OF clamps_all [OF clamps_leaf]]
  by (simp add: clamps_def clamp_scope_group_def split_def Let_def clamp_rules ball_Un
      del: set_concat set_map)

lemma clamps_batch: "clamps (batch_values vals) b (clamp_all (clamp_resource_group clamp b))"
proof -
  have "clamps (\<lambda>rg. values_of (res_attrs (rg_resource rg)) @
       concat (map (\<lambda>sg. values_of (sc_attrs (sg_scope sg)) @ concat (map vals (sg_leaves sg))) (rg_scopes rg)))
     b (clamp_resource_group clamp b)"
    using clampsD [OF clamps_all [OF clamps_scope_group]]
    by (simp add: clamps_def clamp_resource_group_def split_def Let_def clamp_rules ball_Un
        del: set_concat set_map)
  from clamps_all [OF this] show ?thesis by (simp add: batch_values_def [abs_def])
qed

lemma truncation_spec:
  assumes "0 < b" "clamp_all (clamp_resource_group clamp b) td = (td', n)"
  shows "(\<forall>v\<in>set (batch_values vals td'). value_within b v) \<and>
    n = int (length (filter (\<lambda>v. \<not> value_within b v) (batch_values vals td))) \<and>
    (n = 0 \<longrightarrow> td' = td) \<and>
    (4 \<le> b \<and> (\<forall>v\<in>set (batch_values vals td). value_utf8 v) \<longrightarrow>
      (\<forall>v\<in>set (batch_values vals td'). value_utf8 v))"
proof -
  note c = clampsD [OF clamps_batch, where b = b and x = td, unfolded assms(2) fst_conv snd_conv]
  show ?thesis
    using assms(1) c by (auto simp: sum_clamp_zero clamp_within clamp_utf8 filter_empty_conv)
qed

end

interpretation span_clamp: leaf_clamp span_values clamp_span
  by unfold_locales (rule clamps_span)

interpretation log_clamp: leaf_clamp log_values clamp_log
  by unfold_locales (rule clamps_log)

interpretation metric_clamp: leaf_clamp metric_values clampMetricDataPoints
  by unfold_locales (rule clamps_metric)

lemma truncateMetrics_points: "DataPointCount (fst (truncateMetricsAttributes md b)) = DataPointCount md"
proof -
  have points: "length (data_points (m_data (fst (clampMetricDataPoints b m)))) = length (data_points (m_data m))" for m
    by (cases "m_data m") (simp_all add: clampMetricDataPoints_def clamp_all_def split_def Let_def)
  have "map (length \<circ> data_points \<circ> m_data) (group_leaves (fst (clamp_resource_group clampMetricDataPoints b rg)))
      = map (length \<circ> data_points \<circ> m_data) (group_leaves rg)" for rg
    by (simp add: group_leaves_def clamp_resource_group_def clamp_scope_group_def clamp_all_def split_def
        Let_def map_concat comp_def points)
  then show ?thesis
    by (auto simp: DataPointCount_def leaves_def truncateMetricsAttributes_def clamp_all_def map_concat comp_def)
qed


text \<open>
  The same for metrics: resource, scope and datapoint attributes and the exemplars of
  every kind that has them.
\<close>

theorem truncate_metrics_bounds:
  assumes "0 < b" "truncateMetricsAttributes md b = (md', n)"
  shows "(\<forall>v\<in>set (batch_values metric_values md'). value_within b v) \<and>
    n = int (length (filter (\<lambda>v. \<not> value_within b v) (batch_values metric_values md))) \<and>
    (n = 0 \<longrightarrow> md' = md) \<and> DataPointCount md' = DataPointCount md"
proof -
  have "DataPointCount md' = DataPointCount md"
    using truncateMetrics_points [of md b] by (simp add: assms(2))
  with metric_clamp.truncation_spec [OF assms(1) assms(2) [unfolded truncateMetricsAttributes_def]]
  show ?thesis by blast
qed

text \<open>Batches for the witnesses.\<close>

definition sample_resource :: "string \<Rightarrow> resource" where
  "sample_resource host = \<lparr>res_attrs = [(''host'', ValueTypeStr host)], res_rest = 0\<rparr>"

definition sample_scope :: scope where
  "sample_scope = \<lparr>sc_name = ''lib'', sc_version = ''1'', sc_attrs = [], sc_rest = 0\<rparr>"

definition sample_span :: "string \<Rightarrow> span" where
  "sample_span s = \<lparr>sp_name = s, sp_attrs = [(''id'', ValueTypeStr s)],
     sp_events = [([(''note'', ValueTypeStr ''abcdefgh'')], 7)], sp_links = [], sp_rest = 0\<rparr>"

definition sample_traces :: "string \<Rightarrow> string list \<Rightarrow> traces" where
  "sample_traces host spans =
     [\<lparr>rg_resource = sample_resource host, rg_schema = ''v1'',
       rg_scopes = [\<lparr>sg_scope = sample_scope, sg_schema = ''v1'', sg_leaves = map sample_span spans\<rparr>]\<rparr>]"

definition sample_point :: "string \<Rightarrow> datapoint" where
  "sample_point s = \<lparr>dp_attrs = [(''k'', ValueTypeStr s)], dp_exemplars = [], dp_value = IntValue 1, dp_rest = 0\<rparr>"

definition sample_metric :: "string \<Rightarrow> string list \<Rightarrow> metric" where
  "sample_metric nm ps = \<lparr>m_name = nm, m_description = [], m_unit = ''1'', m_metadata = [],
     m_data = MetricTypeSum 2 True (map sample_point ps)\<rparr>"

definition sample_metrics :: "string \<Rightarrow> metric list \<Rightarrow> metrics" where
  "sample_metrics host ms =
     [\<lparr>rg_resource = sample_resource host, rg_schema = ''v1'',
       rg_scopes = [\<lparr>sg_scope = sample_scope, sg_schema = ''v1'', sg_leaves = ms\<rparr>]\<rparr>]"


theorem truncate_metrics_bounds_witness:
  "snd (truncateMetricsAttributes (sample_metrics ''h'' [sample_metric ''m'' [''a'', ''abcdef'']]) 5) = 1 \<and>
   DataPointCount (fst (truncateMetricsAttributes (sample_metrics ''h'' [sample_metric ''m'' [''a'', ''abcdef'']]) 5)) = 2"
proof -
  let ?md = "sample_metrics ''h'' [sample_metric ''m'' [''a'', ''abcdef'']]"
  have n: "snd (truncateMetricsAttributes ?md 5) = 1" and c: "DataPointCount ?md = 2" by code_simp+
  show ?thesis
    using truncate_metrics_bounds [of 5 ?md, OF _ prod.collapse [symmetric]] n c by simp
qed

end
