(* ===== verification/Split.thy ===== *)
theory Split
  imports Batch
begin

section \<open>Halving a batch (split_half)\<close>

text \<open>
  \<^verbatim>\<open>splitTracesHalf\<close>, \<^verbatim>\<open>splitLogsHalf\<close> and \<^verbatim>\<open>splitMetricsHalf\<close> with their helpers.  Every Go
  version builds fresh batches with \<^verbatim>\<open>CopyTo\<close> and never writes to its input, so they are plain
  functions here.  A half is always smaller than the whole, and the two halves together hold
  the items of the whole, in order, under the identities they had.
\<close>

text \<open>
  The inner loop over the leaves of one scope: \<open>seen\<close> counts across scopes, \<open>da\<close> and \<open>db\<close>
  are the scope's destinations, created when their first leaf arrives.
\<close>

fun append_to :: "'l list option \<Rightarrow> 'l \<Rightarrow> 'l list option" where
  "append_to None l = Some [l]"
| "append_to (Some ls) l = Some (ls @ [l])"

fun split_leaves :: "nat \<Rightarrow> nat \<Rightarrow> 'l list \<Rightarrow> 'l list option \<Rightarrow> 'l list option \<Rightarrow>
    nat \<times> 'l list option \<times> 'l list option" where
  "split_leaves mid seen [] da db = (seen, da, db)"
| "split_leaves mid seen (l # ls) da db =
     (if seen < mid then split_leaves mid (seen + 1) ls (append_to da l) db
      else split_leaves mid (seen + 1) ls da (append_to db l))"

fun copy_scope :: "'l scope_group \<Rightarrow> 'l list option \<Rightarrow> 'l scope_group list" where
  "copy_scope sg None = []"
| "copy_scope sg (Some ls) = [\<lparr>sg_scope = sg_scope sg, sg_schema = sg_schema sg, sg_leaves = ls\<rparr>]"

fun split_scopes :: "nat \<Rightarrow> nat \<Rightarrow> 'l scope_group list \<Rightarrow> 'l scope_group list \<Rightarrow> 'l scope_group list \<Rightarrow>
    'l scope_group list \<times> 'l scope_group list" where
  "split_scopes mid seen [] ga gb = (ga, gb)"
| "split_scopes mid seen (sg # sgs) ga gb =
     (let (seen', da, db) = split_leaves mid seen (sg_leaves sg) None None
      in split_scopes mid seen' sgs (ga @ copy_scope sg da) (gb @ copy_scope sg db))"

definition split_resource :: "nat \<Rightarrow> 'l resource_group \<Rightarrow> 'l batch \<times> 'l batch" where
  "split_resource mid rg =
     (let (ga, gb) = split_scopes mid 0 (rg_scopes rg) [] []
      in ([\<lparr>rg_resource = rg_resource rg, rg_schema = rg_schema rg, rg_scopes = ga\<rparr>],
          [\<lparr>rg_resource = rg_resource rg, rg_schema = rg_schema rg, rg_scopes = gb\<rparr>]))"

definition splitTracesHalf :: "traces \<Rightarrow> (traces \<times> traces) option" where
  "splitTracesHalf td =
     (if length td > 1 then (let mid = length td div 2 in Some (take mid td, drop mid td))
      else if length td = 0 \<or> leaf_count td \<le> 1 then None
      else Some (split_resource (leaf_count td div 2) (td ! 0)))"

definition splitLogsHalf :: "logs \<Rightarrow> (logs \<times> logs) option" where
  "splitLogsHalf ld =
     (if length ld > 1 then (let mid = length ld div 2 in Some (take mid ld, drop mid ld))
      else if length ld = 0 \<or> leaf_count ld \<le> 1 then None
      else Some (split_resource (leaf_count ld div 2) (ld ! 0)))"

definition metricCount :: "metric resource_group \<Rightarrow> nat" where
  "metricCount rm = sum_list (map (\<lambda>sm. length (sg_leaves sm)) (rg_scopes rm))"

definition set_points :: "metric_data \<Rightarrow> datapoint list \<Rightarrow> metric_data" where
  "set_points d ds =
     (case d of
        MetricTypeEmpty \<Rightarrow> MetricTypeEmpty
      | MetricTypeGauge _ \<Rightarrow> MetricTypeGauge ds
      | MetricTypeSum t monotonic _ \<Rightarrow> MetricTypeSum t monotonic ds
      | MetricTypeHistogram t _ \<Rightarrow> MetricTypeHistogram t ds
      | MetricTypeExponentialHistogram t _ \<Rightarrow> MetricTypeExponentialHistogram t ds
      | MetricTypeSummary _ \<Rightarrow> MetricTypeSummary ds)"

definition copyMetricShell :: "metric \<Rightarrow> metric" where
  "copyMetricShell src =
     \<lparr>m_name = m_name src, m_description = m_description src, m_unit = m_unit src,
      m_metadata = m_metadata src,
      m_data = (case m_data src of
          MetricTypeEmpty \<Rightarrow> MetricTypeEmpty
        | MetricTypeGauge _ \<Rightarrow> MetricTypeGauge []
        | MetricTypeSum t monotonic _ \<Rightarrow> MetricTypeSum t monotonic []
        | MetricTypeHistogram t _ \<Rightarrow> MetricTypeHistogram t []
        | MetricTypeExponentialHistogram t _ \<Rightarrow> MetricTypeExponentialHistogram t []
        | MetricTypeSummary _ \<Rightarrow> MetricTypeSummary [])\<rparr>"

text \<open>
  \<^verbatim>\<open>eachMetricDataPoint\<close> hands its callback a closure that appends the datapoint to a
  destination of the source's kind; the destination always is a copy of the source's shell.
\<close>

definition append_point :: "metric \<Rightarrow> datapoint \<Rightarrow> metric" where
  "append_point dst dp = dst\<lparr>m_data := set_points (m_data dst) (data_points (m_data dst) @ [dp])\<rparr>"

definition eachMetricDataPoint :: "metric \<Rightarrow> (datapoint \<Rightarrow> 's \<Rightarrow> 's) \<Rightarrow> 's \<Rightarrow> 's" where
  "eachMetricDataPoint m fn s =
     (case m_data m of
        MetricTypeGauge dps \<Rightarrow> fold fn dps s
      | MetricTypeSum t monotonic dps \<Rightarrow> fold fn dps s
      | MetricTypeHistogram t dps \<Rightarrow> fold fn dps s
      | MetricTypeExponentialHistogram t dps \<Rightarrow> fold fn dps s
      | MetricTypeSummary dps \<Rightarrow> fold fn dps s
      | MetricTypeEmpty \<Rightarrow> s)"

text \<open>\<^verbatim>\<open>buildMetricShell\<close> appends the skeleton to an empty batch and returns the metric in it;
  here it takes the finished metric.\<close>

definition buildMetricShell ::
  "metric resource_group \<Rightarrow> metric scope_group \<Rightarrow> metric \<Rightarrow> metrics" where
  "buildMetricShell srcRM srcSM dm =
     [\<lparr>rg_resource = rg_resource srcRM, rg_schema = rg_schema srcRM,
       rg_scopes = [\<lparr>sg_scope = sg_scope srcSM, sg_schema = sg_schema srcSM, sg_leaves = [dm]\<rparr>]\<rparr>]"

definition split_points_step :: "nat \<Rightarrow> datapoint \<Rightarrow> nat \<times> metric \<times> metric \<Rightarrow> nat \<times> metric \<times> metric" where
  "split_points_step mid dp s =
     (case s of (seen, ma, mb) \<Rightarrow>
        if seen < mid then (seen + 1, append_point ma dp, mb) else (seen + 1, ma, append_point mb dp))"

definition splitSingleMetricDatapoints :: "metric resource_group \<Rightarrow> (metrics \<times> metrics) option" where
  "splitSingleMetricDatapoints rm =
     (case filter (\<lambda>sm. length (sg_leaves sm) > 0) (rg_scopes rm) of
        [] \<Rightarrow> None
      | srcSM # _ \<Rightarrow>
          (let srcM = sg_leaves srcSM ! 0;
               n = eachMetricDataPoint srcM (\<lambda>_ n. n + 1) (0 :: nat)
           in if n \<le> 1 then None
              else (let (_, ma, mb) = eachMetricDataPoint srcM (split_points_step (n div 2))
                          (0, copyMetricShell srcM, copyMetricShell srcM)
                    in Some (buildMetricShell rm srcSM ma, buildMetricShell rm srcSM mb))))"

definition splitMetricsHalf :: "metrics \<Rightarrow> (metrics \<times> metrics) option" where
  "splitMetricsHalf md =
     (if length md > 1 then (let mid = length md div 2 in Some (take mid md, drop mid md))
      else if length md = 0 then None
      else (let rm = md ! 0; total = metricCount rm
            in if total = 0 then None
               else if total = 1 then splitSingleMetricDatapoints rm
               else Some (split_resource (total div 2) rm)))"

subsection \<open>Halving keeps the items\<close>

definition nonempty :: "'l list \<Rightarrow> 'l list option" where
  "nonempty ls = (if ls = [] then None else Some ls)"

lemma append_to_eq: "append_to da l = Some ((case da of None \<Rightarrow> [] | Some ls \<Rightarrow> ls) @ [l])"
  by (cases da) simp_all

lemma split_leaves_late:
  "mid \<le> seen \<Longrightarrow> split_leaves mid seen ls da db =
     (seen + length ls, da, if ls = [] then db else Some ((case db of None \<Rightarrow> [] | Some l \<Rightarrow> l) @ ls))"
  by (induction ls arbitrary: seen db) (auto simp: append_to_eq)

lemma split_leaves_eq:
  "split_leaves mid seen ls da None =
     (seen + length ls,
      (if take (mid - seen) ls = [] then da
       else Some ((case da of None \<Rightarrow> [] | Some l \<Rightarrow> l) @ take (mid - seen) ls)),
      nonempty (drop (mid - seen) ls))"
proof (induction ls arbitrary: seen da)
  case (Cons l ls)
  show ?case
  proof (cases "seen < mid")
    case True
    then obtain d where d: "mid - seen = Suc d" "mid - Suc seen = d"
      by (metis Suc_diff_Suc)
    with True Cons show ?thesis by (auto simp: append_to_eq)
  next
    case False
    then show ?thesis by (simp add: split_leaves_late nonempty_def)
  qed
qed (simp add: nonempty_def)

definition scope_items :: "'l resource_group \<Rightarrow> 'l scope_group list \<Rightarrow> (resource \<times> string \<times> scope \<times> string \<times> 'l) list" where
  "scope_items rg sgs = group_items (rg\<lparr>rg_scopes := sgs\<rparr>)"

lemma scope_items_simps:
  "scope_items rg [] = []"
  "scope_items rg (sg # sgs) =
     map (\<lambda>l. (rg_resource rg, rg_schema rg, sg_scope sg, sg_schema sg, l)) (sg_leaves sg) @ scope_items rg sgs"
  "scope_items rg (gs @ sgs) = scope_items rg gs @ scope_items rg sgs"
  by (simp_all add: scope_items_def group_items_def)

lemma scope_items_copy:
  "scope_items rg (copy_scope sg (nonempty ls)) =
     map (\<lambda>l. (rg_resource rg, rg_schema rg, sg_scope sg, sg_schema sg, l)) ls"
  by (simp add: nonempty_def scope_items_simps)

lemma split_scopes_items:
  "split_scopes mid seen sgs ga gb = (ga', gb') \<Longrightarrow>
     scope_items rg ga' = scope_items rg ga @ take (mid - seen) (scope_items rg sgs) \<and>
     scope_items rg gb' = scope_items rg gb @ drop (mid - seen) (scope_items rg sgs)"
proof (induction sgs arbitrary: seen ga gb)
  case (Cons sg sgs)
  have e: "split_leaves mid seen (sg_leaves sg) None None =
      (seen + length (sg_leaves sg), nonempty (take (mid - seen) (sg_leaves sg)),
       nonempty (drop (mid - seen) (sg_leaves sg)))"
    by (simp add: split_leaves_eq nonempty_def)
  show ?case
    using Cons(1) [of "seen + length (sg_leaves sg)"
        "ga @ copy_scope sg (nonempty (take (mid - seen) (sg_leaves sg)))"
        "gb @ copy_scope sg (nonempty (drop (mid - seen) (sg_leaves sg)))"] Cons(2)
    by (simp add: e scope_items_simps scope_items_copy take_map drop_map)
qed (simp add: scope_items_simps)

lemma split_resource_items:
  assumes "split_resource mid rg = (a, b)"
  shows "items a = take mid (group_items rg) \<and> items b = drop mid (group_items rg) \<and>
    length a = 1 \<and> length b = 1"
proof -
  obtain ga gb where g: "split_scopes mid 0 (rg_scopes rg) [] [] = (ga, gb)" by fastforce
  have "rg\<lparr>rg_scopes := gs\<rparr> = \<lparr>rg_resource = rg_resource rg, rg_schema = rg_schema rg, rg_scopes = gs\<rparr>" for gs
    by (cases rg) simp
  then show ?thesis
    using split_scopes_items [OF g, of rg] assms g
    by (auto simp: split_resource_def scope_items_def group_items_def)
qed

lemma split_generic:
  assumes "length td > 1 \<Longrightarrow> r = Some (take (length td div 2) td, drop (length td div 2) td)"
    and "length td \<le> 1 \<Longrightarrow> length td = 0 \<or> leaf_count td \<le> 1 \<Longrightarrow> r = None"
    and "length td = 1 \<Longrightarrow> leaf_count td > 1 \<Longrightarrow> r = Some (split_resource (leaf_count td div 2) (td ! 0))"
    and "r = Some (a, b)"
  shows "items a @ items b = items td \<and>
     (length td > 1 \<and> length a < length td \<and> length b < length td \<or>
      length td = 1 \<and> length a = 1 \<and> length b = 1 \<and> items a \<noteq> [] \<and> items b \<noteq> [] \<and>
      (length (items b) = length (items a) \<or> length (items b) = length (items a) + 1))"
proof (cases "length td > 1")
  case True
  then have ab: "a = take (length td div 2) td" "b = drop (length td div 2) td"
    using assms(1,4) by auto
  then have "items a @ items b = items td" by (simp flip: items_simps(3))
  with True ab show ?thesis by auto
next
  case False
  have one: "length td = 1" "leaf_count td > 1"
    using assms(2) False assms(4) by (cases td; fastforce)+
  then obtain rg where td: "td = [rg]" by (cases td) auto
  have "split_resource (leaf_count td div 2) rg = (a, b)" using assms(3,4) one td by simp
  from split_resource_items [OF this] have
    i: "items a = take (leaf_count td div 2) (group_items rg)"
      "items b = drop (leaf_count td div 2) (group_items rg)" "length a = 1" "length b = 1" by auto
  have n: "leaf_count td = length (group_items rg)" using td by (simp add: leaf_count_items)
  have half: "leaf_count td div 2 < leaf_count td" "0 < leaf_count td div 2"
    "leaf_count td - leaf_count td div 2 = leaf_count td div 2 \<or>
     leaf_count td - leaf_count td div 2 = leaf_count td div 2 + 1"
    using one(2) by linarith+
  have "length (items a) = leaf_count td div 2"
    "length (items b) = leaf_count td - leaf_count td div 2"
    using half(1) by (simp_all add: i(1,2) n)
  moreover have "items a @ items b = items td" using i td by simp
  ultimately show ?thesis using half i(3,4) one(1) by fastforce
qed

text \<open>Metrics are counted in datapoints: an item is a datapoint under its metric's shell.\<close>

definition dp_items ::
  "metrics \<Rightarrow> (resource \<times> string \<times> scope \<times> string \<times> metric \<times> datapoint) list" where
  "dp_items md = concat (map (\<lambda>(r, rs, s, ss, m).
     map (\<lambda>d. (r, rs, s, ss, copyMetricShell m, d)) (data_points (m_data m))) (items md))"

lemma DataPointCount_items: "DataPointCount md = length (dp_items md)"
  by (simp add: DataPointCount_def dp_items_def leaves_items length_concat comp_def split_def)

lemma set_points_points [simp]:
  "d \<noteq> MetricTypeEmpty \<Longrightarrow> data_points (set_points d ds) = ds"
  "set_points (set_points d ds) es = set_points d es" "set_points d (data_points d) = d"
  by (cases d; simp add: set_points_def)+

lemma shell_eq: "copyMetricShell m = m\<lparr>m_data := set_points (m_data m) []\<rparr>"
  by (cases m; cases "m_data m") (simp_all add: copyMetricShell_def set_points_def)

lemma eachMetricDataPoint_fold: "eachMetricDataPoint m fn s = fold fn (data_points (m_data m)) s"
  by (cases "m_data m") (simp_all add: eachMetricDataPoint_def)

abbreviation with_points :: "metric \<Rightarrow> datapoint list \<Rightarrow> metric" where
  "with_points m ds \<equiv> m\<lparr>m_data := set_points (m_data m) ds\<rparr>"

lemma append_point_with:
  "m_data m \<noteq> MetricTypeEmpty \<Longrightarrow> append_point (with_points m ds) dp = with_points m (ds @ [dp])"
  by (simp add: append_point_def)

lemma split_points_fold:
  assumes "m_data m \<noteq> MetricTypeEmpty"
  shows "fold (split_points_step mid) dps (seen, with_points m da, with_points m db) =
    (seen + length dps, with_points m (da @ take (mid - seen) dps), with_points m (db @ drop (mid - seen) dps))"
proof (induction dps arbitrary: seen da db)
  case (Cons dp dps)
  show ?case
  proof (cases "seen < mid")
    case True
    then obtain d where d: "mid - seen = Suc d" "mid - Suc seen = d"
      by (metis Suc_diff_Suc)
    with True show ?thesis
      using Cons by (simp add: split_points_step_def append_point_with assms)
  next
    case False
    then show ?thesis
      using Cons by (simp add: split_points_step_def append_point_with assms)
  qed
qed simp

lemma fold_count: "fold (\<lambda>_. Suc) ds k = k + length ds"
  by (induction ds arbitrary: k) simp_all

lemma count_points: "eachMetricDataPoint m (\<lambda>_. Suc) (0 :: nat) = length (data_points (m_data m))"
  by (simp add: eachMetricDataPoint_fold fold_count)

lemma single_metric_scopes:
  assumes "metricCount rm = 1"
  obtains gs sm gs' m where "rg_scopes rm = gs @ sm # gs'" "sg_leaves sm = [m]"
    "\<forall>g\<in>set gs. sg_leaves g = []" "\<forall>g\<in>set gs'. sg_leaves g = []"
proof -
  have "\<exists>gs sm gs' m. sgs = gs @ sm # gs' \<and> sg_leaves sm = [m] \<and>
      (\<forall>g\<in>set gs. sg_leaves g = []) \<and> (\<forall>g\<in>set gs'. sg_leaves g = [])"
    if "sum_list (map (\<lambda>sm. length (sg_leaves sm)) sgs) = 1" for sgs :: "metric scope_group list"
    using that
  proof (induction sgs)
    case (Cons sg sgs)
    show ?case
    proof (cases "sg_leaves sg")
      case Nil
      with Cons obtain gs sm gs' m where
        "sgs = gs @ sm # gs'" "sg_leaves sm = [m]" "\<forall>g\<in>set gs. sg_leaves g = []"
        "\<forall>g\<in>set gs'. sg_leaves g = []" by auto
      with Nil show ?thesis by (intro exI [of _ "sg # gs"] exI) auto
    next
      case (Cons m ms)
      with Cons.prems show ?thesis by (intro exI [of _ "[]"]) auto
    qed
  qed simp
  then show thesis using assms that unfolding metricCount_def by blast
qed

lemma split_single_spec:
  assumes "metricCount rm = 1" "splitSingleMetricDatapoints rm = Some (a, b)"
  shows "dp_items a @ dp_items b = dp_items [rm] \<and> length a = 1 \<and> length b = 1 \<and>
    dp_items a \<noteq> [] \<and> dp_items b \<noteq> [] \<and>
    (length (dp_items b) = length (dp_items a) \<or> length (dp_items b) = length (dp_items a) + 1)"
proof -
  from single_metric_scopes [OF assms(1)] obtain gs sm gs' m where
    g: "rg_scopes rm = gs @ sm # gs'" "sg_leaves sm = [m]"
      "\<forall>g\<in>set gs. sg_leaves g = []" "\<forall>g\<in>set gs'. sg_leaves g = []" .
  have f: "filter (\<lambda>sm. length (sg_leaves sm) > 0) (rg_scopes rm) = [sm]"
    using g by (simp add: filter_empty_conv)
  let ?dps = "data_points (m_data m)"
  have empty: "concat (map (\<lambda>sg. map (\<lambda>l. (rg_resource rm, rg_schema rm, sg_scope sg, sg_schema sg, l)) (sg_leaves sg)) gs) = []"
    if "\<forall>g\<in>set gs. sg_leaves g = []" for gs :: "metric scope_group list"
    using that by simp
  have gi: "group_items rm = [(rg_resource rm, rg_schema rm, sg_scope sm, sg_schema sm, m)]"
    by (simp add: group_items_def g empty del: concat_eq_Nil_conv)
  from assms(2) f g(2) have n: "length ?dps > 1"
    by (simp add: splitSingleMetricDatapoints_def count_points Let_def split: if_splits)
  then have ne: "m_data m \<noteq> MetricTypeEmpty" by auto
  have ab: "a = buildMetricShell rm sm (with_points m (take (length ?dps div 2) ?dps))"
    "b = buildMetricShell rm sm (with_points m (drop (length ?dps div 2) ?dps))"
    using assms(2) f g(2) n split_points_fold [OF ne, of _ ?dps 0 "[]" "[]"]
    by (auto simp: splitSingleMetricDatapoints_def fold_count eachMetricDataPoint_fold shell_eq Let_def)
  have shells: "copyMetricShell (with_points m ds) = copyMetricShell m" for ds
    by (simp add: shell_eq)
  have it: "dp_items (buildMetricShell rm sm (with_points m ds)) =
      map (\<lambda>d. (rg_resource rm, rg_schema rm, sg_scope sm, sg_schema sm, copyMetricShell m, d)) ds" for ds
    using ne by (simp add: dp_items_def buildMetricShell_def group_items_def shells)
  have rm: "dp_items [rm] = map (\<lambda>d. (rg_resource rm, rg_schema rm, sg_scope sm, sg_schema sm, copyMetricShell m, d)) ?dps"
    by (simp add: dp_items_def gi)
  have one: "length a = 1" "length b = 1" by (simp_all add: ab buildMetricShell_def)
  have half: "length ?dps div 2 < length ?dps" "0 < length ?dps div 2"
    "length ?dps - length ?dps div 2 = length ?dps div 2 \<or>
     length ?dps - length ?dps div 2 = length ?dps div 2 + 1"
    using n by linarith+
  have len: "length (dp_items a) = length ?dps div 2"
    "length (dp_items b) = length ?dps - length ?dps div 2"
    using half(1) by (simp_all only: ab it length_map length_take length_drop)
  have "dp_items a @ dp_items b = dp_items [rm]"
    by (simp only: ab it rm append_take_drop_id flip: map_append)
  with one half len show ?thesis by fastforce
qed

lemma split_single_None:
  assumes "metricCount rm = 1"
  shows "splitSingleMetricDatapoints rm = None \<longleftrightarrow> DataPointCount [rm] \<le> 1"
proof -
  from single_metric_scopes [OF assms(1)] obtain gs sm gs' m where
    g: "rg_scopes rm = gs @ sm # gs'" "sg_leaves sm = [m]"
      "\<forall>g\<in>set gs. sg_leaves g = []" "\<forall>g\<in>set gs'. sg_leaves g = []" .
  have f: "filter (\<lambda>sm. length (sg_leaves sm) > 0) (rg_scopes rm) = [sm]"
    using g by (simp add: filter_empty_conv)
  have "concat (map sg_leaves gs) = []" "concat (map sg_leaves gs') = []" using g(3,4) by simp_all
  then have "leaves [rm] = [m]" by (simp add: leaves_def group_leaves_def g(1,2) del: concat_eq_Nil_conv)
  then show ?thesis
    using f g(2) by (simp add: splitSingleMetricDatapoints_def count_points DataPointCount_def Let_def split_def)
qed

lemma splits_metrics:
  assumes "splitMetricsHalf md = Some (a, b)"
  shows "dp_items a @ dp_items b = dp_items md \<and>
     (length md > 1 \<and> length a < length md \<and> length b < length md \<or>
      length md = 1 \<and> length a = 1 \<and> length b = 1 \<and>
      (length (items a) < length (items md) \<and> length (items b) < length (items md) \<or>
       dp_items a \<noteq> [] \<and> dp_items b \<noteq> []))"
proof (cases "length md > 1 \<or> metricCount (md ! 0) \<noteq> 1")
  case True
  have mc: "length md = 1 \<Longrightarrow> metricCount (md ! 0) = leaf_count md"
    by (cases md) (simp_all add: metricCount_def leaf_count_def leaves_def group_leaves_def length_concat comp_def)
  have "items a @ items b = items md \<and>
     (length md > 1 \<and> length a < length md \<and> length b < length md \<or>
      length md = 1 \<and> length a = 1 \<and> length b = 1 \<and> items a \<noteq> [] \<and> items b \<noteq> [] \<and>
      (length (items b) = length (items a) \<or> length (items b) = length (items a) + 1))"
  proof (rule split_generic [OF _ _ _ assms])
    show "splitMetricsHalf md = None" if "length md \<le> 1" "length md = 0 \<or> leaf_count md \<le> 1"
    proof (cases "length md = 0")
      case False
      then have "length md = 1" using that(1) by linarith
      then show ?thesis
        using that(2) True mc False by (simp add: splitMetricsHalf_def Let_def)
    qed (simp add: splitMetricsHalf_def)
  qed (use True mc in \<open>simp_all add: splitMetricsHalf_def Let_def\<close>)
  moreover from this have "dp_items a @ dp_items b = dp_items md"
    by (simp add: dp_items_def flip: concat_append map_append)
  moreover have "length (items a) < length (items md) \<and> length (items b) < length (items md)"
    if "items a @ items b = items md" "items a \<noteq> []" "items b \<noteq> []"
    by (simp add: that flip: that(1))
  ultimately show ?thesis by blast
next
  case False
  with assms have len: "length md = 1" "metricCount (md ! 0) = 1"
    by (cases md; auto simp: splitMetricsHalf_def Let_def split: if_splits)+
  then obtain rm where md: "md = [rm]" by (cases md) auto
  have "splitSingleMetricDatapoints rm = Some (a, b)"
    using assms len md by (simp add: splitMetricsHalf_def)
  with split_single_spec [OF _ this] len md show ?thesis by auto
qed

lemma splitTracesHalf_items: "splitTracesHalf td = Some (a, b) \<Longrightarrow> items a @ items b = items td"
  by (rule conjunct1 [OF split_generic [where r = "splitTracesHalf td"]])
    (auto simp: splitTracesHalf_def Let_def)

lemma splitLogsHalf_items: "splitLogsHalf ld = Some (a, b) \<Longrightarrow> items a @ items b = items ld"
  by (rule conjunct1 [OF split_generic [where r = "splitLogsHalf ld"]])
    (auto simp: splitLogsHalf_def Let_def)

text \<open>
  Halving a trace batch loses, duplicates, reorders and relabels nothing: the spans of the two
  halves, each with its resource, scope and schema URLs, are the spans of the batch in order.
  Either there are several resources and each half has fewer, or there is one and its spans
  are shared evenly, so a halved batch always shrinks.
\<close>

theorem split_traces_conserves:
  assumes "splitTracesHalf td = Some (a, b)"
  shows "items a @ items b = items td \<and>
     (length td > 1 \<and> length a < length td \<and> length b < length td \<or>
      length td = 1 \<and> length a = 1 \<and> length b = 1 \<and> items a \<noteq> [] \<and> items b \<noteq> [] \<and>
      (length (items b) = length (items a) \<or> length (items b) = length (items a) + 1))"
  by (rule split_generic [OF _ _ _ assms]) (auto simp: splitTracesHalf_def Let_def)

theorem split_traces_conserves_witness:
  "(case splitTracesHalf (sample_traces ''h'' [''a'', ''b'', ''c'']) of
      Some (a, b) \<Rightarrow> items a @ items b = items (sample_traces ''h'' [''a'', ''b'', ''c'']) \<and> length (items a) = 1
    | None \<Rightarrow> False)"
proof -
  let ?td = "sample_traces ''h'' [''a'', ''b'', ''c'']"
  have "(case splitTracesHalf ?td of None \<Rightarrow> False | Some (a, b) \<Rightarrow> length (items a) = 1)" by code_simp
  then obtain a b where s: "splitTracesHalf ?td = Some (a, b)" "length (items a) = 1"
    by (cases "splitTracesHalf ?td") auto
  from split_traces_conserves [OF s(1)] s show ?thesis by simp
qed

text \<open>
  C26.  Halving a metric batch keeps every datapoint under its resource, scope and metric shell,
  and makes progress: fewer resources on each side, or fewer metrics, or, for a single metric,
  some of its datapoints on each side.
\<close>

theorem split_metrics_conserves:
  assumes "splitMetricsHalf md = Some (a, b)"
  shows "dp_items a @ dp_items b = dp_items md \<and>
     (length md > 1 \<and> length a < length md \<and> length b < length md \<or>
      length md = 1 \<and> length a = 1 \<and> length b = 1 \<and>
      (length (items a) < length (items md) \<and> length (items b) < length (items md) \<or>
       dp_items a \<noteq> [] \<and> dp_items b \<noteq> []))"
  using assms by (rule splits_metrics)

theorem split_metrics_conserves_witness:
  "(case splitMetricsHalf (sample_metrics ''h'' [sample_metric ''m'' [''a'', ''b'', ''c'']]) of
      Some (a, b) \<Rightarrow> length (dp_items a @ dp_items b) = 3 | None \<Rightarrow> False)"
proof -
  let ?md = "sample_metrics ''h'' [sample_metric ''m'' [''a'', ''b'', ''c'']]"
  have "(case splitMetricsHalf ?md of None \<Rightarrow> False | Some _ \<Rightarrow> True)" by code_simp
  then obtain a b where s: "splitMetricsHalf ?md = Some (a, b)" by (cases "splitMetricsHalf ?md") auto
  have n: "length (dp_items ?md) = 3" by code_simp
  from split_metrics_conserves [OF s] n have "length (dp_items a @ dp_items b) = 3" by metis
  with s show ?thesis by simp
qed

text \<open>
  A batch is reported indivisible only when it is: a trace batch when it has no resource or one
  resource with at most one span, a metric batch when it has no resource, or one resource with
  no metric, or with a single metric of at most one datapoint.
\<close>

theorem split_refuses_only_indivisible:
  "(splitTracesHalf td = None \<longleftrightarrow> length td \<le> 1 \<and> leaf_count td \<le> 1) \<and>
   (splitMetricsHalf md = None \<longleftrightarrow> length md \<le> 1 \<and> leaf_count md \<le> 1 \<and> DataPointCount md \<le> 1)"
proof
  show "splitTracesHalf td = None \<longleftrightarrow> length td \<le> 1 \<and> leaf_count td \<le> 1"
    by (cases td) (auto simp: splitTracesHalf_def Let_def leaf_count_def leaves_def)
  consider "length md > 1" | "md = []" | rm where "md = [rm]"
    by (cases md; cases "tl md") auto
  then show "splitMetricsHalf md = None \<longleftrightarrow> length md \<le> 1 \<and> leaf_count md \<le> 1 \<and> DataPointCount md \<le> 1"
  proof cases
    case 3
    have n: "leaf_count md = metricCount rm"
      by (simp add: 3 metricCount_def leaf_count_def leaves_def group_leaves_def length_concat comp_def)
    consider "metricCount rm = 0" | "metricCount rm = 1" | "metricCount rm > 1" by linarith
    then show ?thesis
    proof cases
      case 1
      with n have "leaves md = []" by (simp add: leaf_count_def)
      with 1 3 n show ?thesis by (simp add: splitMetricsHalf_def DataPointCount_def)
    next
      case 2
      with split_single_None [OF 2] 3 n show ?thesis by (simp add: splitMetricsHalf_def)
    qed (use 3 n in \<open>simp add: splitMetricsHalf_def\<close>)
  qed (auto simp: splitMetricsHalf_def Let_def leaf_count_def leaves_def DataPointCount_def)
qed

end
