(* ===== verification/Encoding.thy ===== *)
theory Encoding
  imports Prelude
begin

section \<open>Wire encodings and codecs (internal/encoding)\<close>

text \<open>
  \<^verbatim>\<open>encoding.go\<close>, \<^verbatim>\<open>codec.go\<close>, \<^verbatim>\<open>otlp.go\<close> and \<^verbatim>\<open>otlpjson.go\<close>: the two OTLP encodings and the seven
  compression codecs, looked up by name.  The marshalers of pdata and the compression libraries
  are parameters, one record field per library call the code makes, each with its own error
  path; the order in which the code looks at those errors is the model's.  The lemmas say that
  what one side of the stream writes the other side reads, for each encoding and codec, under
  the round-trip law of the library in use.
\<close>

type_synonym bytes = string
type_synonym err = string

subsection \<open>Encodings\<close>

abbreviation EncodingOTLPProto :: string where "EncodingOTLPProto \<equiv> ''otlp_proto''"
abbreviation EncodingOTLPJSON :: string where "EncodingOTLPJSON \<equiv> ''otlp_json''"

text \<open>The request methods of \<^verbatim>\<open>ptraceotlp\<close>, \<^verbatim>\<open>pmetricotlp\<close> and \<^verbatim>\<open>plogotlp\<close>, for a signal \<open>'d\<close>.\<close>

record 'd otlp_lib =
  MarshalProto :: "'d \<Rightarrow> err + bytes"
  UnmarshalProto :: "bytes \<Rightarrow> err + 'd"
  MarshalJSON :: "'d \<Rightarrow> err + bytes"
  UnmarshalJSON :: "bytes \<Rightarrow> err + 'd"

datatype traces_format = otlpProtoTraces | otlpJSONTraces
datatype metrics_format = otlpProtoMetrics | otlpJSONMetrics
datatype logs_format = otlpProtoLogs | otlpJSONLogs

text \<open>The methods of the six format types, in the order of the two files.\<close>

definition otlpProtoTraces_Marshal :: "'d otlp_lib \<Rightarrow> 'd \<Rightarrow> err + bytes" where
  "otlpProtoTraces_Marshal lib td = MarshalProto lib td"

definition otlpProtoTraces_Unmarshal :: "'d otlp_lib \<Rightarrow> bytes \<Rightarrow> err + 'd" where
  "otlpProtoTraces_Unmarshal lib buf = (case UnmarshalProto lib buf of Inl e \<Rightarrow> Inl e | Inr req \<Rightarrow> Inr req)"

definition otlpProtoMetrics_Marshal :: "'d otlp_lib \<Rightarrow> 'd \<Rightarrow> err + bytes" where
  "otlpProtoMetrics_Marshal lib md = MarshalProto lib md"

definition otlpProtoMetrics_Unmarshal :: "'d otlp_lib \<Rightarrow> bytes \<Rightarrow> err + 'd" where
  "otlpProtoMetrics_Unmarshal lib buf = (case UnmarshalProto lib buf of Inl e \<Rightarrow> Inl e | Inr req \<Rightarrow> Inr req)"

definition otlpProtoLogs_Marshal :: "'d otlp_lib \<Rightarrow> 'd \<Rightarrow> err + bytes" where
  "otlpProtoLogs_Marshal lib ld = MarshalProto lib ld"

definition otlpProtoLogs_Unmarshal :: "'d otlp_lib \<Rightarrow> bytes \<Rightarrow> err + 'd" where
  "otlpProtoLogs_Unmarshal lib buf = (case UnmarshalProto lib buf of Inl e \<Rightarrow> Inl e | Inr req \<Rightarrow> Inr req)"

definition otlpJSONTraces_Marshal :: "'d otlp_lib \<Rightarrow> 'd \<Rightarrow> err + bytes" where
  "otlpJSONTraces_Marshal lib td = MarshalJSON lib td"

definition otlpJSONTraces_Unmarshal :: "'d otlp_lib \<Rightarrow> bytes \<Rightarrow> err + 'd" where
  "otlpJSONTraces_Unmarshal lib buf = (case UnmarshalJSON lib buf of Inl e \<Rightarrow> Inl e | Inr req \<Rightarrow> Inr req)"

definition otlpJSONMetrics_Marshal :: "'d otlp_lib \<Rightarrow> 'd \<Rightarrow> err + bytes" where
  "otlpJSONMetrics_Marshal lib md = MarshalJSON lib md"

definition otlpJSONMetrics_Unmarshal :: "'d otlp_lib \<Rightarrow> bytes \<Rightarrow> err + 'd" where
  "otlpJSONMetrics_Unmarshal lib buf = (case UnmarshalJSON lib buf of Inl e \<Rightarrow> Inl e | Inr req \<Rightarrow> Inr req)"

definition otlpJSONLogs_Marshal :: "'d otlp_lib \<Rightarrow> 'd \<Rightarrow> err + bytes" where
  "otlpJSONLogs_Marshal lib ld = MarshalJSON lib ld"

definition otlpJSONLogs_Unmarshal :: "'d otlp_lib \<Rightarrow> bytes \<Rightarrow> err + 'd" where
  "otlpJSONLogs_Unmarshal lib buf = (case UnmarshalJSON lib buf of Inl e \<Rightarrow> Inl e | Inr req \<Rightarrow> Inr req)"

text \<open>The interface values \<^verbatim>\<open>NewTracesEncoder\<close> and its siblings hand out dispatch on the format.\<close>

fun Traces_Marshal :: "'d otlp_lib \<Rightarrow> traces_format \<Rightarrow> 'd \<Rightarrow> err + bytes" where
  "Traces_Marshal lib otlpProtoTraces td = otlpProtoTraces_Marshal lib td"
| "Traces_Marshal lib otlpJSONTraces td = otlpJSONTraces_Marshal lib td"

fun Traces_Unmarshal :: "'d otlp_lib \<Rightarrow> traces_format \<Rightarrow> bytes \<Rightarrow> err + 'd" where
  "Traces_Unmarshal lib otlpProtoTraces buf = otlpProtoTraces_Unmarshal lib buf"
| "Traces_Unmarshal lib otlpJSONTraces buf = otlpJSONTraces_Unmarshal lib buf"

fun Metrics_Marshal :: "'d otlp_lib \<Rightarrow> metrics_format \<Rightarrow> 'd \<Rightarrow> err + bytes" where
  "Metrics_Marshal lib otlpProtoMetrics md = otlpProtoMetrics_Marshal lib md"
| "Metrics_Marshal lib otlpJSONMetrics md = otlpJSONMetrics_Marshal lib md"

fun Metrics_Unmarshal :: "'d otlp_lib \<Rightarrow> metrics_format \<Rightarrow> bytes \<Rightarrow> err + 'd" where
  "Metrics_Unmarshal lib otlpProtoMetrics buf = otlpProtoMetrics_Unmarshal lib buf"
| "Metrics_Unmarshal lib otlpJSONMetrics buf = otlpJSONMetrics_Unmarshal lib buf"

fun Logs_Marshal :: "'d otlp_lib \<Rightarrow> logs_format \<Rightarrow> 'd \<Rightarrow> err + bytes" where
  "Logs_Marshal lib otlpProtoLogs ld = otlpProtoLogs_Marshal lib ld"
| "Logs_Marshal lib otlpJSONLogs ld = otlpJSONLogs_Marshal lib ld"

fun Logs_Unmarshal :: "'d otlp_lib \<Rightarrow> logs_format \<Rightarrow> bytes \<Rightarrow> err + 'd" where
  "Logs_Unmarshal lib otlpProtoLogs buf = otlpProtoLogs_Unmarshal lib buf"
| "Logs_Unmarshal lib otlpJSONLogs buf = otlpJSONLogs_Unmarshal lib buf"

lemmas format_defs =
  otlpProtoTraces_Marshal_def
  otlpProtoTraces_Unmarshal_def
  otlpProtoMetrics_Marshal_def
  otlpProtoMetrics_Unmarshal_def
  otlpProtoLogs_Marshal_def
  otlpProtoLogs_Unmarshal_def
  otlpJSONTraces_Marshal_def
  otlpJSONTraces_Unmarshal_def
  otlpJSONMetrics_Marshal_def
  otlpJSONMetrics_Unmarshal_def
  otlpJSONLogs_Marshal_def
  otlpJSONLogs_Unmarshal_def

declare format_defs [simp]

text \<open>Error texts are kept up to the quoting that \<^verbatim>\<open>%q\<close> adds around a name.\<close>

definition unknown_encoding :: "string \<Rightarrow> err" where
  "unknown_encoding e = ''unknown encoding '' @ e"

definition NewTracesEncoder :: "string \<Rightarrow> err + traces_format" where
  "NewTracesEncoder e =
     (if e = EncodingOTLPProto then Inr otlpProtoTraces
      else if e = EncodingOTLPJSON then Inr otlpJSONTraces
      else Inl (unknown_encoding e))"

definition NewTracesDecoder :: "string \<Rightarrow> err + traces_format" where
  "NewTracesDecoder e =
     (if e = EncodingOTLPProto then Inr otlpProtoTraces
      else if e = EncodingOTLPJSON then Inr otlpJSONTraces
      else Inl (unknown_encoding e))"

definition NewMetricsEncoder :: "string \<Rightarrow> err + metrics_format" where
  "NewMetricsEncoder e =
     (if e = EncodingOTLPProto then Inr otlpProtoMetrics
      else if e = EncodingOTLPJSON then Inr otlpJSONMetrics
      else Inl (unknown_encoding e))"

definition NewMetricsDecoder :: "string \<Rightarrow> err + metrics_format" where
  "NewMetricsDecoder e =
     (if e = EncodingOTLPProto then Inr otlpProtoMetrics
      else if e = EncodingOTLPJSON then Inr otlpJSONMetrics
      else Inl (unknown_encoding e))"

definition NewLogsEncoder :: "string \<Rightarrow> err + logs_format" where
  "NewLogsEncoder e =
     (if e = EncodingOTLPProto then Inr otlpProtoLogs
      else if e = EncodingOTLPJSON then Inr otlpJSONLogs
      else Inl (unknown_encoding e))"

definition NewLogsDecoder :: "string \<Rightarrow> err + logs_format" where
  "NewLogsDecoder e =
     (if e = EncodingOTLPProto then Inr otlpProtoLogs
      else if e = EncodingOTLPJSON then Inr otlpJSONLogs
      else Inl (unknown_encoding e))"

subsection \<open>Codecs\<close>

abbreviation CodecNone :: string where "CodecNone \<equiv> ''none''"
abbreviation CodecGzip :: string where "CodecGzip \<equiv> ''gzip''"
abbreviation CodecZstd :: string where "CodecZstd \<equiv> ''zstd''"
abbreviation CodecSnappy :: string where "CodecSnappy \<equiv> ''snappy''"
abbreviation CodecSnappyFramed :: string where "CodecSnappyFramed \<equiv> ''x-snappy-framed''"
abbreviation CodecZlib :: string where "CodecZlib \<equiv> ''zlib''"
abbreviation CodecDeflate :: string where "CodecDeflate \<equiv> ''deflate''"

text \<open>
  A stream library: a writer over a fresh buffer that is written once and closed, and a reader
  that is opened, read to the end and closed.  Its states are byte strings.  A block library
  encodes and decodes whole buffers.
\<close>

record stream_lib =
  sl_NewWriter :: "err option"
  sl_Write :: "bytes \<Rightarrow> err + bytes"
  sl_CloseWriter :: "bytes \<Rightarrow> err + bytes"
  sl_NewReader :: "bytes \<Rightarrow> err + bytes"
  sl_ReadAll :: "bytes \<Rightarrow> bytes \<times> err option"
  sl_CloseReader :: "bytes \<Rightarrow> err option"

record block_lib =
  bl_Encode :: "bytes \<Rightarrow> bytes"
  bl_Decode :: "bytes \<Rightarrow> err + bytes"

record codec_lib =
  lib_gzip :: stream_lib
  lib_zlib :: stream_lib
  lib_flate :: stream_lib
  lib_framed :: stream_lib
  lib_zstd :: block_lib
  lib_snappy :: block_lib

datatype compressor =
  noneCodec | gzipCodec | zstdCodec | snappyCodec | snappyFramedCodec | zlibCodec | deflateCodec

definition write_close :: "stream_lib \<Rightarrow> string \<Rightarrow> bytes \<Rightarrow> err + bytes" where
  "write_close l nm inp =
     (case sl_Write l inp of
        Inl e \<Rightarrow> Inl (nm @ '' write: '' @ e)
      | Inr w \<Rightarrow> (case sl_CloseWriter l w of
            Inl e \<Rightarrow> Inl (nm @ '' close: '' @ e)
          | Inr out \<Rightarrow> Inr out))"

text \<open>\<^verbatim>\<open>io.ReadAll\<close> and then \<^verbatim>\<open>Close\<close>: the read error wins, the close error counts only without one.\<close>

definition read_close :: "stream_lib \<Rightarrow> string \<Rightarrow> bytes \<Rightarrow> err + bytes" where
  "read_close l nm r =
     (let (out, e) = sl_ReadAll l r;
          cerr = sl_CloseReader l r;
          e = (if e = None then cerr else e)
      in case e of Some e \<Rightarrow> Inl (nm @ '' read: '' @ e) | None \<Rightarrow> Inr out)"

definition gzip_Compress :: "codec_lib \<Rightarrow> bytes \<Rightarrow> err + bytes" where
  "gzip_Compress lib inp = write_close (lib_gzip lib) ''gzip'' inp"

definition gzip_Decompress :: "codec_lib \<Rightarrow> bytes \<Rightarrow> err + bytes" where
  "gzip_Decompress lib inp =
     (case sl_NewReader (lib_gzip lib) inp of
        Inl e \<Rightarrow> Inl (''gzip open: '' @ e)
      | Inr r \<Rightarrow> read_close (lib_gzip lib) ''gzip'' r)"

definition zstd_Compress :: "codec_lib \<Rightarrow> bytes \<Rightarrow> err + bytes" where
  "zstd_Compress lib inp = Inr (bl_Encode (lib_zstd lib) inp)"

definition zstd_Decompress :: "codec_lib \<Rightarrow> bytes \<Rightarrow> err + bytes" where
  "zstd_Decompress lib inp =
     (case bl_Decode (lib_zstd lib) inp of Inl e \<Rightarrow> Inl (''zstd decode: '' @ e) | Inr out \<Rightarrow> Inr out)"

definition snappy_Compress :: "codec_lib \<Rightarrow> bytes \<Rightarrow> err + bytes" where
  "snappy_Compress lib inp = Inr (bl_Encode (lib_snappy lib) inp)"

definition snappy_Decompress :: "codec_lib \<Rightarrow> bytes \<Rightarrow> err + bytes" where
  "snappy_Decompress lib inp =
     (case bl_Decode (lib_snappy lib) inp of Inl e \<Rightarrow> Inl (''snappy decode: '' @ e) | Inr out \<Rightarrow> Inr out)"

definition snappyFramed_Compress :: "codec_lib \<Rightarrow> bytes \<Rightarrow> err + bytes" where
  "snappyFramed_Compress lib inp = write_close (lib_framed lib) ''snappy-framed'' inp"

text \<open>\<^verbatim>\<open>snappy.NewReader\<close> returns no error and its reader is not closed.\<close>

definition snappyFramed_Decompress :: "codec_lib \<Rightarrow> bytes \<Rightarrow> err + bytes" where
  "snappyFramed_Decompress lib inp =
     (case sl_ReadAll (lib_framed lib) inp of
        (out, Some e) \<Rightarrow> Inl (''snappy-framed read: '' @ e)
      | (out, None) \<Rightarrow> Inr out)"

definition zlib_Compress :: "codec_lib \<Rightarrow> bytes \<Rightarrow> err + bytes" where
  "zlib_Compress lib inp = write_close (lib_zlib lib) ''zlib'' inp"

definition zlib_Decompress :: "codec_lib \<Rightarrow> bytes \<Rightarrow> err + bytes" where
  "zlib_Decompress lib inp =
     (case sl_NewReader (lib_zlib lib) inp of
        Inl e \<Rightarrow> Inl (''zlib open: '' @ e)
      | Inr r \<Rightarrow> read_close (lib_zlib lib) ''zlib'' r)"

definition deflate_Compress :: "codec_lib \<Rightarrow> bytes \<Rightarrow> err + bytes" where
  "deflate_Compress lib inp =
     (case sl_NewWriter (lib_flate lib) of
        Some e \<Rightarrow> Inl (''deflate writer: '' @ e)
      | None \<Rightarrow> write_close (lib_flate lib) ''deflate'' inp)"

text \<open>\<^verbatim>\<open>flate.NewReader\<close> returns no error.\<close>

definition deflate_Decompress :: "codec_lib \<Rightarrow> bytes \<Rightarrow> err + bytes" where
  "deflate_Decompress lib inp = read_close (lib_flate lib) ''deflate'' inp"

fun Compress :: "codec_lib \<Rightarrow> compressor \<Rightarrow> bytes \<Rightarrow> err + bytes" where
  "Compress lib noneCodec inp = Inr inp"
| "Compress lib gzipCodec inp = gzip_Compress lib inp"
| "Compress lib zstdCodec inp = zstd_Compress lib inp"
| "Compress lib snappyCodec inp = snappy_Compress lib inp"
| "Compress lib snappyFramedCodec inp = snappyFramed_Compress lib inp"
| "Compress lib zlibCodec inp = zlib_Compress lib inp"
| "Compress lib deflateCodec inp = deflate_Compress lib inp"

fun Decompress :: "codec_lib \<Rightarrow> compressor \<Rightarrow> bytes \<Rightarrow> err + bytes" where
  "Decompress lib noneCodec inp = Inr inp"
| "Decompress lib gzipCodec inp = gzip_Decompress lib inp"
| "Decompress lib zstdCodec inp = zstd_Decompress lib inp"
| "Decompress lib snappyCodec inp = snappy_Decompress lib inp"
| "Decompress lib snappyFramedCodec inp = snappyFramed_Decompress lib inp"
| "Decompress lib zlibCodec inp = zlib_Decompress lib inp"
| "Decompress lib deflateCodec inp = deflate_Decompress lib inp"

definition NewCompressor :: "string \<Rightarrow> err + compressor" where
  "NewCompressor c =
     (if c = CodecNone then Inr noneCodec
      else if c = CodecGzip then Inr gzipCodec
      else if c = CodecZstd then Inr zstdCodec
      else if c = CodecSnappy then Inr snappyCodec
      else if c = CodecSnappyFramed then Inr snappyFramedCodec
      else if c = CodecZlib then Inr zlibCodec
      else if c = CodecDeflate then Inr deflateCodec
      else Inl (''unknown codec '' @ c))"

subsection \<open>Round trips\<close>

text \<open>
  What the code relies on from the libraries: a closed writer leaves bytes from which a reader
  opens, yields exactly what was written and closes without error.  (\<open>opens\<close> is false for the
  libraries whose reader constructor cannot fail and so reads the buffer itself.)
\<close>

definition stream_law :: "bool \<Rightarrow> stream_lib \<Rightarrow> bool" where
  "stream_law opens l \<longleftrightarrow> (\<forall>inp w out. sl_Write l inp = Inr w \<and> sl_CloseWriter l w = Inr out \<longrightarrow>
     (\<exists>r. (if opens then sl_NewReader l out = Inr r else r = out) \<and>
        sl_ReadAll l r = (inp, None) \<and> sl_CloseReader l r = None))"

definition block_law :: "block_lib \<Rightarrow> bool" where
  "block_law l \<longleftrightarrow> (\<forall>inp. bl_Decode l (bl_Encode l inp) = Inr inp)"

definition codec_laws :: "codec_lib \<Rightarrow> bool" where
  "codec_laws lib \<longleftrightarrow> stream_law True (lib_gzip lib) \<and> stream_law True (lib_zlib lib) \<and>
     stream_law False (lib_flate lib) \<and> stream_law False (lib_framed lib) \<and>
     block_law (lib_zstd lib) \<and> block_law (lib_snappy lib)"

definition otlp_laws :: "'d otlp_lib \<Rightarrow> bool" where
  "otlp_laws lib \<longleftrightarrow> (\<forall>d b. MarshalProto lib d = Inr b \<longrightarrow> UnmarshalProto lib b = Inr d) \<and>
     (\<forall>d b. MarshalJSON lib d = Inr b \<longrightarrow> UnmarshalJSON lib b = Inr d)"

lemma write_read:
  assumes "stream_law opens l" "write_close l nm inp = Inr out"
  obtains r where "if opens then sl_NewReader l out = Inr r else r = out"
    "read_close l nm r = Inr inp" "sl_ReadAll l r = (inp, None)"
proof -
  obtain w where "sl_Write l inp = Inr w" "sl_CloseWriter l w = Inr out"
    using assms(2) by (auto simp: write_close_def split: sum.splits)
  with assms(1) obtain r where "if opens then sl_NewReader l out = Inr r else r = out"
    "sl_ReadAll l r = (inp, None)" "sl_CloseReader l r = None"
    unfolding stream_law_def by blast
  then show thesis by (intro that [of r]) (auto simp: read_close_def)
qed

lemma read_opened:
  assumes "stream_law True l" "write_close l nm inp = Inr out"
  shows "(case sl_NewReader l out of Inl e \<Rightarrow> Inl (f e) | Inr r \<Rightarrow> read_close l nm r) = Inr inp"
  by (rule write_read [OF assms]) simp

lemma read_direct:
  assumes "stream_law False l" "write_close l nm inp = Inr out"
  shows "read_close l nm out = Inr inp" "sl_ReadAll l out = (inp, None)"
  by (rule write_read [OF assms], simp)+

lemma Decompress_Compress:
  assumes laws: "codec_laws lib" and c: "Compress lib c inp = Inr out"
  shows "Decompress lib c out = Inr inp"
proof -
  note l = laws [unfolded codec_laws_def]
  show ?thesis
  proof (cases c)
    case gzipCodec
    with c l show ?thesis
      by (simp add: gzip_Compress_def gzip_Decompress_def read_opened)
  next
    case zlibCodec
    with c l show ?thesis
      by (simp add: zlib_Compress_def zlib_Decompress_def read_opened)
  next
    case deflateCodec
    with c l show ?thesis
      by (simp add: deflate_Compress_def deflate_Decompress_def read_direct split: option.splits)
  next
    case snappyFramedCodec
    with c l show ?thesis
      by (simp add: snappyFramed_Compress_def snappyFramed_Decompress_def read_direct)
  qed (use c l in \<open>auto simp: zstd_Compress_def zstd_Decompress_def snappy_Compress_def
      snappy_Decompress_def block_law_def\<close>)
qed

text \<open>
  Every codec the configuration can name is its own inverse pair: what the exporter's
  compressor produced without error, the receiver's compressor of the same name restores.
\<close>

theorem codec_roundtrip:
  assumes "codec_laws lib" "NewCompressor name = Inr c" "Compress lib c inp = Inr out"
  shows "\<exists>d. NewCompressor name = Inr d \<and> Decompress lib d out = Inr inp"
  using assms Decompress_Compress by blast

text \<open>A library instance for the witnesses: a one-byte header in front of the data.\<close>

definition tag_stream :: "char \<Rightarrow> stream_lib" where
  "tag_stream c = \<lparr>sl_NewWriter = None, sl_Write = Inr, sl_CloseWriter = (\<lambda>w. Inr (c # w)),
     sl_NewReader = (\<lambda>b. case b of [] \<Rightarrow> Inl ''EOF'' | h # t \<Rightarrow> if h = c then Inr t else Inl ''header''),
     sl_ReadAll = (\<lambda>r. (r, None)), sl_CloseReader = (\<lambda>_. None)\<rparr>"

definition raw_stream :: "char \<Rightarrow> stream_lib" where
  "raw_stream c = \<lparr>sl_NewWriter = None, sl_Write = Inr, sl_CloseWriter = (\<lambda>w. Inr (c # w)),
     sl_NewReader = Inr, sl_ReadAll = (\<lambda>r. (tl r, None)), sl_CloseReader = (\<lambda>_. None)\<rparr>"

definition rev_block :: block_lib where
  "rev_block = \<lparr>bl_Encode = rev, bl_Decode = (\<lambda>b. Inr (rev b))\<rparr>"

definition sample_lib :: codec_lib where
  "sample_lib = \<lparr>lib_gzip = tag_stream CHR ''g'', lib_zlib = tag_stream CHR ''z'',
     lib_flate = raw_stream CHR ''f'', lib_framed = raw_stream CHR ''s'',
     lib_zstd = rev_block, lib_snappy = rev_block\<rparr>"

lemma sample_lib_laws: "codec_laws sample_lib"
  by (simp add: codec_laws_def sample_lib_def stream_law_def block_law_def tag_stream_def
      raw_stream_def rev_block_def)

theorem codec_roundtrip_witness:
  "Compress sample_lib gzipCodec ''abc'' = Inr ''gabc'' \<and>
   (\<exists>d. NewCompressor ''gzip'' = Inr d \<and> Decompress sample_lib d ''gabc'' = Inr ''abc'')"
proof -
  have n: "NewCompressor ''gzip'' = Inr gzipCodec" by code_simp
  have c: "Compress sample_lib gzipCodec ''abc'' = Inr ''gabc''" by code_simp
  from codec_roundtrip [OF sample_lib_laws n c] c show ?thesis by simp
qed

text \<open>
  A name is accepted for all three signals and both directions or for none, and the
  decoder the receiver builds from it reads what the exporter's encoder wrote: so validating
  the traces encoder alone, as both configurations do, covers metrics and logs.
\<close>

theorem encoding_roundtrip:
  fixes lt :: "'t otlp_lib" and lm :: "'m otlp_lib" and ll :: "'l otlp_lib"
  assumes "NewTracesEncoder name = Inr te" "otlp_laws lt" "otlp_laws lm" "otlp_laws ll"
  shows "\<exists>me le. NewMetricsEncoder name = Inr me \<and> NewLogsEncoder name = Inr le \<and>
    NewTracesDecoder name = Inr te \<and> NewMetricsDecoder name = Inr me \<and> NewLogsDecoder name = Inr le \<and>
    (\<forall>td buf. Traces_Marshal lt te td = Inr buf \<longrightarrow> Traces_Unmarshal lt te buf = Inr td) \<and>
    (\<forall>md buf. Metrics_Marshal lm me md = Inr buf \<longrightarrow> Metrics_Unmarshal lm me buf = Inr md) \<and>
    (\<forall>ld buf. Logs_Marshal ll le ld = Inr buf \<longrightarrow> Logs_Unmarshal ll le buf = Inr ld)"
proof -
  consider "name = EncodingOTLPProto" "te = otlpProtoTraces"
    | "name = EncodingOTLPJSON" "te = otlpJSONTraces"
    using assms(1) by (auto simp: NewTracesEncoder_def split: if_splits)
  then show ?thesis
    using assms(2-4)
    by cases (auto simp: NewMetricsEncoder_def NewLogsEncoder_def NewTracesDecoder_def
        NewMetricsDecoder_def NewLogsDecoder_def otlp_laws_def)
qed

definition text_otlp :: "string otlp_lib" where
  "text_otlp = \<lparr>MarshalProto = (\<lambda>d. Inr (CHR ''p'' # d)), UnmarshalProto = (\<lambda>b. Inr (tl b)),
     MarshalJSON = (\<lambda>d. Inr (CHR ''j'' # d)), UnmarshalJSON = (\<lambda>b. Inr (tl b))\<rparr>"

lemma text_otlp_laws: "otlp_laws text_otlp"
  by (simp add: otlp_laws_def text_otlp_def)

theorem encoding_roundtrip_witness:
  "Traces_Marshal text_otlp otlpJSONTraces ''x'' = Inr ''jx'' \<and>
   Traces_Unmarshal text_otlp otlpJSONTraces ''jx'' = Inr ''x''"
proof -
  have n: "NewTracesEncoder ''otlp_json'' = Inr otlpJSONTraces" by code_simp
  have m: "Traces_Marshal text_otlp otlpJSONTraces ''x'' = Inr ''jx''" by code_simp
  from encoding_roundtrip [OF n text_otlp_laws text_otlp_laws text_otlp_laws] m show ?thesis by blast
qed

end
