(* ===== verification/ExporterConfig.thy ===== *)
theory ExporterConfig
  imports Encoding
begin

section \<open>The exporter's configuration (config.go, factory.go)\<close>

text \<open>
  \<^verbatim>\<open>exporter/awskinesisexporter/config.go\<close>: the configuration records, \<open>Validate\<close> with one
  error value per early return (carrying the arguments of its message), and the derived
  \<open>tagHash\<close>, \<open>strategy\<close> and \<open>keyOverhead\<close>.  The collector's own timeout, queue and retry
  sections are handed to \<^verbatim>\<open>exporterhelper\<close> unread; of them only the timeout the factory sets
  is kept.  \<^verbatim>\<open>regexp.Compile\<close> is a parameter.  Go's \<^verbatim>\<open>int\<close> fields are \<open>int\<close>: \<open>Validate\<close> compares
  them and computes nothing.  The theorems say exactly which configurations are accepted.
\<close>

record 're regexp_lib =
  Compile :: "string \<Rightarrow> err + 're"
  FindStringSubmatch :: "'re \<Rightarrow> string \<Rightarrow> string list option"

record PutRecordsConfig =
  pr_MaxRecords :: int
  pr_MaxBytes :: int

record PartitionKeySource =
  ks_Source :: string
  ks_Name :: string
  ks_Regex :: string
  ks_Promote :: string

record PartitionKeyConfig =
  pk_Strategy :: string
  pk_Tags :: "string list"
  pk_Keys :: "PartitionKeySource list"
  pk_Hash :: string

record OversizeConfig =
  os_LegacyPolicy :: "string option"
  os_Policies :: "string list"
  os_MaxAttempts :: int
  os_MaxAttributeValueBytes :: int

record Config =
  cfg_Timeout :: int64
  cfg_StreamName :: string
  cfg_Region :: string
  cfg_Endpoint :: string
  cfg_Encoding :: string
  cfg_Compression :: string
  cfg_MaxRecordSize :: int
  cfg_PartitionKey :: PartitionKeyConfig
  cfg_Oversize :: OversizeConfig
  cfg_PutRecords :: PutRecordsConfig

abbreviation partitionStrategyRandom :: string where "partitionStrategyRandom \<equiv> ''random''"
abbreviation partitionStrategyTagHash :: string where "partitionStrategyTagHash \<equiv> ''tag_hash''"
abbreviation hashXXHash :: string where "hashXXHash \<equiv> ''xxhash''"
abbreviation keySourceResource :: string where "keySourceResource \<equiv> ''resource''"
abbreviation keySourceDatapoint :: string where "keySourceDatapoint \<equiv> ''datapoint''"
abbreviation keySourceMetricName :: string where "keySourceMetricName \<equiv> ''metric_name''"
abbreviation oversizeSplitHalf :: string where "oversizeSplitHalf \<equiv> ''split_half''"
abbreviation oversizeTruncateAttrs :: string where "oversizeTruncateAttrs \<equiv> ''truncate_attribute_values''"
abbreviation oversizeReject :: string where "oversizeReject \<equiv> ''reject''"

datatype config_error =
    StreamNameRequired
  | RegionRequired
  | BadEncoding err
  | BadCompression err
  | MaxRecordSizeNotPositive
  | MaxRecordSizeWithinKey int int string
  | MaxRecordsNotPositive
  | MaxRecordsAbove500
  | MaxBytesNotPositive
  | MaxRecordSizeAboveMaxBytes
  | TagsAndKeysExclusive
  | TagsOrKeysRequired
  | KeyNameRequired nat string
  | KeyNameMustBeEmpty nat string
  | UnknownKeySource nat string
  | InvalidRegex nat err
  | UnknownStrategy string
  | UnknownHash string
  | LegacyPolicySet string
  | NoPolicies
  | PolicyTerminatesChain nat string
  | UnknownPolicy string
  | MaxAttemptsNotPositive
  | MaxAttributeValueBytesNotPositive

definition tagHash :: "Config \<Rightarrow> bool" where
  "tagHash c \<longleftrightarrow> pk_Strategy (cfg_PartitionKey c) = partitionStrategyTagHash"

definition strategy :: "Config \<Rightarrow> string" where
  "strategy c = (if tagHash c then partitionStrategyTagHash else partitionStrategyRandom)"

definition keyOverhead :: "Config \<Rightarrow> int" where
  "keyOverhead c = (if tagHash c then 16 else 36)"

text \<open>The loop over \<^verbatim>\<open>partition_key.keys\<close>, \<open>i\<close> its index.\<close>

definition validate_key :: "'re regexp_lib \<Rightarrow> nat \<Rightarrow> PartitionKeySource \<Rightarrow> config_error option" where
  "validate_key lib i ks =
     (let src = (if ks_Source ks = [] then keySourceResource else ks_Source ks);
          named = (if src = keySourceResource \<or> src = keySourceDatapoint
                   then (if ks_Name ks = [] then Some (KeyNameRequired i src) else None)
                   else if src = keySourceMetricName
                   then (if ks_Name ks \<noteq> [] then Some (KeyNameMustBeEmpty i src) else None)
                   else Some (UnknownKeySource i src))
      in case named of
           Some e \<Rightarrow> Some e
         | None \<Rightarrow> (if ks_Regex ks \<noteq> []
                   then (case Compile lib (ks_Regex ks) of Inl e \<Rightarrow> Some (InvalidRegex i e) | Inr _ \<Rightarrow> None)
                   else None))"

fun validate_keys :: "'re regexp_lib \<Rightarrow> nat \<Rightarrow> PartitionKeySource list \<Rightarrow> config_error option" where
  "validate_keys lib i [] = None"
| "validate_keys lib i (ks # rest) =
     (case validate_key lib i ks of Some e \<Rightarrow> Some e | None \<Rightarrow> validate_keys lib (i + 1) rest)"

definition validate_partition :: "'re regexp_lib \<Rightarrow> PartitionKeyConfig \<Rightarrow> config_error option" where
  "validate_partition lib pk =
     (if pk_Strategy pk = [] \<or> pk_Strategy pk = partitionStrategyRandom then None
      else if pk_Strategy pk = partitionStrategyTagHash
      then (let hasTags = length (pk_Tags pk) > 0; hasKeys = length (pk_Keys pk) > 0
            in if hasTags \<and> hasKeys then Some TagsAndKeysExclusive
               else if \<not> hasTags \<and> \<not> hasKeys then Some TagsOrKeysRequired
               else validate_keys lib 0 (pk_Keys pk))
      else Some (UnknownStrategy (pk_Strategy pk)))"

text \<open>The loop over \<^verbatim>\<open>oversize.policies\<close>; \<open>n\<close> is the length of the whole list.\<close>

fun validate_policies :: "nat \<Rightarrow> nat \<Rightarrow> string list \<Rightarrow> config_error option" where
  "validate_policies n i [] = None"
| "validate_policies n i (p # ps) =
     (if p = oversizeTruncateAttrs then validate_policies n (i + 1) ps
      else if p = oversizeSplitHalf \<or> p = oversizeReject
      then (if i \<noteq> n - 1 then Some (PolicyTerminatesChain i p) else validate_policies n (i + 1) ps)
      else Some (UnknownPolicy p))"

definition validate_oversize :: "OversizeConfig \<Rightarrow> config_error option" where
  "validate_oversize os =
     (case os_LegacyPolicy os of
        Some p \<Rightarrow> Some (LegacyPolicySet p)
      | None \<Rightarrow>
          (if length (os_Policies os) = 0 then Some NoPolicies
           else (case validate_policies (length (os_Policies os)) 0 (os_Policies os) of
                Some e \<Rightarrow> Some e
              | None \<Rightarrow>
                  (if os_MaxAttempts os \<le> 0 then Some MaxAttemptsNotPositive
                   else if os_MaxAttributeValueBytes os \<le> 0 then Some MaxAttributeValueBytesNotPositive
                   else None))))"

definition Validate :: "'re regexp_lib \<Rightarrow> Config \<Rightarrow> config_error option" where
  "Validate lib c =
     (if cfg_StreamName c = [] then Some StreamNameRequired
      else if cfg_Region c = [] then Some RegionRequired
      else (case NewTracesEncoder (cfg_Encoding c) of
          Inl e \<Rightarrow> Some (BadEncoding e)
        | Inr _ \<Rightarrow> (case NewCompressor (cfg_Compression c) of
            Inl e \<Rightarrow> Some (BadCompression e)
          | Inr _ \<Rightarrow>
              (if cfg_MaxRecordSize c \<le> 0 then Some MaxRecordSizeNotPositive
               else if cfg_MaxRecordSize c \<le> keyOverhead c
               then Some (MaxRecordSizeWithinKey (cfg_MaxRecordSize c) (keyOverhead c) (strategy c))
               else if pr_MaxRecords (cfg_PutRecords c) \<le> 0 then Some MaxRecordsNotPositive
               else if pr_MaxRecords (cfg_PutRecords c) > 500 then Some MaxRecordsAbove500
               else if pr_MaxBytes (cfg_PutRecords c) \<le> 0 then Some MaxBytesNotPositive
               else if cfg_MaxRecordSize c > pr_MaxBytes (cfg_PutRecords c)
               then Some MaxRecordSizeAboveMaxBytes
               else (case validate_partition lib (cfg_PartitionKey c) of
                   Some e \<Rightarrow> Some e
                 | None \<Rightarrow>
                     (if pk_Hash (cfg_PartitionKey c) \<noteq> [] \<and> pk_Hash (cfg_PartitionKey c) \<noteq> hashXXHash
                      then Some (UnknownHash (pk_Hash (cfg_PartitionKey c)))
                      else validate_oversize (cfg_Oversize c)))))))"

definition createDefaultConfig :: Config where
  "createDefaultConfig =
     \<lparr>cfg_Timeout = 30 * Second,
      cfg_StreamName = [], cfg_Region = [], cfg_Endpoint = [],
      cfg_Encoding = EncodingOTLPProto,
      cfg_Compression = CodecNone,
      cfg_MaxRecordSize = 2 ^ 20,
      cfg_PartitionKey = \<lparr>pk_Strategy = partitionStrategyRandom, pk_Tags = [], pk_Keys = [], pk_Hash = hashXXHash\<rparr>,
      cfg_Oversize = \<lparr>os_LegacyPolicy = None, os_Policies = [oversizeSplitHalf], os_MaxAttempts = 8,
        os_MaxAttributeValueBytes = 4096\<rparr>,
      cfg_PutRecords = \<lparr>pr_MaxRecords = 500, pr_MaxBytes = 5 * 2 ^ 20\<rparr>\<rparr>"

subsection \<open>What is accepted\<close>

definition key_source_ok :: "'re regexp_lib \<Rightarrow> PartitionKeySource \<Rightarrow> bool" where
  "key_source_ok lib ks \<longleftrightarrow>
     (ks_Source ks \<in> {[], keySourceResource, keySourceDatapoint} \<and> ks_Name ks \<noteq> [] \<or>
      ks_Source ks = keySourceMetricName \<and> ks_Name ks = []) \<and>
     (ks_Regex ks = [] \<or> (\<exists>re. Compile lib (ks_Regex ks) = Inr re))"

definition policy_chain :: "string list \<Rightarrow> bool" where
  "policy_chain ps \<longleftrightarrow> ps \<noteq> [] \<and> (\<forall>p\<in>set (butlast ps). p = oversizeTruncateAttrs) \<and>
     last ps \<in> {oversizeTruncateAttrs, oversizeSplitHalf, oversizeReject}"

definition partition_ok :: "'re regexp_lib \<Rightarrow> PartitionKeyConfig \<Rightarrow> bool" where
  "partition_ok lib pk \<longleftrightarrow> pk_Strategy pk \<in> {[], partitionStrategyRandom} \<or>
     pk_Strategy pk = partitionStrategyTagHash \<and> (pk_Tags pk = []) \<noteq> (pk_Keys pk = []) \<and>
       (\<forall>ks\<in>set (pk_Keys pk). key_source_ok lib ks)"

definition valid_config :: "'re regexp_lib \<Rightarrow> Config \<Rightarrow> bool" where
  "valid_config lib c \<longleftrightarrow>
     cfg_StreamName c \<noteq> [] \<and> cfg_Region c \<noteq> [] \<and>
     cfg_Encoding c \<in> {EncodingOTLPProto, EncodingOTLPJSON} \<and>
     cfg_Compression c \<in> {CodecNone, CodecGzip, CodecZstd, CodecSnappy, CodecSnappyFramed, CodecZlib, CodecDeflate} \<and>
     keyOverhead c < cfg_MaxRecordSize c \<and> cfg_MaxRecordSize c \<le> pr_MaxBytes (cfg_PutRecords c) \<and>
     1 \<le> pr_MaxRecords (cfg_PutRecords c) \<and> pr_MaxRecords (cfg_PutRecords c) \<le> 500 \<and>
     partition_ok lib (cfg_PartitionKey c) \<and>
     pk_Hash (cfg_PartitionKey c) \<in> {[], hashXXHash} \<and>
     os_LegacyPolicy (cfg_Oversize c) = None \<and> policy_chain (os_Policies (cfg_Oversize c)) \<and>
     0 < os_MaxAttempts (cfg_Oversize c) \<and> 0 < os_MaxAttributeValueBytes (cfg_Oversize c)"

lemma validate_key_None: "validate_key lib i ks = None \<longleftrightarrow> key_source_ok lib ks"
  by (auto simp: validate_key_def key_source_ok_def Let_def split: sum.splits)

lemma validate_keys_None: "validate_keys lib i kss = None \<longleftrightarrow> (\<forall>ks\<in>set kss. key_source_ok lib ks)"
proof (induction kss arbitrary: i)
  case (Cons ks kss)
  then show ?case
    using validate_key_None [of lib i ks] by (cases "validate_key lib i ks") auto
qed simp

lemma validate_policies_None:
  "i + length ps = n \<Longrightarrow> validate_policies n i ps = None \<longleftrightarrow> ps = [] \<or> policy_chain ps"
  by (induction n i ps rule: validate_policies.induct) (auto simp: policy_chain_def)

lemma validate_partition_None: "validate_partition lib pk = None \<longleftrightarrow> partition_ok lib pk"
  by (auto simp: validate_partition_def partition_ok_def Let_def validate_keys_None)

lemma validate_oversize_None:
  "validate_oversize os = None \<longleftrightarrow> os_LegacyPolicy os = None \<and> policy_chain (os_Policies os) \<and>
     0 < os_MaxAttempts os \<and> 0 < os_MaxAttributeValueBytes os"
  using validate_policies_None [of 0 "os_Policies os" "length (os_Policies os)"]
  by (auto simp: validate_oversize_def policy_chain_def split: option.splits)

lemma encoder_known: "(\<exists>e. NewTracesEncoder nm = Inr e) \<longleftrightarrow> nm \<in> {EncodingOTLPProto, EncodingOTLPJSON}"
  by (simp add: NewTracesEncoder_def)

lemma codec_known:
  "(\<exists>e. NewCompressor nm = Inr e) \<longleftrightarrow>
     nm \<in> {CodecNone, CodecGzip, CodecZstd, CodecSnappy, CodecSnappyFramed, CodecZlib, CodecDeflate}"
  by (simp add: NewCompressor_def)

lemma Validate_valid_config: "Validate lib c = None \<longleftrightarrow> valid_config lib c"
proof -
  have enc: "(case NewTracesEncoder nm of Inl e \<Rightarrow> Some (f e) | Inr _ \<Rightarrow> r) = None \<longleftrightarrow>
      nm \<in> {EncodingOTLPProto, EncodingOTLPJSON} \<and> r = None" for nm r and f :: "string \<Rightarrow> config_error"
    using encoder_known [of nm] by (auto split: sum.splits)
  have com: "(case NewCompressor nm of Inl e \<Rightarrow> Some (f e) | Inr _ \<Rightarrow> r) = None \<longleftrightarrow>
      nm \<in> {CodecNone, CodecGzip, CodecZstd, CodecSnappy, CodecSnappyFramed, CodecZlib, CodecDeflate} \<and> r = None"
    for nm r and f :: "string \<Rightarrow> config_error"
    using codec_known [of nm] by (auto split: sum.splits)
  have opt: "(case x of Some e \<Rightarrow> Some e | None \<Rightarrow> r) = None \<longleftrightarrow> x = None \<and> r = None"
    for x r :: "config_error option"
    by (cases x) simp_all
  have pos: "0 < keyOverhead c" by (simp add: keyOverhead_def)
  show ?thesis
    unfolding Validate_def valid_config_def enc com opt validate_partition_None validate_oversize_None
    using pos by (auto simp: enc com opt validate_partition_None validate_oversize_None split: if_splits)
qed

text \<open>
  C32.  Validate accepts exactly these configurations: a stream and region, a known encoding and
  codec, a record limit above the key overhead and within the call's byte limit, 1 to 500
  records a call, a known strategy with tags or keys but not both and well-formed key sources,
  no legacy policy, and a chain of truncations that may end in one terminal policy, with
  positive limits.
\<close>

theorem validate_accepts_exactly:
  "Validate lib c = None \<longleftrightarrow>
     cfg_StreamName c \<noteq> [] \<and> cfg_Region c \<noteq> [] \<and>
     cfg_Encoding c \<in> {EncodingOTLPProto, EncodingOTLPJSON} \<and>
     cfg_Compression c \<in> {CodecNone, CodecGzip, CodecZstd, CodecSnappy, CodecSnappyFramed, CodecZlib, CodecDeflate} \<and>
     keyOverhead c < cfg_MaxRecordSize c \<and> cfg_MaxRecordSize c \<le> pr_MaxBytes (cfg_PutRecords c) \<and>
     1 \<le> pr_MaxRecords (cfg_PutRecords c) \<and> pr_MaxRecords (cfg_PutRecords c) \<le> 500 \<and>
     partition_ok lib (cfg_PartitionKey c) \<and>
     pk_Hash (cfg_PartitionKey c) \<in> {[], hashXXHash} \<and>
     os_LegacyPolicy (cfg_Oversize c) = None \<and> policy_chain (os_Policies (cfg_Oversize c)) \<and>
     0 < os_MaxAttempts (cfg_Oversize c) \<and> 0 < os_MaxAttributeValueBytes (cfg_Oversize c)"
  unfolding Validate_valid_config valid_config_def ..

text \<open>
  The factory's defaults validate as soon as a stream and a region are named, so a
  configuration only has to say what it changes.
\<close>

theorem default_config_valid:
  assumes "stream \<noteq> []" "region \<noteq> []"
  shows "Validate lib (createDefaultConfig\<lparr>cfg_StreamName := stream, cfg_Region := region\<rparr>) = None \<and>
    Validate lib createDefaultConfig = Some StreamNameRequired"
  using assms
  by (simp add: Validate_valid_config valid_config_def createDefaultConfig_def keyOverhead_def tagHash_def
      partition_ok_def policy_chain_def, simp add: Validate_def)

text \<open>A regexp library for the witnesses: patterns are literal strings, \<open>(\<close> does not compile.\<close>

definition literal_regexp :: "string regexp_lib" where
  "literal_regexp = \<lparr>Compile = (\<lambda>p. if p = ''('' then Inl ''missing closing )'' else Inr p),
     FindStringSubmatch = (\<lambda>re s. if take (length re) s = re then Some [re] else None)\<rparr>"

theorem default_config_valid_witness:
  "Validate literal_regexp (createDefaultConfig\<lparr>cfg_StreamName := ''s'', cfg_Region := ''r''\<rparr>) = None"
  using default_config_valid [of "''s''" "''r''" literal_regexp] by simp

end
