(* ===== verification/Partition.thy ===== *)
theory Partition
  imports ExporterConfig Batch
begin

section \<open>The partition-key plan (partition.go)\<close>

text \<open>
  \<^verbatim>\<open>exporter/awskinesisexporter/partition.go\<close>: the compiled key plan, the resolution of its
  parts for one record, and the promotion of resolved parts onto the record.
  \<^verbatim>\<open>pcommon.Value.AsString\<close> belongs to pdata and is a parameter, the identity on strings.
  The lemmas: resolution depends on what each source reads and nothing else, keys are equal
  exactly when all parts are, and promotion only adds attributes that were absent.
\<close>

record 're keySource =
  kp_source :: string
  kp_name :: string
  kp_promote :: string
  kp_re :: "'re option"

type_synonym 're keyPlan = "'re keySource list"

text \<open>The library calls of the plan: regular expressions and the rendering of values.\<close>

record 're plan_lib =
  pl_regexp :: "'re regexp_lib"
  pl_AsString :: "pvalue \<Rightarrow> string"

definition tagSep :: char where "tagSep = CHR 0x1F"

definition resourceOnly :: "'re keyPlan \<Rightarrow> bool" where
  "resourceOnly p = list_all (\<lambda>ks. kp_source ks = keySourceResource) p"

definition hasPromotion :: "'re keyPlan \<Rightarrow> bool" where
  "hasPromotion p = list_ex (\<lambda>ks. kp_promote ks \<noteq> []) p"

definition tag_source :: "string \<Rightarrow> 're keySource" where
  "tag_source tag = \<lparr>kp_source = keySourceResource, kp_name = tag, kp_promote = [], kp_re = None\<rparr>"

fun resolve_keys :: "'re regexp_lib \<Rightarrow> nat \<Rightarrow> PartitionKeySource list \<Rightarrow> (nat \<times> err) + 're keyPlan" where
  "resolve_keys lib i [] = Inr []"
| "resolve_keys lib i (ks # rest) =
     (let src = (if ks_Source ks = [] then keySourceResource else ks_Source ks);
          entry = \<lparr>kp_source = src, kp_name = ks_Name ks, kp_promote = ks_Promote ks, kp_re = None\<rparr>
      in case (if ks_Regex ks \<noteq> [] then map_sum id Some (Compile lib (ks_Regex ks)) else Inr None) of
           Inl e \<Rightarrow> Inl (i, e)
         | Inr re \<Rightarrow> (case resolve_keys lib (i + 1) rest of
               Inl e \<Rightarrow> Inl e
             | Inr plan \<Rightarrow> Inr (entry\<lparr>kp_re := re\<rparr> # plan)))"

definition resolveKeyPlan :: "'re regexp_lib \<Rightarrow> Config \<Rightarrow> (nat \<times> err) + 're keyPlan" where
  "resolveKeyPlan lib c =
     (if pk_Strategy (cfg_PartitionKey c) \<noteq> partitionStrategyTagHash then Inr []
      else if length (pk_Tags (cfg_PartitionKey c)) > 0
      then Inr (map tag_source (pk_Tags (cfg_PartitionKey c)))
      else resolve_keys lib 0 (pk_Keys (cfg_PartitionKey c)))"

definition firstCapture :: "'re regexp_lib \<Rightarrow> 're \<Rightarrow> string \<Rightarrow> string" where
  "firstCapture lib re s =
     (case FindStringSubmatch lib re s of
        None \<Rightarrow> []
      | Some m \<Rightarrow> if length m > 1 then m ! 1 else m ! 0)"

definition resolve_part :: "'re plan_lib \<Rightarrow> attrs \<Rightarrow> string \<Rightarrow> attrs \<Rightarrow> 're keySource \<Rightarrow> string" where
  "resolve_part lib res metricName leaf ks =
     (let v = (if kp_source ks = keySourceResource
               then (case Get res (kp_name ks) of Some a \<Rightarrow> pl_AsString lib a | None \<Rightarrow> [])
               else if kp_source ks = keySourceDatapoint
               then (case Get leaf (kp_name ks) of Some a \<Rightarrow> pl_AsString lib a | None \<Rightarrow> [])
               else if kp_source ks = keySourceMetricName then metricName
               else [])
      in case kp_re ks of Some re \<Rightarrow> firstCapture (pl_regexp lib) re v | None \<Rightarrow> v)"

definition resolveParts :: "'re plan_lib \<Rightarrow> 're keyPlan \<Rightarrow> attrs \<Rightarrow> string \<Rightarrow> attrs \<Rightarrow> string list" where
  "resolveParts lib plan res metricName leaf = map (resolve_part lib res metricName leaf) plan"

definition putIfAbsent :: "string \<Rightarrow> string \<Rightarrow> attrs \<Rightarrow> attrs" where
  "putIfAbsent k v m = (if Get m k = None then PutStr k v m else m)"

text \<open>The two destination maps of \<^verbatim>\<open>applyPromotions\<close> are threaded through its loop.\<close>

fun applyPromotions :: "'re keyPlan \<Rightarrow> string list \<Rightarrow> attrs \<times> attrs \<Rightarrow> attrs \<times> attrs" where
  "applyPromotions (ks # plan) (v # parts) (dstRes, dstLeaf) =
     applyPromotions plan parts
       (if kp_promote ks = [] \<or> v = [] then (dstRes, dstLeaf)
        else if kp_source ks = keySourceResource then (putIfAbsent (kp_promote ks) v dstRes, dstLeaf)
        else if kp_source ks = keySourceDatapoint \<or> kp_source ks = keySourceMetricName
        then (dstRes, putIfAbsent (kp_promote ks) v dstLeaf)
        else (dstRes, dstLeaf))"
| "applyPromotions _ _ dst = dst"

definition joinParts :: "string list \<Rightarrow> string" where
  "joinParts parts = join_with [tagSep] parts"

definition emptyAttrs :: attrs where "emptyAttrs = []"

subsection \<open>The plan of a valid configuration\<close>

lemma resolve_keys_ok:
  "\<forall>ks\<in>set kss. key_source_ok lib ks \<Longrightarrow> \<exists>plan. resolve_keys lib i kss = Inr plan \<and>
     length plan = length kss \<and>
     (\<forall>ks\<in>set plan. kp_source ks \<in> {keySourceResource, keySourceDatapoint, keySourceMetricName})"
proof (induction kss arbitrary: i)
  case (Cons ks kss)
  then obtain plan where p: "resolve_keys lib (i + 1) kss = Inr plan" "length plan = length kss"
    "\<forall>ks\<in>set plan. kp_source ks \<in> {keySourceResource, keySourceDatapoint, keySourceMetricName}"
    by (metis list.set_intros(2))
  have "key_source_ok lib ks" using Cons.prems by simp
  then show ?case
    using p by (cases "ks_Regex ks = []") (auto simp: key_source_ok_def)
qed simp

lemma resolveKeyPlan_ok:
  assumes "valid_config lib c"
  shows "\<exists>plan. resolveKeyPlan lib c = Inr plan \<and> (plan = [] \<longleftrightarrow> \<not> tagHash c) \<and>
    (\<forall>ks\<in>set plan. kp_source ks \<in> {keySourceResource, keySourceDatapoint, keySourceMetricName})"
proof -
  have p: "partition_ok lib (cfg_PartitionKey c)" using assms by (simp add: valid_config_def)
  show ?thesis
  proof (cases "tagHash c \<and> pk_Tags (cfg_PartitionKey c) = []")
    case True
    then have k: "pk_Keys (cfg_PartitionKey c) \<noteq> []"
      "\<forall>ks\<in>set (pk_Keys (cfg_PartitionKey c)). key_source_ok lib ks"
      using p by (auto simp: partition_ok_def tagHash_def)
    from resolve_keys_ok [OF k(2), of 0] k(1) True show ?thesis
      by (auto simp: resolveKeyPlan_def tagHash_def)
  next
    case False
    then show ?thesis by (auto simp: resolveKeyPlan_def tagHash_def tag_source_def)
  qed
qed

text \<open>
  A validated configuration always yields a plan: newExporter cannot fail on it, the plan is
  empty exactly for the random strategy, and every source in it is one resolveParts knows.
\<close>

theorem validated_config_has_plan:
  assumes "Validate lib c = None"
  shows "\<exists>plan. resolveKeyPlan lib c = Inr plan \<and> (plan = [] \<longleftrightarrow> \<not> tagHash c) \<and>
    (\<forall>ks\<in>set plan. kp_source ks \<in> {keySourceResource, keySourceDatapoint, keySourceMetricName})"
  using resolveKeyPlan_ok assms by (simp add: Validate_valid_config)

definition tag_config :: Config where
  "tag_config = createDefaultConfig\<lparr>cfg_StreamName := ''s'', cfg_Region := ''r'',
     cfg_PartitionKey := \<lparr>pk_Strategy = ''tag_hash'', pk_Tags = [],
       pk_Keys = [\<lparr>ks_Source = [], ks_Name = ''host'', ks_Regex = ''a'', ks_Promote = ''h''\<rparr>], pk_Hash = []\<rparr>\<rparr>"

theorem validated_config_has_plan_witness:
  "\<exists>plan. resolveKeyPlan literal_regexp tag_config = Inr plan \<and> plan \<noteq> []"
proof -
  have v: "Validate literal_regexp tag_config = None" by code_simp
  have t: "tagHash tag_config" by code_simp
  from validated_config_has_plan [OF v] t show ?thesis by blast
qed

subsection \<open>Keys and promotion\<close>

lemma resolveParts_length [simp]: "length (resolveParts lib plan res nm leaf) = length plan"
  by (simp add: resolveParts_def)

lemma resolveParts_resource_only:
  "resourceOnly plan \<Longrightarrow> resolveParts lib plan res nm leaf = resolveParts lib plan res nm' leaf'"
  by (simp add: resolveParts_def resourceOnly_def resolve_part_def list_all_iff)

lemma joinParts_inj:
  assumes "xs \<noteq> []" "length xs = length ys" "\<forall>x\<in>set xs. tagSep \<notin> set x" "\<forall>y\<in>set ys. tagSep \<notin> set y"
  shows "joinParts xs = joinParts ys \<longleftrightarrow> xs = ys"
proof
  assume "joinParts xs = joinParts ys"
  then show "xs = ys"
    unfolding joinParts_def using assms by (intro join_with_inj [of xs ys tagSep]) auto
qed simp


definition text_lib :: "string plan_lib" where
  "text_lib = \<lparr>pl_regexp = literal_regexp, pl_AsString = (\<lambda>v. case v of ValueTypeStr s \<Rightarrow> s | _ \<Rightarrow> ''?'')\<rparr>"


text \<open>Promotion acts on the two maps separately.\<close>

fun promote_on :: "('re keySource \<Rightarrow> bool) \<Rightarrow> 're keyPlan \<Rightarrow> string list \<Rightarrow> attrs \<Rightarrow> attrs" where
  "promote_on P (ks # plan) (v # parts) m =
     promote_on P plan parts (if kp_promote ks \<noteq> [] \<and> v \<noteq> [] \<and> P ks then putIfAbsent (kp_promote ks) v m else m)"
| "promote_on P _ _ m = m"

abbreviation from_resource :: "'re keySource \<Rightarrow> bool" where
  "from_resource ks \<equiv> kp_source ks = keySourceResource"

abbreviation from_leaf :: "'re keySource \<Rightarrow> bool" where
  "from_leaf ks \<equiv> kp_source ks = keySourceDatapoint \<or> kp_source ks = keySourceMetricName"

lemma applyPromotions_eq:
  "applyPromotions plan parts (r, l) = (promote_on from_resource plan parts r, promote_on from_leaf plan parts l)"
  by (induction plan parts "(r, l)" arbitrary: r l rule: applyPromotions.induct) auto

lemma Get_putIfAbsent: "Get (putIfAbsent k v m) k' = (if k' = k \<and> Get m k = None then Some (ValueTypeStr v) else Get m k')"
  by (auto simp: putIfAbsent_def Get_PutStr)

lemma putIfAbsent_keeps: "Get m k = Some a \<Longrightarrow> Get (putIfAbsent k' v m) k = Some a"
  by (auto simp: Get_putIfAbsent)

lemma promote_on_keeps: "Get m k = Some a \<Longrightarrow> Get (promote_on P plan parts m) k = Some a"
  by (induction P plan parts m rule: promote_on.induct) (auto simp: putIfAbsent_keeps)

lemma promote_on_present:
  "ks \<in> set plan \<Longrightarrow> P ks \<Longrightarrow> kp_promote ks \<noteq> [] \<Longrightarrow> length parts = length plan \<Longrightarrow>
   parts = map f plan \<Longrightarrow> f ks \<noteq> [] \<Longrightarrow> Get (promote_on P plan parts m) (kp_promote ks) \<noteq> None"
proof (induction P plan parts m rule: promote_on.induct)
  case (1 P ks' plan v parts m)
  show ?case
  proof (cases "ks = ks'")
    case True
    have "Get (putIfAbsent (kp_promote ks) v m) (kp_promote ks) \<noteq> None" by (auto simp: Get_putIfAbsent)
    then obtain a where "Get (putIfAbsent (kp_promote ks) v m) (kp_promote ks) = Some a" by blast
    from promote_on_keeps [OF this] True 1 show ?thesis by auto
  qed (use 1 in auto)
qed auto

lemma promote_on_absorbs:
  assumes "\<forall>ks\<in>set plan. P ks \<and> kp_promote ks \<noteq> [] \<and> f ks \<noteq> [] \<longrightarrow> Get m (kp_promote ks) \<noteq> None"
  shows "promote_on P plan (map f plan) m = m"
  using assms
proof (induction plan)
  case (Cons ks plan)
  then show ?case by (auto simp: putIfAbsent_def)
qed simp

text \<open>Promoting the same parts twice is promoting them once.\<close>

lemma promote_on_idem:
  "promote_on P plan (map f plan) (promote_on P plan (map f plan) m) = promote_on P plan (map f plan) m"
  by (rule promote_on_absorbs) (use promote_on_present [where f = f] in \<open>auto\<close>)

lemma promote_on_cong:
  "\<forall>ks\<in>set plan. P ks \<longrightarrow> f ks = g ks \<Longrightarrow> promote_on P plan (map f plan) m = promote_on P plan (map g plan) m"
  by (induction plan arbitrary: m) auto

lemma no_promotion: "\<not> hasPromotion plan \<Longrightarrow> promote_on P plan parts m = m"
  by (induction P plan parts m rule: promote_on.induct) (auto simp: hasPromotion_def)

text \<open>
  C31.  Promotion only adds: no attribute the record carried is changed or removed, resource parts
  go to the resource and datapoint and metric-name parts to the leaf, every non-empty part with
  a promote name is present afterwards, and applying the same parts again changes nothing.
\<close>

theorem promotion_adds_only:
  assumes "parts = resolveParts lib plan res nm leaf" "applyPromotions plan parts (r, l) = (r', l')"
  shows "(\<forall>k a. Get r k = Some a \<longrightarrow> Get r' k = Some a) \<and> (\<forall>k a. Get l k = Some a \<longrightarrow> Get l' k = Some a) \<and>
    (\<forall>ks\<in>set plan. kp_promote ks \<noteq> [] \<and> resolve_part lib res nm leaf ks \<noteq> [] \<longrightarrow>
       (from_resource ks \<longrightarrow> Get r' (kp_promote ks) \<noteq> None) \<and> (from_leaf ks \<longrightarrow> Get l' (kp_promote ks) \<noteq> None)) \<and>
    applyPromotions plan parts (r', l') = (r', l')"
proof -
  have r': "r' = promote_on from_resource plan (map (resolve_part lib res nm leaf) plan) r"
    and l': "l' = promote_on from_leaf plan (map (resolve_part lib res nm leaf) plan) l"
    using assms by (simp_all add: applyPromotions_eq resolveParts_def)
  have res: "from_resource ks \<longrightarrow> Get r' (kp_promote ks) \<noteq> None"
    and lf: "from_leaf ks \<longrightarrow> Get l' (kp_promote ks) \<noteq> None"
    if "ks \<in> set plan" "kp_promote ks \<noteq> []" "resolve_part lib res nm leaf ks \<noteq> []" for ks
    unfolding r' l' using that promote_on_present [of ks plan _ _ "resolve_part lib res nm leaf"] by simp_all
  show ?thesis
    using assms(1) res lf
    by (simp add: r' l' promote_on_keeps applyPromotions_eq resolveParts_def promote_on_idem)
qed

theorem promotion_adds_only_witness:
  "applyPromotions [(tag_source ''x'')\<lparr>kp_promote := ''p''\<rparr> :: string keySource] [''v''] ([(''x'', ValueTypeStr ''v'')], []) =
     ([(''x'', ValueTypeStr ''v''), (''p'', ValueTypeStr ''v'')], []) \<and>
   Get (fst (applyPromotions [(tag_source ''x'')\<lparr>kp_promote := ''p''\<rparr> :: string keySource] [''v''] ([(''x'', ValueTypeStr ''v'')], []))) ''x''
     = Some (ValueTypeStr ''v'')"
proof -
  let ?plan = "[(tag_source ''x'')\<lparr>kp_promote := ''p''\<rparr>] :: string keyPlan" and ?r = "[(''x'', ValueTypeStr ''v'')]"
  have p: "[''v''] = resolveParts text_lib ?plan ?r [] []" by code_simp
  have a: "applyPromotions ?plan [''v''] (?r, []) = ([(''x'', ValueTypeStr ''v''), (''p'', ValueTypeStr ''v'')], [])"
    by code_simp
  have g: "Get ?r ''x'' = Some (ValueTypeStr ''v'')" by code_simp
  from conjunct1 [OF promotion_adds_only [OF p a]] g
  have "Get [(''x'', ValueTypeStr ''v''), (''p'', ValueTypeStr ''v'')] ''x'' = Some (ValueTypeStr ''v'')"
    by blast
  then show ?thesis unfolding a fst_conv by blast
qed

end
