(* ===== verification/FirstSeen.thy ===== *)
theory FirstSeen
  imports Prelude
begin

section \<open>Find-or-create maps in first-seen order\<close>

text \<open>
  The grouping code keeps a Go map from keys to handles beside a list of the things created, in
  the order their keys were first seen.  The pair is an association list here: a handle is an
  entry, and \<open>find_or_create\<close> is the idiom "look the key up, create and append on a miss, then
  work through the handle".  The main lemma says what a loop of such steps computes: one entry
  per distinct key, in first-seen order, folded over the elements with that key alone.
\<close>

fun find_or_create :: "'k \<Rightarrow> 'v \<Rightarrow> ('v \<Rightarrow> 'v) \<Rightarrow> ('k \<times> 'v) list \<Rightarrow> ('k \<times> 'v) list" where
  "find_or_create k new f [] = [(k, f new)]"
| "find_or_create k new f ((k', v) # m) =
     (if k' = k then (k', f v) # m else (k', v) # find_or_create k new f m)"

definition first_seen :: "'k list \<Rightarrow> 'k list" where
  "first_seen ks = rev (remdups (rev ks))"

definition group_by :: "('a \<Rightarrow> 'k) \<Rightarrow> 'a list \<Rightarrow> ('k \<times> 'a list) list" where
  "group_by key xs = map (\<lambda>k. (k, filter (\<lambda>x. key x = k) xs)) (first_seen (map key xs))"

lemma first_seen_Nil [simp]: "first_seen [] = []"
  by (simp add: first_seen_def)

lemma first_seen_snoc: "first_seen (ks @ [k]) = (if k \<in> set ks then first_seen ks else first_seen ks @ [k])"
  by (simp add: first_seen_def)

lemma set_first_seen [simp]: "set (first_seen ks) = set ks"
  by (simp add: first_seen_def)

lemma distinct_first_seen [simp]: "distinct (first_seen ks)"
  by (simp add: first_seen_def)

lemma find_or_create_map:
  assumes "distinct ks"
  shows "find_or_create k new f (map (\<lambda>k. (k, F k)) ks) =
    (if k \<in> set ks then map (\<lambda>k'. (k', if k' = k then f (F k') else F k')) ks
     else map (\<lambda>k. (k, F k)) ks @ [(k, f new)])"
  using assms by (induction ks) auto

lemma fold_find_or_create:
  "fold (\<lambda>x. find_or_create (key x) (new x) (step x)) xs [] =
     map (\<lambda>(k, ys). (k, fold step ys (new (hd ys)))) (group_by key xs)"
proof (induction xs rule: rev_induct)
  case (snoc x xs)
  let ?F = "\<lambda>k. fold step (filter (\<lambda>x. key x = k) xs) (new (hd (filter (\<lambda>x. key x = k) xs)))"
  have IH: "fold (\<lambda>x. find_or_create (key x) (new x) (step x)) xs [] =
      map (\<lambda>k. (k, ?F k)) (first_seen (map key xs))"
    by (simp add: snoc group_by_def)
  have ne: "filter (\<lambda>x. key x = k) xs \<noteq> []" if "k \<in> key ` set xs" for k
    using that by (auto simp: filter_empty_conv)
  have "fold (\<lambda>x. find_or_create (key x) (new x) (step x)) (xs @ [x]) [] =
     (if key x \<in> key ` set xs
      then map (\<lambda>k'. (k', if k' = key x then step x (?F k') else ?F k')) (first_seen (map key xs))
      else map (\<lambda>k. (k, ?F k)) (first_seen (map key xs)) @ [(key x, step x (new x))])"
    by (simp add: IH find_or_create_map)
  also have "\<dots> = map (\<lambda>(k, ys). (k, fold step ys (new (hd ys)))) (group_by key (xs @ [x]))"
  proof (cases "key x \<in> key ` set xs")
    case True
    then show ?thesis
      using ne by (auto simp: group_by_def first_seen_snoc hd_append)
  next
    case False
    then have "key xa \<noteq> key x" if "xa \<in> set xs" for xa using that by (metis imageI)
    then have "filter (\<lambda>xa. key xa = key x) xs = []" by (simp add: filter_empty_conv)
    then show ?thesis
      using False by (auto simp: group_by_def first_seen_snoc)
  qed
  finally show ?case .
qed (simp add: group_by_def)

lemma group_by_Nil [simp]: "group_by key [] = []"
  by (simp add: group_by_def)

lemma first_seen_append:
  "set ks \<inter> set ks' = {} \<Longrightarrow> first_seen (ks @ ks') = first_seen ks @ first_seen ks'"
proof (induction ks' rule: rev_induct)
  case (snoc k ks')
  then show ?case by (simp add: first_seen_snoc flip: append_assoc)
qed simp

lemma group_by_append:
  assumes "key ` set xs \<inter> key ` set ys = {}"
  shows "group_by key (xs @ ys) = group_by key xs @ group_by key ys"
proof -
  have "filter (\<lambda>x. key x = k) ys = []" if "k \<in> key ` set xs" for k
    using that assms by (auto simp: filter_empty_conv)
  moreover have "filter (\<lambda>x. key x = k) xs = []" if "k \<in> key ` set ys" for k
    using that assms by (auto simp: filter_empty_conv)
  ultimately show ?thesis
    using assms by (auto simp: group_by_def first_seen_append)
qed

lemma group_by_const:
  assumes "xs \<noteq> []" "\<forall>x\<in>set xs. key x = k"
  shows "group_by key xs = [(k, xs)]"
proof -
  have "first_seen (map key xs) = [k]"
    using assms
  proof (induction xs rule: rev_induct)
    case (snoc x xs)
    show ?case
    proof (cases "xs = []")
      case False
      with snoc have "k \<in> set (map key xs)" by (cases xs) auto
      with snoc False show ?thesis by (simp add: first_seen_snoc)
    qed (use snoc first_seen_snoc [of "[]"] in simp)
  qed simp
  then show ?thesis using assms(2) by (simp add: group_by_def filter_id_conv)
qed

lemma disjoint_by_tag: "A \<subseteq> {t} \<Longrightarrow> B \<subseteq> T \<Longrightarrow> t \<notin> T \<Longrightarrow> A \<inter> B = {}"
  by blast

text \<open>Blocks of elements under increasing indices are grouped block by block.\<close>

lemma group_by_blocks:
  assumes "\<And>i x y. y \<in> set (h i x) \<Longrightarrow> key y = e i" and "inj e"
  shows "group_by key (concat (map (\<lambda>(i, x). h i x) (List.enumerate n xs))) =
    map (\<lambda>(i, x). (e i, h i x)) (filter (\<lambda>(i, x). h i x \<noteq> []) (List.enumerate n xs))"
proof (induction xs arbitrary: n)
  case (Cons x xs)
  have later: "key ` set (concat (map (\<lambda>(i, x). h i x) (List.enumerate (Suc n) xs))) \<subseteq> e ` {Suc n..}"
    using assms(1) by (auto simp: in_set_enumerate_eq)
  have "key ` set (h n x) \<subseteq> {e n}" using assms(1) by auto
  moreover have "e n \<notin> e ` {Suc n..}"
    by (simp add: inj_image_mem_iff [OF assms(2)])
  ultimately have d: "key ` set (h n x) \<inter> key ` set (concat (map (\<lambda>(i, x). h i x) (List.enumerate (Suc n) xs))) = {}"
    using later by (intro disjoint_by_tag [of _ "e n" _ "e ` {Suc n..}"])
  show ?case
  proof (cases "h n x = []")
    case False
    with assms(1) have "group_by key (h n x) = [(e n, h n x)]" by (intro group_by_const) auto
    with False Cons group_by_append [OF d] show ?thesis by simp
  qed (use Cons in simp)
qed simp

lemma fold_blocks:
  assumes "\<And>i x y. y \<in> set (h i x) \<Longrightarrow> key y = e i" and "inj e"
  shows "fold (\<lambda>x. find_or_create (key x) (new x) (step x)) (concat (map (\<lambda>(i, x). h i x) (List.enumerate n xs))) [] =
    map (\<lambda>(i, x). (e i, fold step (h i x) (new (hd (h i x))))) (filter (\<lambda>(i, x). h i x \<noteq> []) (List.enumerate n xs))"
proof -
  have g: "group_by key (concat (map (\<lambda>(i, x). h i x) (List.enumerate n xs))) =
      map (\<lambda>(i, x). (e i, h i x)) (filter (\<lambda>(i, x). h i x \<noteq> []) (List.enumerate n xs))"
    using assms by (rule group_by_blocks)
  show ?thesis unfolding fold_find_or_create g by (simp add: split_def)
qed

text \<open>Grouping permutes: the groups together hold every element once.\<close>

lemma mset_by_keys:
  assumes "distinct ks" "\<forall>x\<in>set xs. key x \<in> set ks"
  shows "mset (concat (map (\<lambda>k. filter (\<lambda>x. key x = k) xs) ks)) = mset xs"
proof -
  have "mset (concat (map (\<lambda>k. filter (\<lambda>x. key x = k) xs) ks)) = filter_mset (\<lambda>x. key x \<in> set ks) (mset xs)"
    using assms(1)
  proof (induction ks)
    case (Cons k ks)
    have "filter_mset (\<lambda>x. key x = k \<or> key x \<in> set ks) (mset xs) =
        filter_mset (\<lambda>x. key x = k) (mset xs) + filter_mset (\<lambda>x. key x \<in> set ks) (mset xs)"
      using Cons.prems by (intro multiset_eqI) auto
    with Cons show ?case by simp
  qed simp
  then show ?thesis using assms(2) by (simp add: filter_mset_eq_conv)
qed

lemma mset_group_by: "mset (concat (map snd (group_by key xs))) = mset xs"
  by (simp add: group_by_def comp_def mset_by_keys)

lemma group_by_keys: "map fst (group_by key xs) = first_seen (map key xs)"
  by (simp add: group_by_def comp_def)

lemma group_by_member: "(k, ys) \<in> set (group_by key xs) \<Longrightarrow> ys \<noteq> [] \<and> (\<forall>y\<in>set ys. key y = k \<and> y \<in> set xs)"
  by (auto simp: group_by_def filter_empty_conv)

text \<open>Small facts about nested lists that the groupings share.\<close>

lemma concat_map_concat: "concat (map (\<lambda>x. concat (f x)) xs) = concat (concat (map f xs))"
  by (induction xs) simp_all

lemma mset_concat_map: "mset (concat (map f xs)) = (\<Sum>x\<in>#mset xs. mset (f x))"
  by (induction xs) simp_all

lemma list_ex_concat: "list_ex P (concat xss) = list_ex (list_ex P) xss"
  by (induction xss) simp_all

lemma list_ex_enumerate: "list_ex (\<lambda>p. P (snd p)) (List.enumerate n xs) = list_ex P xs"
  by (induction xs arbitrary: n) simp_all

lemma list_ex_map_comp: "list_ex P (map f xs) = list_ex (\<lambda>x. P (f x)) xs"
  by (induction xs) simp_all

end
