(* ===== verification/Grouping.thy ===== *)
theory Grouping
  imports Split Partition FirstSeen
begin

section \<open>Grouping by partition key (signal_*.go, partition_grouping.go)\<close>

text \<open>
  The grouping of one export call into one batch per partition key: by resource when the plan
  only reads resource attributes, by leaf otherwise.  A bucket's output batch and its handles
  into it (\<^verbatim>\<open>rs map[int]\<close>, \<^verbatim>\<open>ss map[[2]int]\<close>) are one association list from origin indices to
  what was appended; \<open>bucket_batch\<close> reads the batch off.  As in \<open>Batch\<close> the span and log-record
  versions are one definition over the leaf's attribute accessors, which the locale
  \<open>leaf_attrs\<close> describes.  The main theorems give a declarative description of each grouping:
  for every key in first-seen order, the sub-batch of the leaves with that key.
\<close>

record 'b taggedBatch =
  tb_key :: string
  tb_batch :: 'b

record 'l dest_resource =
  dr_resource :: resource
  dr_schema :: string
  dr_scopes :: "((nat \<times> nat) \<times> 'l scope_group) list"

type_synonym 'l bucket = "(nat \<times> 'l dest_resource) list"

definition bucket_batch :: "'l bucket \<Rightarrow> 'l batch" where
  "bucket_batch b = map (\<lambda>(i, dr). \<lparr>rg_resource = dr_resource dr, rg_schema = dr_schema dr,
     rg_scopes = map snd (dr_scopes dr)\<rparr>) b"

definition new_dest_resource :: "'l resource_group \<Rightarrow> 'l dest_resource" where
  "new_dest_resource src = \<lparr>dr_resource = rg_resource src, dr_schema = rg_schema src, dr_scopes = []\<rparr>"

definition new_dest_scope :: "'l scope_group \<Rightarrow> 'l scope_group" where
  "new_dest_scope src = \<lparr>sg_scope = sg_scope src, sg_schema = sg_schema src, sg_leaves = []\<rparr>"

text \<open>\<open>ensureScope\<close> hands its caller the scope; here the caller's work on it is an argument, with
  the work on the resource it sits in.\<close>

definition ensureScope ::
  "nat \<Rightarrow> nat \<Rightarrow> 'l resource_group \<Rightarrow> 'l scope_group \<Rightarrow> (resource \<Rightarrow> resource) \<Rightarrow>
   ('l scope_group \<Rightarrow> 'l scope_group) \<Rightarrow> 'l bucket \<Rightarrow> 'l bucket" where
  "ensureScope i j srcRS srcSS onRes onScope b =
     find_or_create i (new_dest_resource srcRS)
       (\<lambda>dr. dr\<lparr>dr_resource := onRes (dr_resource dr),
          dr_scopes := find_or_create (i, j) (new_dest_scope srcSS) onScope (dr_scopes dr)\<rparr>) b"

definition add_leaf ::
  "'re keyPlan \<Rightarrow> ('l \<Rightarrow> attrs) \<Rightarrow> (attrs \<Rightarrow> 'l \<Rightarrow> 'l) \<Rightarrow> string list \<Rightarrow>
   nat \<Rightarrow> nat \<Rightarrow> 'l resource_group \<Rightarrow> 'l scope_group \<Rightarrow> 'l \<Rightarrow> 'l bucket \<Rightarrow> 'l bucket" where
  "add_leaf plan get put parts i j srcRS srcSS l b =
     (if hasPromotion plan
      then ensureScope i j srcRS srcSS
             (\<lambda>r. r\<lparr>res_attrs := fst (applyPromotions plan parts (res_attrs r, get l))\<rparr>)
             (\<lambda>ss. ss\<lparr>sg_leaves := sg_leaves ss @
                [put (snd (applyPromotions plan parts (emptyAttrs, get l))) l]\<rparr>) b
      else ensureScope i j srcRS srcSS (\<lambda>r. r) (\<lambda>ss. ss\<lparr>sg_leaves := sg_leaves ss @ [l]\<rparr>) b)"

definition group_by_leaf ::
  "'re plan_lib \<Rightarrow> ('l \<Rightarrow> attrs) \<Rightarrow> (attrs \<Rightarrow> 'l \<Rightarrow> 'l) \<Rightarrow> 'l batch \<Rightarrow> 're keyPlan \<Rightarrow>
   'l batch taggedBatch list" where
  "group_by_leaf lib get put td plan =
     (let byKey =
        fold (\<lambda>(i, rs) m.
          fold (\<lambda>(j, ss) m.
            fold (\<lambda>l m.
              let parts = resolveParts lib plan (res_attrs (rg_resource rs)) [] (get l);
                  key = joinParts parts
              in find_or_create key [] (add_leaf plan get put parts i j rs ss l) m)
              (sg_leaves ss) m)
            (List.enumerate 0 (rg_scopes rs)) m)
          (List.enumerate 0 td) []
      in map (\<lambda>(k, b). \<lparr>tb_key = k, tb_batch = bucket_batch b\<rparr>) byKey)"

definition groupTracesByLeaf :: "'re plan_lib \<Rightarrow> traces \<Rightarrow> 're keyPlan \<Rightarrow> traces taggedBatch list" where
  "groupTracesByLeaf lib td plan = group_by_leaf lib sp_attrs (\<lambda>a sp. sp\<lparr>sp_attrs := a\<rparr>) td plan"

definition groupLogsByLeaf :: "'re plan_lib \<Rightarrow> logs \<Rightarrow> 're keyPlan \<Rightarrow> logs taggedBatch list" where
  "groupLogsByLeaf lib ld plan = group_by_leaf lib lr_attrs (\<lambda>a lr. lr\<lparr>lr_attrs := a\<rparr>) ld plan"

text \<open>By resource: whole resources are appended to the batch of their key.\<close>

definition promote_resource :: "'re keyPlan \<Rightarrow> string list \<Rightarrow> 'l resource_group \<Rightarrow> 'l resource_group" where
  "promote_resource plan parts rg =
     rg\<lparr>rg_resource := (rg_resource rg)\<lparr>res_attrs :=
        fst (applyPromotions plan parts (res_attrs (rg_resource rg), emptyAttrs))\<rparr>\<rparr>"

definition group_by_resource ::
  "'re plan_lib \<Rightarrow> 'l batch \<Rightarrow> 're keyPlan \<Rightarrow> 'l batch taggedBatch list" where
  "group_by_resource lib td plan =
     (let byKey =
        fold (\<lambda>rs m.
          let parts = resolveParts lib plan (res_attrs (rg_resource rs)) [] emptyAttrs;
              key = joinParts parts
          in find_or_create key []
               (\<lambda>dst. dst @ [if hasPromotion plan then promote_resource plan parts rs else rs]) m) td []
      in map (\<lambda>(k, b). \<lparr>tb_key = k, tb_batch = b\<rparr>) byKey)"

definition groupTracesByResource :: "'re plan_lib \<Rightarrow> traces \<Rightarrow> 're keyPlan \<Rightarrow> traces taggedBatch list" where
  "groupTracesByResource lib td plan = group_by_resource lib td plan"

definition groupLogsByResource :: "'re plan_lib \<Rightarrow> logs \<Rightarrow> 're keyPlan \<Rightarrow> logs taggedBatch list" where
  "groupLogsByResource lib ld plan = group_by_resource lib ld plan"

definition groupMetricsByResource :: "'re plan_lib \<Rightarrow> metrics \<Rightarrow> 're keyPlan \<Rightarrow> metrics taggedBatch list" where
  "groupMetricsByResource lib md plan = group_by_resource lib md plan"

definition groupTracesByTags :: "'re plan_lib \<Rightarrow> traces \<Rightarrow> 're keyPlan \<Rightarrow> traces taggedBatch list" where
  "groupTracesByTags lib td plan =
     (if length plan = 0 then [\<lparr>tb_key = [], tb_batch = td\<rparr>]
      else if \<not> resourceOnly plan then groupTracesByLeaf lib td plan
      else groupTracesByResource lib td plan)"

definition groupLogsByTags :: "'re plan_lib \<Rightarrow> logs \<Rightarrow> 're keyPlan \<Rightarrow> logs taggedBatch list" where
  "groupLogsByTags lib ld plan =
     (if length plan = 0 then [\<lparr>tb_key = [], tb_batch = ld\<rparr>]
      else if \<not> resourceOnly plan then groupLogsByLeaf lib ld plan
      else groupLogsByResource lib ld plan)"

subsection \<open>What the groups are\<close>

definition leaf_parts :: "'re plan_lib \<Rightarrow> ('l \<Rightarrow> attrs) \<Rightarrow> 're keyPlan \<Rightarrow> 'l resource_group \<Rightarrow> 'l \<Rightarrow> string list" where
  "leaf_parts lib get plan rg l = resolveParts lib plan (res_attrs (rg_resource rg)) [] (get l)"

definition leaf_key :: "'re plan_lib \<Rightarrow> ('l \<Rightarrow> attrs) \<Rightarrow> 're keyPlan \<Rightarrow> 'l resource_group \<Rightarrow> 'l \<Rightarrow> string" where
  "leaf_key lib get plan rg l = joinParts (leaf_parts lib get plan rg l)"

definition promoted_leaf ::
  "'re plan_lib \<Rightarrow> ('l \<Rightarrow> attrs) \<Rightarrow> (attrs \<Rightarrow> 'l \<Rightarrow> 'l) \<Rightarrow> 're keyPlan \<Rightarrow> 'l resource_group \<Rightarrow> 'l \<Rightarrow> 'l" where
  "promoted_leaf lib get put plan rg l =
     put (promote_on from_leaf plan (leaf_parts lib get plan rg l) (get l)) l"

definition promoted_resource :: "'re plan_lib \<Rightarrow> 're keyPlan \<Rightarrow> resource \<Rightarrow> resource" where
  "promoted_resource lib plan r =
     r\<lparr>res_attrs := promote_on from_resource plan (resolveParts lib plan (res_attrs r) [] emptyAttrs) (res_attrs r)\<rparr>"

text \<open>The part of a batch that belongs to a key: the leaves with that key, in their scopes and
  resources, without the scopes and resources that have none.\<close>

definition restrict_scope ::
  "'re plan_lib \<Rightarrow> ('l \<Rightarrow> attrs) \<Rightarrow> (attrs \<Rightarrow> 'l \<Rightarrow> 'l) \<Rightarrow> 're keyPlan \<Rightarrow> string \<Rightarrow> 'l resource_group \<Rightarrow>
   'l scope_group \<Rightarrow> 'l scope_group" where
  "restrict_scope lib get put plan k rg sg =
     \<lparr>sg_scope = sg_scope sg, sg_schema = sg_schema sg,
      sg_leaves = map (promoted_leaf lib get put plan rg) (filter (\<lambda>l. leaf_key lib get plan rg l = k) (sg_leaves sg))\<rparr>"

definition restrict_resource ::
  "'re plan_lib \<Rightarrow> ('l \<Rightarrow> attrs) \<Rightarrow> (attrs \<Rightarrow> 'l \<Rightarrow> 'l) \<Rightarrow> 're keyPlan \<Rightarrow> string \<Rightarrow> 'l resource_group \<Rightarrow>
   'l resource_group" where
  "restrict_resource lib get put plan k rg =
     \<lparr>rg_resource = promoted_resource lib plan (rg_resource rg), rg_schema = rg_schema rg,
      rg_scopes = filter (\<lambda>sg. sg_leaves sg \<noteq> []) (map (restrict_scope lib get put plan k rg) (rg_scopes rg))\<rparr>"

definition restrict_batch ::
  "'re plan_lib \<Rightarrow> ('l \<Rightarrow> attrs) \<Rightarrow> (attrs \<Rightarrow> 'l \<Rightarrow> 'l) \<Rightarrow> 're keyPlan \<Rightarrow> string \<Rightarrow> 'l batch \<Rightarrow> 'l batch" where
  "restrict_batch lib get put plan k td =
     filter (\<lambda>rg. rg_scopes rg \<noteq> []) (map (restrict_resource lib get put plan k) td)"

definition batch_keys :: "'re plan_lib \<Rightarrow> ('l \<Rightarrow> attrs) \<Rightarrow> 're keyPlan \<Rightarrow> 'l batch \<Rightarrow> string list" where
  "batch_keys lib get plan td = concat (map (\<lambda>rg. map (leaf_key lib get plan rg) (group_leaves rg)) td)"

text \<open>The items of a group are the items of the batch with its key, promoted.\<close>

definition key_of_item :: "'re plan_lib \<Rightarrow> ('l \<Rightarrow> attrs) \<Rightarrow> 're keyPlan \<Rightarrow> resource \<times> string \<times> scope \<times> string \<times> 'l \<Rightarrow> string" where
  "key_of_item lib get plan = (\<lambda>(r, _, _, _, l). joinParts (resolveParts lib plan (res_attrs r) [] (get l)))"

definition promote_item ::
  "'re plan_lib \<Rightarrow> ('l \<Rightarrow> attrs) \<Rightarrow> (attrs \<Rightarrow> 'l \<Rightarrow> 'l) \<Rightarrow> 're keyPlan \<Rightarrow>
   resource \<times> string \<times> scope \<times> string \<times> 'l \<Rightarrow> resource \<times> string \<times> scope \<times> string \<times> 'l" where
  "promote_item lib get put plan = (\<lambda>(r, rs, s, ss, l). (promoted_resource lib plan r, rs, s, ss,
     put (promote_on from_leaf plan (resolveParts lib plan (res_attrs r) [] (get l)) (get l)) l))"

definition resource_key :: "'re plan_lib \<Rightarrow> 're keyPlan \<Rightarrow> 'l resource_group \<Rightarrow> string" where
  "resource_key lib plan rg = joinParts (resolveParts lib plan (res_attrs (rg_resource rg)) [] emptyAttrs)"

text \<open>By resource: the plan reads no leaf, so all leaves of a resource share its key.\<close>

lemma group_by_resource_spec:
  fixes td :: "'l batch"
  shows "group_by_resource lib td plan =
     map (\<lambda>(k, rgs). \<lparr>tb_key = k, tb_batch = map (\<lambda>rg. rg\<lparr>rg_resource := promoted_resource lib plan (rg_resource rg)\<rparr>) rgs\<rparr>)
       (group_by (resource_key lib plan) td)"
proof -
  let ?p = "\<lambda>rg. rg\<lparr>rg_resource := promoted_resource lib plan (rg_resource rg)\<rparr>"
  have p: "(if hasPromotion plan then promote_resource plan (resolveParts lib plan (res_attrs (rg_resource rg)) [] emptyAttrs) rg else rg)
      = ?p rg" for rg :: "'l resource_group"
    by (simp add: promote_resource_def promoted_resource_def applyPromotions_eq no_promotion)
  have append: "fold (\<lambda>rs dst. dst @ [f rs]) ys d = d @ map f ys"
    for f :: "'l resource_group \<Rightarrow> 'l resource_group" and ys d
    by (induction ys arbitrary: d) simp_all
  have "fold (\<lambda>rs m. let parts = resolveParts lib plan (res_attrs (rg_resource rs)) [] emptyAttrs; key = joinParts parts
      in find_or_create key [] (\<lambda>dst. dst @ [if hasPromotion plan then promote_resource plan parts rs else rs]) m) td [] =
    fold (\<lambda>x. find_or_create (resource_key lib plan x) [] ((\<lambda>rs dst. dst @ [?p rs]) x)) td []"
    by (simp add: Let_def p resource_key_def)
  also have "\<dots> = map (\<lambda>(k, ys). (k, fold (\<lambda>rs dst. dst @ [?p rs]) ys [])) (group_by (resource_key lib plan) td)"
    by (rule fold_find_or_create [where new = "\<lambda>_. []"])
  finally show ?thesis
    by (simp add: group_by_resource_def Let_def split_def comp_def append)
qed

lemma no_leaf_promotion: "resourceOnly plan \<Longrightarrow> promote_on from_leaf plan parts m = m"
proof (induction plan arbitrary: parts m)
  case (Cons ks plan)
  then show ?case by (cases parts) (auto simp: resourceOnly_def)
qed simp

text \<open>The loop nest is one loop over the leaves, each with its indices and sources.\<close>

record 'l leaf_item =
  li_i :: nat
  li_j :: nat
  li_rs :: "'l resource_group"
  li_ss :: "'l scope_group"
  li_leaf :: 'l

text \<open>The items of a scope, a resource and a batch whose leaf satisfies \<open>P\<close>.\<close>

definition block :: "('l resource_group \<Rightarrow> 'l \<Rightarrow> bool) \<Rightarrow> nat \<Rightarrow> 'l resource_group \<Rightarrow> nat \<Rightarrow> 'l scope_group \<Rightarrow>
    'l leaf_item list" where
  "block P i rs j ss =
     map (\<lambda>l. \<lparr>li_i = i, li_j = j, li_rs = rs, li_ss = ss, li_leaf = l\<rparr>) (filter (P rs) (sg_leaves ss))"

definition blocks :: "('l resource_group \<Rightarrow> 'l \<Rightarrow> bool) \<Rightarrow> nat \<Rightarrow> 'l resource_group \<Rightarrow> 'l leaf_item list" where
  "blocks P i rs = concat (map (\<lambda>(j, ss). block P i rs j ss) (List.enumerate 0 (rg_scopes rs)))"

definition indexed :: "('l resource_group \<Rightarrow> 'l \<Rightarrow> bool) \<Rightarrow> 'l batch \<Rightarrow> 'l leaf_item list" where
  "indexed P td = concat (map (\<lambda>(i, rs). blocks P i rs) (List.enumerate 0 td))"

lemma fold_concat_map: "fold f (concat (map h xs)) = fold (\<lambda>x. fold f (h x)) xs"
  by (induction xs) (simp_all add: fun_eq_iff)

lemma fold_pair: "fold f (map g xs) = fold (\<lambda>x. f (g x)) xs"
  by (induction xs) simp_all

lemma map_enumerate_snd: "map (\<lambda>x. f (snd x)) (List.enumerate n xs) = map f xs"
  by (induction xs arbitrary: n) simp_all

lemma enumerate_filter_map:
  "map (\<lambda>(i, x). f x) (filter (\<lambda>(i, x). P x) (List.enumerate n xs)) = map f (filter P xs)"
  by (induction xs arbitrary: n) simp_all

lemma fold_nest:
  "fold (\<lambda>(i, rs) m. fold (\<lambda>(j, ss) m. fold (\<lambda>l m. F i j rs ss l m) (sg_leaves ss) m)
      (List.enumerate 0 (rg_scopes rs)) m) (List.enumerate 0 td) m =
   fold (\<lambda>x. F (li_i x) (li_j x) (li_rs x) (li_ss x) (li_leaf x)) (indexed (\<lambda>_ _. True) td) m"
  by (simp add: indexed_def blocks_def block_def fold_concat_map fold_pair split_def)

lemma filter_indexed:
  "filter (\<lambda>x. P (li_rs x) (li_leaf x)) (indexed (\<lambda>_ _. True) td) = indexed P td"
  by (simp add: indexed_def blocks_def block_def filter_concat filter_map comp_def split_def)

lemma block_mem: "x \<in> set (block P i rs j ss) \<Longrightarrow> li_i x = i \<and> li_j x = j \<and> li_rs x = rs \<and> li_ss x = ss"
  by (auto simp: block_def)

lemma blocks_mem: "x \<in> set (blocks P i rs) \<Longrightarrow> li_i x = i \<and> li_rs x = rs"
  by (auto simp: blocks_def block_def)

lemma block_hd: "block P i rs j ss \<noteq> [] \<Longrightarrow> li_ss (hd (block P i rs j ss)) = ss"
  using block_mem [OF hd_in_set] by blast

lemma blocks_hd: "blocks P i rs \<noteq> [] \<Longrightarrow> li_rs (hd (blocks P i rs)) = rs"
  using blocks_mem [OF hd_in_set] by blast

lemma group_blocks:
  "group_by (\<lambda>x. (li_i x, li_j x)) (blocks P i rs) =
     map (\<lambda>(j, ss). ((i, j), block P i rs j ss))
       (filter (\<lambda>(j, ss). block P i rs j ss \<noteq> []) (List.enumerate 0 (rg_scopes rs)))"
  unfolding blocks_def by (rule group_by_blocks) (auto simp: block_def inj_def)

lemma group_indexed:
  "group_by li_i (indexed P td) =
     map (\<lambda>(i, rs). (i, blocks P i rs)) (filter (\<lambda>(i, rs). blocks P i rs \<noteq> []) (List.enumerate 0 td))"
  unfolding indexed_def by (rule group_by_blocks [where e = "\<lambda>i. i"]) (auto dest: blocks_mem)

lemma blocks_Nil: "blocks P i rs = [] \<longleftrightarrow> (\<forall>ss\<in>set (rg_scopes rs). filter (P rs) (sg_leaves ss) = [])"
proof -
  have "blocks P i rs = [] \<longleftrightarrow> (\<forall>(j, ss)\<in>set (List.enumerate 0 (rg_scopes rs)). filter (P rs) (sg_leaves ss) = [])"
    by (auto simp: blocks_def block_def)
  also have "\<dots> \<longleftrightarrow> (\<forall>ss\<in>snd ` set (List.enumerate 0 (rg_scopes rs)). filter (P rs) (sg_leaves ss) = [])"
    by (simp add: split_def)
  also have "snd ` set (List.enumerate 0 (rg_scopes rs)) = set (rg_scopes rs)"
    by (metis list.set_map map_snd_enumerate)
  finally show ?thesis .
qed

text \<open>Access to the attributes of a leaf, as the two signals provide it.\<close>

locale leaf_attrs =
  fixes get :: "'l \<Rightarrow> attrs" and put :: "attrs \<Rightarrow> 'l \<Rightarrow> 'l"
  assumes put_get: "put (get l) l = l" and get_put: "get (put a l) = a"
begin

lemma leaf_resource_parts:
  "promote_on from_resource plan (leaf_parts lib get plan rg l) m =
     promote_on from_resource plan (resolveParts lib plan (res_attrs (rg_resource rg)) [] emptyAttrs) m"
  unfolding leaf_parts_def resolveParts_def by (rule promote_on_cong) (simp add: resolve_part_def)

text \<open>What a leaf does to its resource and its scope, with or without promotion.\<close>

definition on_resource :: "'re plan_lib \<Rightarrow> 're keyPlan \<Rightarrow> 'l resource_group \<Rightarrow> resource \<Rightarrow> resource" where
  "on_resource lib plan rs r =
     r\<lparr>res_attrs := promote_on from_resource plan
        (resolveParts lib plan (res_attrs (rg_resource rs)) [] emptyAttrs) (res_attrs r)\<rparr>"

definition on_scope :: "'re plan_lib \<Rightarrow> 're keyPlan \<Rightarrow> 'l resource_group \<Rightarrow> 'l \<Rightarrow> 'l scope_group \<Rightarrow> 'l scope_group" where
  "on_scope lib plan rs l sg = sg\<lparr>sg_leaves := sg_leaves sg @ [promoted_leaf lib get put plan rs l]\<rparr>"

definition leaf_step :: "'re plan_lib \<Rightarrow> 're keyPlan \<Rightarrow> 'l leaf_item \<Rightarrow> 'l bucket \<Rightarrow> 'l bucket" where
  "leaf_step lib plan x =
     ensureScope (li_i x) (li_j x) (li_rs x) (li_ss x) (on_resource lib plan (li_rs x))
       (on_scope lib plan (li_rs x) (li_leaf x))"

definition scope_step ::
  "'re plan_lib \<Rightarrow> 're keyPlan \<Rightarrow> 'l leaf_item \<Rightarrow> ((nat \<times> nat) \<times> 'l scope_group) list \<Rightarrow>
   ((nat \<times> nat) \<times> 'l scope_group) list" where
  "scope_step lib plan x =
     find_or_create (li_i x, li_j x) (new_dest_scope (li_ss x)) (on_scope lib plan (li_rs x) (li_leaf x))"

definition resource_step :: "'re plan_lib \<Rightarrow> 're keyPlan \<Rightarrow> 'l leaf_item \<Rightarrow> 'l dest_resource \<Rightarrow> 'l dest_resource" where
  "resource_step lib plan x dr =
     dr\<lparr>dr_resource := on_resource lib plan (li_rs x) (dr_resource dr),
        dr_scopes := scope_step lib plan x (dr_scopes dr)\<rparr>"

lemma leaf_step_eq:
  "leaf_step lib plan = (\<lambda>x. find_or_create (li_i x) (new_dest_resource (li_rs x)) (resource_step lib plan x))"
  by (auto simp: fun_eq_iff leaf_step_def ensureScope_def resource_step_def [abs_def] scope_step_def)

lemma add_leaf_eq:
  "add_leaf plan get put (leaf_parts lib get plan (li_rs x) (li_leaf x)) (li_i x) (li_j x) (li_rs x) (li_ss x) (li_leaf x) =
     leaf_step lib plan x"
proof (cases "hasPromotion plan")
  case True
  then show ?thesis
    by (simp add: fun_eq_iff add_leaf_def leaf_step_def applyPromotions_eq on_resource_def [abs_def]
        on_scope_def [abs_def] promoted_leaf_def leaf_resource_parts)
next
  case False
  then show ?thesis
    by (simp add: fun_eq_iff add_leaf_def leaf_step_def on_resource_def [abs_def] on_scope_def [abs_def]
        promoted_leaf_def no_promotion put_get)
qed

lemma on_resource_idem: "on_resource lib plan rs (on_resource lib plan rs r) = on_resource lib plan rs r"
  by (simp add: on_resource_def resolveParts_def promote_on_idem)

lemma on_resource_new: "on_resource lib plan rs (rg_resource rs) = promoted_resource lib plan (rg_resource rs)"
  by (simp add: on_resource_def promoted_resource_def)

abbreviation item_key :: "'re plan_lib \<Rightarrow> 're keyPlan \<Rightarrow> 'l leaf_item \<Rightarrow> string" where
  "item_key lib plan x \<equiv> leaf_key lib get plan (li_rs x) (li_leaf x)"

lemma group_by_leaf_steps:
  "group_by_leaf lib get put td plan =
     map (\<lambda>(k, xs). \<lparr>tb_key = k, tb_batch = bucket_batch (fold (leaf_step lib plan) xs [])\<rparr>)
       (group_by (item_key lib plan) (indexed (\<lambda>_ _. True) td))"
proof -
  let ?F = "\<lambda>i j rs ss l m. let parts = resolveParts lib plan (res_attrs (rg_resource rs)) [] (get l);
      key = joinParts parts in find_or_create key [] (add_leaf plan get put parts i j rs ss l) m"
  have F: "?F (li_i x) (li_j x) (li_rs x) (li_ss x) (li_leaf x) =
      find_or_create (item_key lib plan x) [] (leaf_step lib plan x)" for x
    by (simp add: fun_eq_iff Let_def leaf_key_def leaf_parts_def [symmetric] add_leaf_eq)
  have "fold (\<lambda>(i, rs) m. fold (\<lambda>(j, ss) m. fold (\<lambda>l m. ?F i j rs ss l m) (sg_leaves ss) m)
      (List.enumerate 0 (rg_scopes rs)) m) (List.enumerate 0 td) [] =
    fold (\<lambda>x. find_or_create (item_key lib plan x) [] (leaf_step lib plan x)) (indexed (\<lambda>_ _. True) td) []"
    by (subst fold_nest [where F = ?F]) (simp only: F)
  also have "\<dots> = map (\<lambda>(k, xs). (k, fold (leaf_step lib plan) xs []))
      (group_by (item_key lib plan) (indexed (\<lambda>_ _. True) td))"
    by (simp only: fold_find_or_create [where new = "\<lambda>_. []"])
  finally show ?thesis
    by (simp add: group_by_leaf_def Let_def split_def comp_def)
qed

text \<open>Inside a bucket: the resource part of a step settles at once, the scope part is a
  find-or-create loop of its own.\<close>

lemma fold_resource_steps:
  assumes "\<forall>x\<in>set xs. li_rs x = rs" "xs \<noteq> []"
  shows "fold (resource_step lib plan) xs dr =
     dr\<lparr>dr_resource := on_resource lib plan rs (dr_resource dr), dr_scopes := fold (scope_step lib plan) xs (dr_scopes dr)\<rparr>"
  using assms
proof (induction xs arbitrary: dr)
  case (Cons x xs)
  then show ?case
    by (cases "xs = []") (simp_all add: resource_step_def on_resource_idem)
qed simp

lemma fold_leaves:
  "fold (\<lambda>x. on_scope lib plan (li_rs x) (li_leaf x)) (block P i rs j ss) sg =
     sg\<lparr>sg_leaves := sg_leaves sg @ map (promoted_leaf lib get put plan rs) (filter (P rs) (sg_leaves ss))\<rparr>"
proof -
  have "fold (\<lambda>l sg. sg\<lparr>sg_leaves := sg_leaves sg @ [f l]\<rparr>) ls sg = sg\<lparr>sg_leaves := sg_leaves sg @ map f ls\<rparr>"
    for f and ls :: "'l list"
    by (induction ls arbitrary: sg) simp_all
  then show ?thesis by (simp add: block_def fold_pair on_scope_def [abs_def])
qed

abbreviation with_key :: "'re plan_lib \<Rightarrow> 're keyPlan \<Rightarrow> string \<Rightarrow> 'l resource_group \<Rightarrow> 'l \<Rightarrow> bool" where
  "with_key lib plan k rs l \<equiv> leaf_key lib get plan rs l = k"

lemma fold_block_scope:
  assumes "block (with_key lib plan k) i rs j ss \<noteq> []"
  shows "fold (\<lambda>x. on_scope lib plan (li_rs x) (li_leaf x)) (block (with_key lib plan k) i rs j ss)
      (new_dest_scope (li_ss (hd (block (with_key lib plan k) i rs j ss)))) = restrict_scope lib get put plan k rs ss"
  by (simp add: block_hd [OF assms] fold_leaves restrict_scope_def new_dest_scope_def)

lemma restrict_scope_Nil:
  "sg_leaves (restrict_scope lib get put plan k rs ss) = [] \<longleftrightarrow> block (with_key lib plan k) i rs j ss = []"
  by (simp add: restrict_scope_def block_def)

lemma fold_scopes:
  "map snd (fold (scope_step lib plan) (blocks (with_key lib plan k) i rs) []) =
     rg_scopes (restrict_resource lib get put plan k rs)"
proof -
  let ?B = "block (with_key lib plan k) i rs" and ?app = "\<lambda>x. on_scope lib plan (li_rs x) (li_leaf x)"
  have "fold (scope_step lib plan) (blocks (with_key lib plan k) i rs) [] =
      map (\<lambda>(k, ys). (k, fold ?app ys (new_dest_scope (li_ss (hd ys)))))
        (group_by (\<lambda>x. (li_i x, li_j x)) (blocks (with_key lib plan k) i rs))"
    unfolding scope_step_def [abs_def] by (rule fold_find_or_create)
  also have "\<dots> = map (\<lambda>(j, ss). ((i, j), restrict_scope lib get put plan k rs ss))
        (filter (\<lambda>(j, ss). ?B j ss \<noteq> []) (List.enumerate 0 (rg_scopes rs)))"
    unfolding group_blocks by (auto simp: fold_block_scope)
  finally have "map snd (fold (scope_step lib plan) (blocks (with_key lib plan k) i rs) []) =
      map (\<lambda>(j, ss). restrict_scope lib get put plan k rs ss)
        (filter (\<lambda>(j, ss). sg_leaves (restrict_scope lib get put plan k rs ss) \<noteq> []) (List.enumerate 0 (rg_scopes rs)))"
    by (simp add: comp_def split_def flip: restrict_scope_Nil)
  then show ?thesis
    by (simp only: enumerate_filter_map) (simp add: restrict_resource_def filter_map comp_def)
qed

lemma restrict_resource_Nil:
  "rg_scopes (restrict_resource lib get put plan k rs) = [] \<longleftrightarrow> blocks (with_key lib plan k) i rs = []"
  by (auto simp: restrict_resource_def blocks_Nil restrict_scope_def filter_empty_conv)

lemma fold_block_resource:
  assumes "blocks (with_key lib plan k) i rs \<noteq> []"
  shows "(\<lambda>dr. \<lparr>rg_resource = dr_resource dr, rg_schema = dr_schema dr, rg_scopes = map snd (dr_scopes dr)\<rparr>)
      (fold (resource_step lib plan) (blocks (with_key lib plan k) i rs)
        (new_dest_resource (li_rs (hd (blocks (with_key lib plan k) i rs))))) =
     restrict_resource lib get put plan k rs"
proof -
  have "\<forall>x\<in>set (blocks (with_key lib plan k) i rs). li_rs x = rs" using blocks_mem by blast
  note steps = fold_resource_steps [OF this assms]
  show ?thesis
    by (simp add: blocks_hd [OF assms] steps new_dest_resource_def on_resource_new fold_scopes)
      (simp add: restrict_resource_def)
qed

lemma fold_bucket:
  "bucket_batch (fold (leaf_step lib plan) (indexed (with_key lib plan k) td) []) =
     restrict_batch lib get put plan k td"
proof -
  let ?B = "blocks (with_key lib plan k)"
  have "fold (leaf_step lib plan) (indexed (with_key lib plan k) td) [] =
      map (\<lambda>(k, ys). (k, fold (resource_step lib plan) ys (new_dest_resource (li_rs (hd ys)))))
        (group_by li_i (indexed (with_key lib plan k) td))"
    unfolding leaf_step_eq by (rule fold_find_or_create)
  then have "bucket_batch (fold (leaf_step lib plan) (indexed (with_key lib plan k) td) []) =
      map (\<lambda>(i, rs). (\<lambda>dr. \<lparr>rg_resource = dr_resource dr, rg_schema = dr_schema dr, rg_scopes = map snd (dr_scopes dr)\<rparr>)
          (fold (resource_step lib plan) (?B i rs) (new_dest_resource (li_rs (hd (?B i rs))))))
        (filter (\<lambda>(i, rs). ?B i rs \<noteq> []) (List.enumerate 0 td))"
    by (simp add: group_indexed bucket_batch_def comp_def split_def)
  also have "\<dots> = map (\<lambda>(i, rs). restrict_resource lib get put plan k rs)
        (filter (\<lambda>(i, rs). ?B i rs \<noteq> []) (List.enumerate 0 td))"
  proof (rule map_cong [OF refl])
    fix p assume p: "p \<in> set (filter (\<lambda>(i, rs). ?B i rs \<noteq> []) (List.enumerate 0 td))"
    obtain i rs where ir: "p = (i, rs)" by (cases p)
    with p have "?B i rs \<noteq> []" by simp
    from fold_block_resource [OF this] show "(case p of (i, rs) \<Rightarrow>
        (\<lambda>dr. \<lparr>rg_resource = dr_resource dr, rg_schema = dr_schema dr, rg_scopes = map snd (dr_scopes dr)\<rparr>)
          (fold (resource_step lib plan) (?B i rs) (new_dest_resource (li_rs (hd (?B i rs)))))) =
        (case p of (i, rs) \<Rightarrow> restrict_resource lib get put plan k rs)"
      by (simp add: ir)
  qed
  finally have "bucket_batch (fold (leaf_step lib plan) (indexed (with_key lib plan k) td) []) =
      map (\<lambda>(i, rs). restrict_resource lib get put plan k rs)
        (filter (\<lambda>(i, rs). rg_scopes (restrict_resource lib get put plan k rs) \<noteq> []) (List.enumerate 0 td))"
    by (simp add: split_def flip: restrict_resource_Nil)
  then show ?thesis
    by (simp only: enumerate_filter_map) (simp add: restrict_batch_def filter_map comp_def)
qed

text \<open>Grouping by leaf, declaratively.\<close>

lemma keys_indexed: "map (item_key lib plan) (indexed (\<lambda>_ _. True) td) = batch_keys lib get plan td"
proof -
  have "map (item_key lib plan) (blocks (\<lambda>_ _. True) i rs) = map (leaf_key lib get plan rs) (group_leaves rs)" for i rs
    by (simp add: blocks_def block_def group_leaves_def map_concat comp_def split_def
        map_enumerate_snd [where f = "\<lambda>ss. map (leaf_key lib get plan rs) (sg_leaves ss)"])
  then show ?thesis
    by (simp add: indexed_def batch_keys_def map_concat comp_def split_def
        map_enumerate_snd [where f = "\<lambda>rs. map (leaf_key lib get plan rs) (group_leaves rs)"])
qed

lemma group_by_leaf_spec:
  "group_by_leaf lib get put td plan =
     map (\<lambda>k. \<lparr>tb_key = k, tb_batch = restrict_batch lib get put plan k td\<rparr>)
       (first_seen (batch_keys lib get plan td))"
  by (simp add: group_by_leaf_steps group_by_def keys_indexed fold_bucket comp_def
      filter_indexed [where P = "with_key lib plan k" for k])

lemma drop_empty_scopes:
  "concat (map (\<lambda>sg. map (f sg) (sg_leaves sg)) (filter (\<lambda>sg. sg_leaves sg \<noteq> []) sgs)) =
     concat (map (\<lambda>sg. map (f sg) (sg_leaves sg)) sgs)"
  by (induction sgs) simp_all

lemma group_items_restrict:
  "group_items (restrict_resource lib get put plan k rg) =
     map (promote_item lib get put plan) (filter (\<lambda>x. key_of_item lib get plan x = k) (group_items rg))"
proof -
  have "group_items (restrict_resource lib get put plan k rg) =
      concat (map (\<lambda>sg. map (\<lambda>l. (promoted_resource lib plan (rg_resource rg), rg_schema rg, sg_scope sg, sg_schema sg, l))
        (sg_leaves sg)) (map (restrict_scope lib get put plan k rg) (rg_scopes rg)))"
    by (simp add: group_items_def restrict_resource_def drop_empty_scopes del: map_map)
  also have "\<dots> = map (promote_item lib get put plan) (filter (\<lambda>x. key_of_item lib get plan x = k) (group_items rg))"
    by (simp add: group_items_def restrict_scope_def map_concat filter_concat filter_map comp_def
        promote_item_def key_of_item_def leaf_key_def leaf_parts_def promoted_leaf_def)
  finally show ?thesis .
qed

lemma items_restrict:
  "items (restrict_batch lib get put plan k td) =
     map (promote_item lib get put plan) (filter (\<lambda>x. key_of_item lib get plan x = k) (items td))"
proof (induction td)
  case (Cons rg td)
  have "group_items (restrict_resource lib get put plan k rg) = []"
    if "rg_scopes (restrict_resource lib get put plan k rg) = []"
    using that by (simp add: group_items_def)
  with Cons show ?case
    by (cases "rg_scopes (restrict_resource lib get put plan k rg) = []")
      (simp_all add: restrict_batch_def group_items_restrict)
qed (simp add: restrict_batch_def)

lemma batch_keys_items: "batch_keys lib get plan td = map (key_of_item lib get plan) (items td)"
proof -
  have "map (leaf_key lib get plan rg) (group_leaves rg) = map (key_of_item lib get plan) (group_items rg)" for rg
    by (simp add: group_leaves_def group_items_def map_concat comp_def key_of_item_def leaf_key_def [abs_def]
        leaf_parts_def)
  then show ?thesis by (simp add: batch_keys_def items_def map_concat comp_def)
qed

lemma by_leaf_items:
  "mset (concat (map (items \<circ> tb_batch) (group_by_leaf lib get put td plan))) =
     image_mset (promote_item lib get put plan) (mset (items td))"
proof -
  have "concat (map (items \<circ> tb_batch) (group_by_leaf lib get put td plan)) =
      map (promote_item lib get put plan) (concat (map snd (group_by (key_of_item lib get plan) (items td))))"
    by (simp add: group_by_leaf_spec items_restrict batch_keys_items group_by_def map_concat comp_def)
  then show ?thesis by (simp only: mset_map mset_group_by)
qed

lemma by_resource_items:
  assumes "resourceOnly plan"
  shows "mset (concat (map (items \<circ> tb_batch) (group_by_resource lib td plan))) =
     image_mset (promote_item lib get put plan) (mset (items td))"
proof -
  let ?p = "\<lambda>rg. rg\<lparr>rg_resource := promoted_resource lib plan (rg_resource rg)\<rparr>"
  have g: "group_items (?p rg) = map (promote_item lib get put plan) (group_items rg)" for rg
    by (simp add: group_items_def promote_item_def map_concat comp_def no_leaf_promotion [OF assms] put_get)
  have "items (map ?p rgs) = map (promote_item lib get put plan) (concat (map group_items rgs))" for rgs
    by (induction rgs) (simp_all add: g del: resource_group.update_convs)
  then have "concat (map (items \<circ> tb_batch) (group_by_resource lib td plan)) =
      map (promote_item lib get put plan) (concat (map group_items (concat (map snd (group_by (resource_key lib plan) td)))))"
    by (simp add: group_by_resource_spec split_def comp_def map_concat concat_map_concat)
  moreover have "mset (concat (map group_items (concat (map snd (group_by (resource_key lib plan) td))))) = mset (items td)"
    unfolding mset_concat_map [of group_items] mset_group_by by (simp add: items_def mset_concat_map)
  ultimately show ?thesis by simp
qed

lemma promote_item_Nil: "promote_item lib get put [] = (\<lambda>x. x)"
  by (auto simp: fun_eq_iff promote_item_def promoted_resource_def put_get)

end

interpretation spans: leaf_attrs sp_attrs "\<lambda>a sp. sp\<lparr>sp_attrs := a\<rparr>"
  by unfold_locales simp_all

interpretation log_records: leaf_attrs lr_attrs "\<lambda>a lr. lr\<lparr>lr_attrs := a\<rparr>"
  by unfold_locales simp_all

text \<open>
  C17.  Grouping by leaf, declaratively: the groups of a trace batch are, for every key in the order
  in which spans first show it, the sub-batch of the spans with that key in their own resources
  and scopes, resources and scopes without such a span left out, with the plan's promotions.
\<close>

theorem group_traces_by_leaf_spec:
  "groupTracesByLeaf lib td plan =
     map (\<lambda>k. \<lparr>tb_key = k, tb_batch = restrict_batch lib sp_attrs (\<lambda>a sp. sp\<lparr>sp_attrs := a\<rparr>) plan k td\<rparr>)
       (first_seen (batch_keys lib sp_attrs plan td))"
  unfolding groupTracesByLeaf_def by (rule spans.group_by_leaf_spec)

lemma group_traces_items:
  "mset (concat (map (items \<circ> tb_batch) (groupTracesByTags lib td plan))) =
     image_mset (promote_item lib sp_attrs (\<lambda>a sp. sp\<lparr>sp_attrs := a\<rparr>) plan) (mset (items td))"
  by (simp add: groupTracesByTags_def groupTracesByLeaf_def groupTracesByResource_def
      spans.by_leaf_items spans.by_resource_items spans.promote_item_Nil)

text \<open>
  Whatever the plan, no span is lost, repeated or moved: the spans of all groups, each with its
  resource, scope and schema URLs, are the spans of the batch, changed only by promotion.
\<close>

theorem group_traces_keeps_items:
  "mset (concat (map (items \<circ> tb_batch) (groupTracesByTags lib td plan))) =
     image_mset (promote_item lib sp_attrs (\<lambda>a sp. sp\<lparr>sp_attrs := a\<rparr>) plan) (mset (items td))"
  by (rule group_traces_items)

lemma group_logs_items:
  "mset (concat (map (items \<circ> tb_batch) (groupLogsByTags lib ld plan))) =
     image_mset (promote_item lib lr_attrs (\<lambda>a lr. lr\<lparr>lr_attrs := a\<rparr>) plan) (mset (items ld))"
  by (simp add: groupLogsByTags_def groupLogsByLeaf_def groupLogsByResource_def
      log_records.by_leaf_items log_records.by_resource_items log_records.promote_item_Nil)

text \<open>
  The same for log records.
\<close>

theorem group_logs_keeps_items:
  "mset (concat (map (items \<circ> tb_batch) (groupLogsByTags lib ld plan))) =
     image_mset (promote_item lib lr_attrs (\<lambda>a lr. lr\<lparr>lr_attrs := a\<rparr>) plan) (mset (items ld))"
  by (rule group_logs_items)

end
