(* ===== verification/GroupMetrics.thy ===== *)
theory GroupMetrics
  imports Grouping
begin

section \<open>Grouping metrics by datapoint (partition_grouping.go)\<close>

text \<open>
  The metric side of \<^verbatim>\<open>partition_grouping.go\<close>: buckets have a level more, since datapoints of one
  origin metric recombine under one copy of its shell.  A metric without datapoints has no leaf
  to key on and is routed by the leaf-less key.  The theorems say that every datapoint leaves
  once, under its resource, scope and shell, in the group of its key, and that the shells of
  empty metrics survive.
\<close>

record dest_metric_scope =
  ds_scope :: scope
  ds_schema :: string
  ds_metrics :: "((nat \<times> nat \<times> nat) \<times> metric) list"

record dest_metric_resource =
  dm_resource :: resource
  dm_schema :: string
  dm_scopes :: "((nat \<times> nat) \<times> dest_metric_scope) list"

type_synonym metricBucket = "(nat \<times> dest_metric_resource) list"

definition metric_bucket_batch :: "metricBucket \<Rightarrow> metrics" where
  "metric_bucket_batch b =
     map (\<lambda>(i, dr). \<lparr>rg_resource = dm_resource dr, rg_schema = dm_schema dr,
       rg_scopes = map (\<lambda>(p, ds). \<lparr>sg_scope = ds_scope ds, sg_schema = ds_schema ds,
         sg_leaves = map snd (ds_metrics ds)\<rparr>) (dm_scopes dr)\<rparr>) b"

text \<open>\<open>ensureMetric\<close>; as for \<open>ensureScope\<close> the caller's work on the metric, and on the resource it
  sits in, are arguments.\<close>

definition ensureMetric ::
  "nat \<Rightarrow> nat \<Rightarrow> nat \<Rightarrow> metric resource_group \<Rightarrow> metric scope_group \<Rightarrow> metric \<Rightarrow>
   (resource \<Rightarrow> resource) \<Rightarrow> (metric \<Rightarrow> metric) \<Rightarrow> metricBucket \<Rightarrow> metricBucket" where
  "ensureMetric i j k srcRM srcSM srcM onRes onMetric b =
     find_or_create i \<lparr>dm_resource = rg_resource srcRM, dm_schema = rg_schema srcRM, dm_scopes = []\<rparr>
       (\<lambda>dr. dr\<lparr>dm_resource := onRes (dm_resource dr),
          dm_scopes := find_or_create (i, j) \<lparr>ds_scope = sg_scope srcSM, ds_schema = sg_schema srcSM, ds_metrics = []\<rparr>
            (\<lambda>ds. ds\<lparr>ds_metrics := find_or_create (i, j, k) (copyMetricShell srcM) onMetric (ds_metrics ds)\<rparr>)
            (dm_scopes dr)\<rparr>) b"

definition add_point ::
  "'re keyPlan \<Rightarrow> string list \<Rightarrow> nat \<Rightarrow> nat \<Rightarrow> nat \<Rightarrow> metric resource_group \<Rightarrow> metric scope_group \<Rightarrow> metric \<Rightarrow>
   datapoint \<Rightarrow> metricBucket \<Rightarrow> metricBucket" where
  "add_point plan parts i j k srcRM srcSM srcM dp b =
     (if hasPromotion plan
      then ensureMetric i j k srcRM srcSM srcM
             (\<lambda>r. r\<lparr>res_attrs := fst (applyPromotions plan parts (res_attrs r, dp_attrs dp))\<rparr>)
             (\<lambda>m. append_point m
                (dp\<lparr>dp_attrs := snd (applyPromotions plan parts (emptyAttrs, dp_attrs dp))\<rparr>)) b
      else ensureMetric i j k srcRM srcSM srcM (\<lambda>r. r) (\<lambda>m. append_point m dp) b)"

text \<open>One metric: its datapoints, with the \<open>seen\<close> flag, and the empty-metric branch after them.\<close>

definition group_metric ::
  "'re plan_lib \<Rightarrow> 're keyPlan \<Rightarrow> nat \<Rightarrow> metric resource_group \<Rightarrow> nat \<Rightarrow> metric scope_group \<Rightarrow> nat \<Rightarrow> metric \<Rightarrow>
   (string \<times> metricBucket) list \<Rightarrow> (string \<times> metricBucket) list" where
  "group_metric lib plan i srcRM j srcSM k srcM byKey =
     (let resAttrs = res_attrs (rg_resource srcRM);
          (seen, byKey) = eachMetricDataPoint srcM
            (\<lambda>dp (seen, m).
               let parts = resolveParts lib plan resAttrs (m_name srcM) (dp_attrs dp)
               in (True, find_or_create (joinParts parts) [] (add_point plan parts i j k srcRM srcSM srcM dp) m))
            (False, byKey)
      in if \<not> seen
         then (let parts = resolveParts lib plan resAttrs (m_name srcM) emptyAttrs
               in find_or_create (joinParts parts) []
                    (ensureMetric i j k srcRM srcSM srcM (\<lambda>r. r) (\<lambda>m. m)) byKey)
         else byKey)"

definition groupMetricsByLeaf :: "'re plan_lib \<Rightarrow> metrics \<Rightarrow> 're keyPlan \<Rightarrow> metrics taggedBatch list" where
  "groupMetricsByLeaf lib md plan =
     (let byKey =
        fold (\<lambda>(i, rm) m.
          fold (\<lambda>(j, sm) m.
            fold (\<lambda>(k, mt) m. group_metric lib plan i rm j sm k mt m)
              (List.enumerate 0 (sg_leaves sm)) m)
            (List.enumerate 0 (rg_scopes rm)) m)
          (List.enumerate 0 md) []
      in map (\<lambda>(k, b). \<lparr>tb_key = k, tb_batch = metric_bucket_batch b\<rparr>) byKey)"

definition groupMetricsByTags :: "'re plan_lib \<Rightarrow> metrics \<Rightarrow> 're keyPlan \<Rightarrow> metrics taggedBatch list" where
  "groupMetricsByTags lib md plan =
     (if length plan = 0 then [\<lparr>tb_key = [], tb_batch = md\<rparr>]
      else if \<not> resourceOnly plan then groupMetricsByLeaf lib md plan
      else groupMetricsByResource lib md plan)"

subsection \<open>The loop nest as one loop\<close>

text \<open>What a metric contributes: its datapoints, or its bare shell.\<close>

definition points_of :: "metric \<Rightarrow> datapoint option list" where
  "points_of m = (if data_points (m_data m) = [] then [None] else map Some (data_points (m_data m)))"

fun point_attrs :: "datapoint option \<Rightarrow> attrs" where
  "point_attrs None = emptyAttrs"
| "point_attrs (Some dp) = dp_attrs dp"

record point_item =
  mi_i :: nat
  mi_j :: nat
  mi_k :: nat
  mi_rm :: "metric resource_group"
  mi_sm :: "metric scope_group"
  mi_m :: metric
  mi_dp :: "datapoint option"

definition point_parts ::
  "'re plan_lib \<Rightarrow> 're keyPlan \<Rightarrow> metric resource_group \<Rightarrow> metric \<Rightarrow> datapoint option \<Rightarrow> string list" where
  "point_parts lib plan rm m d = resolveParts lib plan (res_attrs (rg_resource rm)) (m_name m) (point_attrs d)"

definition point_key ::
  "'re plan_lib \<Rightarrow> 're keyPlan \<Rightarrow> metric resource_group \<Rightarrow> metric \<Rightarrow> datapoint option \<Rightarrow> string" where
  "point_key lib plan rm m d = joinParts (point_parts lib plan rm m d)"

definition promoted_point ::
  "'re plan_lib \<Rightarrow> 're keyPlan \<Rightarrow> metric resource_group \<Rightarrow> metric \<Rightarrow> datapoint \<Rightarrow> datapoint" where
  "promoted_point lib plan rm m dp =
     dp\<lparr>dp_attrs := promote_on from_leaf plan (point_parts lib plan rm m (Some dp)) (dp_attrs dp)\<rparr>"

definition res_of_item :: "'re plan_lib \<Rightarrow> 're keyPlan \<Rightarrow> metric resource_group \<Rightarrow> datapoint option \<Rightarrow> resource \<Rightarrow> resource" where
  "res_of_item lib plan rm d r =
     (case d of None \<Rightarrow> r
      | Some _ \<Rightarrow> r\<lparr>res_attrs := promote_on from_resource plan
          (resolveParts lib plan (res_attrs (rg_resource rm)) [] emptyAttrs) (res_attrs r)\<rparr>)"

definition metric_of_item ::
  "'re plan_lib \<Rightarrow> 're keyPlan \<Rightarrow> metric resource_group \<Rightarrow> metric \<Rightarrow> datapoint option \<Rightarrow> metric \<Rightarrow> metric" where
  "metric_of_item lib plan rm m d dst =
     (case d of None \<Rightarrow> dst | Some dp \<Rightarrow> append_point dst (promoted_point lib plan rm m dp))"

definition metric_step :: "'re plan_lib \<Rightarrow> 're keyPlan \<Rightarrow> point_item \<Rightarrow> ((nat \<times> nat \<times> nat) \<times> metric) list \<Rightarrow>
    ((nat \<times> nat \<times> nat) \<times> metric) list" where
  "metric_step lib plan x =
     find_or_create (mi_i x, mi_j x, mi_k x) (copyMetricShell (mi_m x)) (metric_of_item lib plan (mi_rm x) (mi_m x) (mi_dp x))"

definition metric_scope_step :: "'re plan_lib \<Rightarrow> 're keyPlan \<Rightarrow> point_item \<Rightarrow> dest_metric_scope \<Rightarrow> dest_metric_scope" where
  "metric_scope_step lib plan x ds = ds\<lparr>ds_metrics := metric_step lib plan x (ds_metrics ds)\<rparr>"

definition metric_resource_step ::
  "'re plan_lib \<Rightarrow> 're keyPlan \<Rightarrow> point_item \<Rightarrow> dest_metric_resource \<Rightarrow> dest_metric_resource" where
  "metric_resource_step lib plan x dr =
     dr\<lparr>dm_resource := res_of_item lib plan (mi_rm x) (mi_dp x) (dm_resource dr),
        dm_scopes := find_or_create (mi_i x, mi_j x)
          \<lparr>ds_scope = sg_scope (mi_sm x), ds_schema = sg_schema (mi_sm x), ds_metrics = []\<rparr>
          (metric_scope_step lib plan x) (dm_scopes dr)\<rparr>"

definition point_step :: "'re plan_lib \<Rightarrow> 're keyPlan \<Rightarrow> point_item \<Rightarrow> metricBucket \<Rightarrow> metricBucket" where
  "point_step lib plan x =
     find_or_create (mi_i x) \<lparr>dm_resource = rg_resource (mi_rm x), dm_schema = rg_schema (mi_rm x), dm_scopes = []\<rparr>
       (metric_resource_step lib plan x)"

lemma point_resource_parts:
  "promote_on from_resource plan (point_parts lib plan rm m d) a =
     promote_on from_resource plan (resolveParts lib plan (res_attrs (rg_resource rm)) [] emptyAttrs) a"
  unfolding point_parts_def resolveParts_def by (rule promote_on_cong) (simp add: resolve_part_def)

lemma add_point_eq:
  "add_point plan (point_parts lib plan rm m (Some dp)) i j k rm sm m dp =
     point_step lib plan \<lparr>mi_i = i, mi_j = j, mi_k = k, mi_rm = rm, mi_sm = sm, mi_m = m, mi_dp = Some dp\<rparr>"
proof (cases "hasPromotion plan")
  case True
  then show ?thesis
    by (simp add: fun_eq_iff add_point_def point_step_def ensureMetric_def metric_resource_step_def [abs_def]
        metric_scope_step_def [abs_def] metric_step_def res_of_item_def metric_of_item_def [abs_def]
        promoted_point_def applyPromotions_eq point_resource_parts)
next
  case False
  then show ?thesis
    by (simp add: fun_eq_iff add_point_def point_step_def ensureMetric_def metric_resource_step_def [abs_def]
        metric_scope_step_def [abs_def] metric_step_def res_of_item_def metric_of_item_def [abs_def]
        promoted_point_def no_promotion)
qed

lemma ensure_shell_eq:
  "ensureMetric i j k rm sm m (\<lambda>r. r) (\<lambda>m. m) =
     point_step lib plan \<lparr>mi_i = i, mi_j = j, mi_k = k, mi_rm = rm, mi_sm = sm, mi_m = m, mi_dp = None\<rparr>"
  by (simp add: fun_eq_iff point_step_def ensureMetric_def metric_resource_step_def [abs_def]
      metric_scope_step_def [abs_def] metric_step_def res_of_item_def metric_of_item_def [abs_def])

text \<open>The items of a metric, a scope, a resource and a batch that satisfy \<open>P\<close>.\<close>

definition mblock ::
  "(metric resource_group \<Rightarrow> metric \<Rightarrow> datapoint option \<Rightarrow> bool) \<Rightarrow> nat \<Rightarrow> metric resource_group \<Rightarrow> nat \<Rightarrow>
   metric scope_group \<Rightarrow> nat \<Rightarrow> metric \<Rightarrow> point_item list" where
  "mblock P i rm j sm k m =
     map (\<lambda>d. \<lparr>mi_i = i, mi_j = j, mi_k = k, mi_rm = rm, mi_sm = sm, mi_m = m, mi_dp = d\<rparr>)
       (filter (P rm m) (points_of m))"

definition sblock ::
  "(metric resource_group \<Rightarrow> metric \<Rightarrow> datapoint option \<Rightarrow> bool) \<Rightarrow> nat \<Rightarrow> metric resource_group \<Rightarrow> nat \<Rightarrow>
   metric scope_group \<Rightarrow> point_item list" where
  "sblock P i rm j sm = concat (map (\<lambda>(k, m). mblock P i rm j sm k m) (List.enumerate 0 (sg_leaves sm)))"

definition rblock ::
  "(metric resource_group \<Rightarrow> metric \<Rightarrow> datapoint option \<Rightarrow> bool) \<Rightarrow> nat \<Rightarrow> metric resource_group \<Rightarrow> point_item list" where
  "rblock P i rm = concat (map (\<lambda>(j, sm). sblock P i rm j sm) (List.enumerate 0 (rg_scopes rm)))"

definition point_items ::
  "(metric resource_group \<Rightarrow> metric \<Rightarrow> datapoint option \<Rightarrow> bool) \<Rightarrow> metrics \<Rightarrow> point_item list" where
  "point_items P md = concat (map (\<lambda>(i, rm). rblock P i rm) (List.enumerate 0 md))"

abbreviation mitem_key :: "'re plan_lib \<Rightarrow> 're keyPlan \<Rightarrow> point_item \<Rightarrow> string" where
  "mitem_key lib plan x \<equiv> point_key lib plan (mi_rm x) (mi_m x) (mi_dp x)"

lemma group_metric_fold:
  "group_metric lib plan i rm j sm k m byKey =
     fold (\<lambda>x. find_or_create (mitem_key lib plan x) [] (point_step lib plan x)) (mblock (\<lambda>_ _ _. True) i rm j sm k m) byKey"
proof -
  let ?x = "\<lambda>d. \<lparr>mi_i = i, mi_j = j, mi_k = k, mi_rm = rm, mi_sm = sm, mi_m = m, mi_dp = d\<rparr>"
  let ?f = "\<lambda>dp (seen :: bool, mm).
      let parts = resolveParts lib plan (res_attrs (rg_resource rm)) (m_name m) (dp_attrs dp)
      in (True, find_or_create (joinParts parts) [] (add_point plan parts i j k rm sm m dp) mm)"
  have f: "?f dp (seen, mm) = (True, find_or_create (mitem_key lib plan (?x (Some dp))) []
      (point_step lib plan (?x (Some dp))) mm)" for dp seen mm
    by (simp add: Let_def point_key_def point_parts_def flip: add_point_eq)
  have "fold ?f ds (seen, mm) = (seen \<or> ds \<noteq> [],
      fold (\<lambda>d. find_or_create (mitem_key lib plan (?x (Some d))) [] (point_step lib plan (?x (Some d)))) ds mm)"
    for ds seen mm
    by (induction ds arbitrary: seen mm) (simp_all only: f fold_simps list.simps comp_apply, simp_all)
  then show ?thesis
    by (simp add: group_metric_def eachMetricDataPoint_fold mblock_def points_of_def fold_pair Let_def
        point_key_def point_parts_def flip: ensure_shell_eq)
qed

subsection \<open>What the groups are\<close>

definition key_points ::
  "'re plan_lib \<Rightarrow> 're keyPlan \<Rightarrow> string \<Rightarrow> metric resource_group \<Rightarrow> metric \<Rightarrow> datapoint option list" where
  "key_points lib plan k rm m = filter (\<lambda>d. point_key lib plan rm m d = k) (points_of m)"

definition somes :: "'a option list \<Rightarrow> 'a list" where
  "somes ds = map the (filter (\<lambda>d. d \<noteq> None) ds)"

definition restrict_metric ::
  "'re plan_lib \<Rightarrow> 're keyPlan \<Rightarrow> string \<Rightarrow> metric resource_group \<Rightarrow> metric \<Rightarrow> metric" where
  "restrict_metric lib plan k rm m =
     with_points m (map (promoted_point lib plan rm m) (somes (key_points lib plan k rm m)))"

definition restrict_metric_scope ::
  "'re plan_lib \<Rightarrow> 're keyPlan \<Rightarrow> string \<Rightarrow> metric resource_group \<Rightarrow> metric scope_group \<Rightarrow> metric scope_group" where
  "restrict_metric_scope lib plan k rm sm =
     \<lparr>sg_scope = sg_scope sm, sg_schema = sg_schema sm,
      sg_leaves = map (restrict_metric lib plan k rm) (filter (\<lambda>m. key_points lib plan k rm m \<noteq> []) (sg_leaves sm))\<rparr>"

text \<open>Only a datapoint promotes onto the resource; a resource kept for empty metrics alone stays.\<close>

definition restrict_metric_resource ::
  "'re plan_lib \<Rightarrow> 're keyPlan \<Rightarrow> string \<Rightarrow> metric resource_group \<Rightarrow> metric resource_group" where
  "restrict_metric_resource lib plan k rm =
     \<lparr>rg_resource = (if list_ex (\<lambda>m. somes (key_points lib plan k rm m) \<noteq> []) (group_leaves rm)
        then promoted_resource lib plan (rg_resource rm) else rg_resource rm),
      rg_schema = rg_schema rm,
      rg_scopes = filter (\<lambda>sm. sg_leaves sm \<noteq> []) (map (restrict_metric_scope lib plan k rm) (rg_scopes rm))\<rparr>"

definition restrict_metrics :: "'re plan_lib \<Rightarrow> 're keyPlan \<Rightarrow> string \<Rightarrow> metrics \<Rightarrow> metrics" where
  "restrict_metrics lib plan k md =
     filter (\<lambda>rm. rg_scopes rm \<noteq> []) (map (restrict_metric_resource lib plan k) md)"

definition metric_keys :: "'re plan_lib \<Rightarrow> 're keyPlan \<Rightarrow> metrics \<Rightarrow> string list" where
  "metric_keys lib plan md =
     concat (map (\<lambda>rm. concat (map (\<lambda>m. map (point_key lib plan rm m) (points_of m)) (group_leaves rm))) md)"

abbreviation mkey :: "'re plan_lib \<Rightarrow> 're keyPlan \<Rightarrow> string \<Rightarrow> metric resource_group \<Rightarrow> metric \<Rightarrow> datapoint option \<Rightarrow> bool" where
  "mkey lib plan k rm m d \<equiv> point_key lib plan rm m d = k"

lemma mblock_mem: "x \<in> set (mblock P i rm j sm k m) \<Longrightarrow>
    mi_i x = i \<and> mi_j x = j \<and> mi_k x = k \<and> mi_rm x = rm \<and> mi_sm x = sm \<and> mi_m x = m"
  by (auto simp: mblock_def)

lemma sblock_mem: "x \<in> set (sblock P i rm j sm) \<Longrightarrow> mi_i x = i \<and> mi_j x = j \<and> mi_rm x = rm \<and> mi_sm x = sm"
  by (auto simp: sblock_def dest: mblock_mem)

lemma rblock_mem: "x \<in> set (rblock P i rm) \<Longrightarrow> mi_i x = i \<and> mi_rm x = rm"
  by (auto simp: rblock_def dest: sblock_mem)

lemma filter_point_items:
  "filter (\<lambda>x. P (mi_rm x) (mi_m x) (mi_dp x)) (point_items (\<lambda>_ _ _. True) md) = point_items P md"
  by (simp add: point_items_def rblock_def sblock_def mblock_def filter_concat filter_map comp_def split_def)

text \<open>The datapoints of one metric, folded into its shell.\<close>

lemma fold_metric_items:
  assumes "m_data m \<noteq> MetricTypeEmpty \<or> somes ds = []"
  shows "fold (\<lambda>d. metric_of_item lib plan rm m d) ds (with_points m es) =
    with_points m (es @ map (promoted_point lib plan rm m) (somes ds))"
  using assms
proof (induction ds arbitrary: es)
  case (Cons d ds)
  show ?case
  proof (cases d)
    case None
    with Cons show ?thesis by (auto simp: metric_of_item_def somes_def)
  next
    case (Some dp)
    with Cons have "m_data m \<noteq> MetricTypeEmpty" by (auto simp: somes_def)
    with Some Cons show ?thesis by (simp add: metric_of_item_def somes_def append_point_with)
  qed
qed (simp add: somes_def)

lemma somes_empty_metric: "m_data m \<noteq> MetricTypeEmpty \<or> somes (key_points lib plan k rm m) = []"
  by (cases "m_data m") (auto simp: key_points_def points_of_def somes_def filter_empty_conv)

lemma fold_mblock:
  assumes "mblock (mkey lib plan k) i rm j sm kk m \<noteq> []"
  shows "fold (\<lambda>x. metric_of_item lib plan (mi_rm x) (mi_m x) (mi_dp x)) (mblock (mkey lib plan k) i rm j sm kk m)
      (copyMetricShell (mi_m (hd (mblock (mkey lib plan k) i rm j sm kk m)))) = restrict_metric lib plan k rm m"
proof -
  have "mi_m (hd (mblock (mkey lib plan k) i rm j sm kk m)) = m"
    using mblock_mem [OF hd_in_set [OF assms]] by blast
  then show ?thesis
    using fold_metric_items [where m = m and ds = "key_points lib plan k rm m" and es = "[]"
        and lib = lib and plan = plan and rm = rm, OF somes_empty_metric]
    by (simp add: mblock_def fold_pair restrict_metric_def key_points_def [symmetric] shell_eq)
qed

lemma mblock_Nil: "mblock (mkey lib plan k) i rm j sm kk m = [] \<longleftrightarrow> key_points lib plan k rm m = []"
  by (simp add: mblock_def key_points_def)

lemma fold_sblock:
  assumes "sblock (mkey lib plan k) i rm j sm \<noteq> []"
  shows "(\<lambda>ds. \<lparr>sg_scope = ds_scope ds, sg_schema = ds_schema ds, sg_leaves = map snd (ds_metrics ds)\<rparr>)
     (fold (metric_scope_step lib plan) (sblock (mkey lib plan k) i rm j sm)
       ((\<lambda>x. \<lparr>ds_scope = sg_scope (mi_sm x), ds_schema = sg_schema (mi_sm x), ds_metrics = []\<rparr>)
          (hd (sblock (mkey lib plan k) i rm j sm)))) = restrict_metric_scope lib plan k rm sm"
proof -
  have hd: "mi_sm (hd (sblock (mkey lib plan k) i rm j sm)) = sm"
    using sblock_mem [OF hd_in_set [OF assms]] by blast
  have steps: "fold (metric_scope_step lib plan) xs ds = ds\<lparr>ds_metrics := fold (metric_step lib plan) xs (ds_metrics ds)\<rparr>"
    for xs ds
    by (induction xs arbitrary: ds) (simp_all add: metric_scope_step_def)
  let ?B = "mblock (mkey lib plan k) i rm j sm"
  have "fold (metric_step lib plan) (sblock (mkey lib plan k) i rm j sm) [] =
     map (\<lambda>(kk, m). ((i, j, kk), fold (\<lambda>x. metric_of_item lib plan (mi_rm x) (mi_m x) (mi_dp x)) (?B kk m)
          (copyMetricShell (mi_m (hd (?B kk m))))))
       (filter (\<lambda>(kk, m). ?B kk m \<noteq> []) (List.enumerate 0 (sg_leaves sm)))"
    unfolding metric_step_def [abs_def] sblock_def
    by (rule fold_blocks) (auto dest: mblock_mem simp: inj_def)
  also have "\<dots> = map (\<lambda>(kk, m). ((i, j, kk), restrict_metric lib plan k rm m))
       (filter (\<lambda>(kk, m). ?B kk m \<noteq> []) (List.enumerate 0 (sg_leaves sm)))"
    by (rule map_cong [OF refl]) (auto simp: fold_mblock)
  finally have "map snd (fold (metric_step lib plan) (sblock (mkey lib plan k) i rm j sm) []) =
     map (\<lambda>(kk, m). restrict_metric lib plan k rm m)
       (filter (\<lambda>(kk, m). key_points lib plan k rm m \<noteq> []) (List.enumerate 0 (sg_leaves sm)))"
    by (simp add: comp_def split_def mblock_Nil)
  then show ?thesis
    by (simp add: steps hd restrict_metric_scope_def enumerate_filter_map)
qed

lemma sblock_Nil: "sg_leaves (restrict_metric_scope lib plan k rm sm) = [] \<longleftrightarrow> sblock (mkey lib plan k) i rm j sm = []"
proof -
  have "sblock (mkey lib plan k) i rm j sm = [] \<longleftrightarrow>
      (\<forall>(kk, m)\<in>set (List.enumerate 0 (sg_leaves sm)). key_points lib plan k rm m = [])"
    by (auto simp: sblock_def mblock_Nil)
  also have "\<dots> \<longleftrightarrow> (\<forall>m\<in>snd ` set (List.enumerate 0 (sg_leaves sm)). key_points lib plan k rm m = [])"
    by (simp add: split_def)
  also have "snd ` set (List.enumerate 0 (sg_leaves sm)) = set (sg_leaves sm)"
    by (metis list.set_map map_snd_enumerate)
  finally show ?thesis by (simp add: restrict_metric_scope_def filter_empty_conv)
qed

text \<open>A resource: promoted once if any datapoint reached it, its scopes folded block by block.\<close>

definition on_metric_resource :: "'re plan_lib \<Rightarrow> 're keyPlan \<Rightarrow> metric resource_group \<Rightarrow> resource \<Rightarrow> resource" where
  "on_metric_resource lib plan rm r =
     r\<lparr>res_attrs := promote_on from_resource plan
        (resolveParts lib plan (res_attrs (rg_resource rm)) [] emptyAttrs) (res_attrs r)\<rparr>"

lemma on_metric_resource_idem:
  "on_metric_resource lib plan rm (on_metric_resource lib plan rm r) = on_metric_resource lib plan rm r"
  by (simp add: on_metric_resource_def resolveParts_def promote_on_idem)

abbreviation scope_fold :: "'re plan_lib \<Rightarrow> 're keyPlan \<Rightarrow> point_item \<Rightarrow> ((nat \<times> nat) \<times> dest_metric_scope) list \<Rightarrow>
    ((nat \<times> nat) \<times> dest_metric_scope) list" where
  "scope_fold lib plan x \<equiv> find_or_create (mi_i x, mi_j x)
     \<lparr>ds_scope = sg_scope (mi_sm x), ds_schema = sg_schema (mi_sm x), ds_metrics = []\<rparr> (metric_scope_step lib plan x)"

lemma fold_metric_resource_steps:
  assumes "\<forall>x\<in>set xs. mi_rm x = rm"
  shows "fold (metric_resource_step lib plan) xs dr =
     dr\<lparr>dm_resource := (if list_ex (\<lambda>x. mi_dp x \<noteq> None) xs then on_metric_resource lib plan rm (dm_resource dr)
          else dm_resource dr),
        dm_scopes := fold (scope_fold lib plan) xs (dm_scopes dr)\<rparr>"
  using assms
proof (induction xs arbitrary: dr)
  case (Cons x xs)
  then show ?case
    by (cases "mi_dp x") (simp_all add: metric_resource_step_def res_of_item_def on_metric_resource_idem
        flip: on_metric_resource_def)
qed simp

lemma rblock_points:
  "list_ex (\<lambda>x. mi_dp x \<noteq> None) (rblock (mkey lib plan k) i rm) =
     list_ex (\<lambda>m. somes (key_points lib plan k rm m) \<noteq> []) (group_leaves rm)"
proof -
  have m: "list_ex (\<lambda>x. mi_dp x \<noteq> None) (mblock (mkey lib plan k) i rm j sm kk m) = (somes (key_points lib plan k rm m) \<noteq> [])"
    for j sm kk m
    by (auto simp: mblock_def list_ex_iff somes_def key_points_def filter_empty_conv)
  have s: "list_ex (\<lambda>x. mi_dp x \<noteq> None) (sblock (mkey lib plan k) i rm j sm) =
      list_ex (\<lambda>m. somes (key_points lib plan k rm m) \<noteq> []) (sg_leaves sm)" for j sm
    by (simp only: sblock_def list_ex_concat list_ex_map_comp split_def m list_ex_enumerate [where P = "\<lambda>m. somes (key_points lib plan k rm m) \<noteq> []"])
  show ?thesis
    by (simp only: rblock_def list_ex_concat list_ex_map_comp split_def s group_leaves_def
        list_ex_enumerate [where P = "\<lambda>sm. list_ex (\<lambda>m. somes (key_points lib plan k rm m) \<noteq> []) (sg_leaves sm)"])
qed

lemma fold_rblock:
  assumes "rblock (mkey lib plan k) i rm \<noteq> []"
  shows "(\<lambda>dr. \<lparr>rg_resource = dm_resource dr, rg_schema = dm_schema dr,
       rg_scopes = map (\<lambda>(p, ds). \<lparr>sg_scope = ds_scope ds, sg_schema = ds_schema ds,
         sg_leaves = map snd (ds_metrics ds)\<rparr>) (dm_scopes dr)\<rparr>)
     (fold (metric_resource_step lib plan) (rblock (mkey lib plan k) i rm)
       ((\<lambda>x. \<lparr>dm_resource = rg_resource (mi_rm x), dm_schema = rg_schema (mi_rm x), dm_scopes = []\<rparr>)
          (hd (rblock (mkey lib plan k) i rm)))) = restrict_metric_resource lib plan k rm"
proof -
  have hd: "mi_rm (hd (rblock (mkey lib plan k) i rm)) = rm"
    using rblock_mem [OF hd_in_set [OF assms]] by blast
  have "\<forall>x\<in>set (rblock (mkey lib plan k) i rm). mi_rm x = rm" using rblock_mem by blast
  note steps = fold_metric_resource_steps [OF this]
  let ?B = "sblock (mkey lib plan k) i rm"
  let ?out = "\<lambda>ds. \<lparr>sg_scope = ds_scope ds, sg_schema = ds_schema ds, sg_leaves = map snd (ds_metrics ds)\<rparr>"
  let ?new = "\<lambda>x. \<lparr>ds_scope = sg_scope (mi_sm x), ds_schema = sg_schema (mi_sm x), ds_metrics = []\<rparr>"
  have "fold (scope_fold lib plan) (rblock (mkey lib plan k) i rm) [] =
     map (\<lambda>(j, sm). ((i, j), fold (metric_scope_step lib plan) (?B j sm) (?new (hd (?B j sm)))))
       (filter (\<lambda>(j, sm). ?B j sm \<noteq> []) (List.enumerate 0 (rg_scopes rm)))"
    unfolding rblock_def by (rule fold_blocks) (auto dest: sblock_mem simp: inj_def)
  then have "map (\<lambda>(p, ds). ?out ds) (fold (scope_fold lib plan) (rblock (mkey lib plan k) i rm) []) =
     map (\<lambda>(j, sm). ?out (fold (metric_scope_step lib plan) (?B j sm) (?new (hd (?B j sm)))))
       (filter (\<lambda>(j, sm). ?B j sm \<noteq> []) (List.enumerate 0 (rg_scopes rm)))"
    by (simp add: comp_def split_def)
  also have "\<dots> = map (\<lambda>(j, sm). restrict_metric_scope lib plan k rm sm)
       (filter (\<lambda>(j, sm). ?B j sm \<noteq> []) (List.enumerate 0 (rg_scopes rm)))"
    by (rule map_cong [OF refl]) (use fold_sblock in \<open>auto\<close>)
  also have "\<dots> = map (\<lambda>(j, sm). restrict_metric_scope lib plan k rm sm)
       (filter (\<lambda>(j, sm). sg_leaves (restrict_metric_scope lib plan k rm sm) \<noteq> []) (List.enumerate 0 (rg_scopes rm)))"
    by (simp add: split_def flip: sblock_Nil)
  also have "\<dots> = rg_scopes (restrict_metric_resource lib plan k rm)"
    by (simp add: enumerate_filter_map restrict_metric_resource_def filter_map comp_def)
  finally have scopes: "map (\<lambda>(p, ds). ?out ds) (fold (scope_fold lib plan) (rblock (mkey lib plan k) i rm) []) =
      rg_scopes (restrict_metric_resource lib plan k rm)" .
  have "restrict_metric_resource lib plan k rm = \<lparr>rg_resource =
      (if list_ex (\<lambda>m. somes (key_points lib plan k rm m) \<noteq> []) (group_leaves rm)
       then promoted_resource lib plan (rg_resource rm) else rg_resource rm), rg_schema = rg_schema rm,
      rg_scopes = rg_scopes (restrict_metric_resource lib plan k rm)\<rparr>"
    by (simp add: restrict_metric_resource_def)
  then show ?thesis
    by (rule trans [OF _ sym, rotated])
      (simp add: steps hd scopes rblock_points [unfolded not_None_eq] on_metric_resource_def promoted_resource_def)
qed

lemma rblock_Nil: "rg_scopes (restrict_metric_resource lib plan k rm) = [] \<longleftrightarrow> rblock (mkey lib plan k) i rm = []"
proof -
  have "rblock (mkey lib plan k) i rm = [] \<longleftrightarrow>
      (\<forall>(j, sm)\<in>set (List.enumerate 0 (rg_scopes rm)). sg_leaves (restrict_metric_scope lib plan k rm sm) = [])"
    by (simp add: rblock_def split_def flip: sblock_Nil)
  also have "\<dots> \<longleftrightarrow> (\<forall>sm\<in>snd ` set (List.enumerate 0 (rg_scopes rm)). sg_leaves (restrict_metric_scope lib plan k rm sm) = [])"
    by (simp add: split_def)
  also have "snd ` set (List.enumerate 0 (rg_scopes rm)) = set (rg_scopes rm)"
    by (metis list.set_map map_snd_enumerate)
  finally show ?thesis by (simp add: restrict_metric_resource_def filter_empty_conv)
qed

lemma fold_metric_bucket:
  "metric_bucket_batch (fold (point_step lib plan) (point_items (mkey lib plan k) md) []) = restrict_metrics lib plan k md"
proof -
  let ?B = "rblock (mkey lib plan k)"
  let ?out = "\<lambda>dr. \<lparr>rg_resource = dm_resource dr, rg_schema = dm_schema dr,
       rg_scopes = map (\<lambda>(p, ds). \<lparr>sg_scope = ds_scope ds, sg_schema = ds_schema ds,
         sg_leaves = map snd (ds_metrics ds)\<rparr>) (dm_scopes dr)\<rparr>"
  let ?new = "\<lambda>x. \<lparr>dm_resource = rg_resource (mi_rm x), dm_schema = rg_schema (mi_rm x), dm_scopes = []\<rparr>"
  have "fold (point_step lib plan) (point_items (mkey lib plan k) md) [] =
     map (\<lambda>(i, rm). (i, fold (metric_resource_step lib plan) (?B i rm) (?new (hd (?B i rm)))))
       (filter (\<lambda>(i, rm). ?B i rm \<noteq> []) (List.enumerate 0 md))"
    unfolding point_items_def point_step_def [abs_def]
    by (rule fold_blocks [where e = "\<lambda>i. i"]) (auto dest: rblock_mem)
  then have "metric_bucket_batch (fold (point_step lib plan) (point_items (mkey lib plan k) md) []) =
     map (\<lambda>(i, rm). ?out (fold (metric_resource_step lib plan) (?B i rm) (?new (hd (?B i rm)))))
       (filter (\<lambda>(i, rm). ?B i rm \<noteq> []) (List.enumerate 0 md))"
    by (simp add: metric_bucket_batch_def comp_def split_def)
  also have "\<dots> = map (\<lambda>(i, rm). restrict_metric_resource lib plan k rm)
       (filter (\<lambda>(i, rm). ?B i rm \<noteq> []) (List.enumerate 0 md))"
    by (rule map_cong [OF refl]) (use fold_rblock in \<open>auto\<close>)
  also have "\<dots> = map (\<lambda>(i, rm). restrict_metric_resource lib plan k rm)
       (filter (\<lambda>(i, rm). rg_scopes (restrict_metric_resource lib plan k rm) \<noteq> []) (List.enumerate 0 md))"
    by (simp add: split_def flip: rblock_Nil)
  finally show ?thesis
    by (simp only: enumerate_filter_map) (simp add: restrict_metrics_def filter_map comp_def)
qed

lemma metric_keys_items: "map (mitem_key lib plan) (point_items (\<lambda>_ _ _. True) md) = metric_keys lib plan md"
proof -
  have s: "map (mitem_key lib plan) (sblock (\<lambda>_ _ _. True) i rm j sm) =
      concat (map (\<lambda>m. map (point_key lib plan rm m) (points_of m)) (sg_leaves sm))" for i rm j sm
    by (simp add: sblock_def mblock_def map_concat comp_def split_def
        map_enumerate_snd [where f = "\<lambda>m. map (point_key lib plan rm m) (points_of m)"])
  have r: "map (mitem_key lib plan) (rblock (\<lambda>_ _ _. True) i rm) =
      concat (map (\<lambda>m. map (point_key lib plan rm m) (points_of m)) (group_leaves rm))" for i rm
    by (simp add: rblock_def map_concat comp_def split_def s group_leaves_def concat_map_concat
        map_enumerate_snd [where f = "\<lambda>sm. concat (map (\<lambda>m. map (point_key lib plan rm m) (points_of m)) (sg_leaves sm))"])
  show ?thesis
    by (simp add: point_items_def map_concat comp_def split_def r metric_keys_def
        map_enumerate_snd [where f = "\<lambda>rm. concat (map (\<lambda>m. map (point_key lib plan rm m) (points_of m)) (group_leaves rm))"])
qed

lemma group_metrics_spec:
  "groupMetricsByLeaf lib md plan =
     map (\<lambda>k. \<lparr>tb_key = k, tb_batch = restrict_metrics lib plan k md\<rparr>) (first_seen (metric_keys lib plan md))"
proof -
  let ?G = "\<lambda>x. find_or_create (mitem_key lib plan x) [] (point_step lib plan x)"
  have "fold (\<lambda>(i, rm) m. fold (\<lambda>(j, sm) m. fold (\<lambda>(k, mt) m. group_metric lib plan i rm j sm k mt m)
          (List.enumerate 0 (sg_leaves sm)) m) (List.enumerate 0 (rg_scopes rm)) m) (List.enumerate 0 md) [] =
      fold ?G (point_items (\<lambda>_ _ _. True) md) []"
    by (simp add: group_metric_fold point_items_def rblock_def sblock_def fold_concat_map split_def)
  also have "\<dots> = map (\<lambda>(k, xs). (k, fold (point_step lib plan) xs []))
      (group_by (mitem_key lib plan) (point_items (\<lambda>_ _ _. True) md))"
    by (rule fold_find_or_create [where new = "\<lambda>_. []"])
  finally show ?thesis
    by (simp add: groupMetricsByLeaf_def Let_def split_def comp_def group_by_def metric_keys_items
        fold_metric_bucket filter_point_items [where P = "mkey lib plan k" for k])
qed

subsection \<open>Every datapoint once\<close>

definition key_of_point ::
  "'re plan_lib \<Rightarrow> 're keyPlan \<Rightarrow> resource \<times> string \<times> scope \<times> string \<times> metric \<times> datapoint \<Rightarrow> string" where
  "key_of_point lib plan = (\<lambda>(r, rs, s, ss, sh, dp). joinParts (resolveParts lib plan (res_attrs r) (m_name sh) (dp_attrs dp)))"

definition promote_point ::
  "'re plan_lib \<Rightarrow> 're keyPlan \<Rightarrow> resource \<times> string \<times> scope \<times> string \<times> metric \<times> datapoint \<Rightarrow>
   resource \<times> string \<times> scope \<times> string \<times> metric \<times> datapoint" where
  "promote_point lib plan = (\<lambda>(r, rs, s, ss, sh, dp). (promoted_resource lib plan r, rs, s, ss, sh,
     dp\<lparr>dp_attrs := promote_on from_leaf plan (resolveParts lib plan (res_attrs r) (m_name sh) (dp_attrs dp)) (dp_attrs dp)\<rparr>))"

definition resource_points ::
  "resource \<Rightarrow> metric resource_group \<Rightarrow> (resource \<times> string \<times> scope \<times> string \<times> metric \<times> datapoint) list" where
  "resource_points r rm = concat (map (\<lambda>sm. concat (map (\<lambda>m.
     map (\<lambda>d. (r, rg_schema rm, sg_scope sm, sg_schema sm, copyMetricShell m, d)) (data_points (m_data m)))
     (sg_leaves sm))) (rg_scopes rm))"

lemma dp_items_resources: "dp_items md = concat (map (\<lambda>rm. resource_points (rg_resource rm) rm) md)"
proof -
  have r: "concat (map (\<lambda>(r, rs, s, ss, m). map (\<lambda>d. (r, rs, s, ss, copyMetricShell m, d)) (data_points (m_data m)))
      (group_items rm)) = resource_points (rg_resource rm) rm" for rm
    by (simp add: group_items_def resource_points_def map_concat comp_def concat_map_concat)
  show ?thesis by (induction md) (simp_all add: dp_items_def r)
qed

lemma somes_key_points:
  "somes (key_points lib plan k rm m) = filter (\<lambda>dp. point_key lib plan rm m (Some dp) = k) (data_points (m_data m))"
  by (cases "data_points (m_data m)") (auto simp: somes_def key_points_def points_of_def filter_map comp_def)

lemma restrict_metric_points:
  "data_points (m_data (restrict_metric lib plan k rm m)) =
     map (promoted_point lib plan rm m) (filter (\<lambda>dp. point_key lib plan rm m (Some dp) = k) (data_points (m_data m)))"
  by (cases "m_data m") (simp_all add: restrict_metric_def somes_key_points set_points_def)

lemma restrict_metric_shell: "copyMetricShell (restrict_metric lib plan k rm m) = copyMetricShell m"
  by (simp add: restrict_metric_def shell_eq)

lemma concat_drop_Nil: "(\<And>x. x \<in> set xs \<Longrightarrow> \<not> P x \<Longrightarrow> f x = []) \<Longrightarrow> concat (map f (filter P xs)) = concat (map f xs)"
  by (induction xs) auto

lemma resource_points_restrict:
  "resource_points r (restrict_metric_resource lib plan k rm) =
     concat (map (\<lambda>sm. concat (map (\<lambda>m. map (\<lambda>d. (r, rg_schema rm, sg_scope sm, sg_schema sm, copyMetricShell m,
         promoted_point lib plan rm m d)) (filter (\<lambda>dp. point_key lib plan rm m (Some dp) = k) (data_points (m_data m))))
       (sg_leaves sm))) (rg_scopes rm))"
proof -
  let ?g = "\<lambda>sm m. map (\<lambda>d. (r, rg_schema rm, sg_scope sm, sg_schema sm, copyMetricShell m,
         promoted_point lib plan rm m d)) (filter (\<lambda>dp. point_key lib plan rm m (Some dp) = k) (data_points (m_data m)))"
  have "filter (\<lambda>dp. point_key lib plan rm m (Some dp) = k) (data_points (m_data m)) = []"
    if "key_points lib plan k rm m = []" for m
    using that somes_key_points [of lib plan k rm m] by (simp add: somes_def)
  then have scope: "concat (map (?g sm) (filter (\<lambda>m. key_points lib plan k rm m \<noteq> []) ms)) = concat (map (?g sm) ms)" for sm ms
    by (intro concat_drop_Nil) simp
  have "resource_points r (restrict_metric_resource lib plan k rm) =
      concat (map (\<lambda>sm. concat (map (\<lambda>m. map (\<lambda>d. (r, rg_schema rm, sg_scope sm, sg_schema sm, copyMetricShell m, d))
        (data_points (m_data m))) (sg_leaves sm))) (map (restrict_metric_scope lib plan k rm) (rg_scopes rm)))"
    unfolding resource_points_def restrict_metric_resource_def resource_group.simps
    by (rule concat_drop_Nil) simp
  also have "\<dots> = concat (map (\<lambda>sm. concat (map (?g sm) (filter (\<lambda>m. key_points lib plan k rm m \<noteq> []) (sg_leaves sm)))) (rg_scopes rm))"
    by (simp add: restrict_metric_scope_def comp_def restrict_metric_points restrict_metric_shell)
  finally show ?thesis by (simp only: scope)
qed

lemma shell_name [simp]: "m_name (copyMetricShell m) = m_name m"
  by (simp add: copyMetricShell_def)

lemma resource_points_promoted:
  "resource_points (promoted_resource lib plan (rg_resource rm)) (restrict_metric_resource lib plan k rm) =
     map (promote_point lib plan) (filter (\<lambda>x. key_of_point lib plan x = k) (resource_points (rg_resource rm) rm))"
  unfolding resource_points_restrict
  by (simp add: resource_points_def map_concat filter_concat filter_map comp_def promote_point_def key_of_point_def
      promoted_point_def point_key_def point_parts_def)

lemma dp_items_restrict:
  "dp_items (restrict_metrics lib plan k md) =
     map (promote_point lib plan) (filter (\<lambda>x. key_of_point lib plan x = k) (dp_items md))"
proof -
  have res: "resource_points (rg_resource (restrict_metric_resource lib plan k rm)) (restrict_metric_resource lib plan k rm) =
      map (promote_point lib plan) (filter (\<lambda>x. key_of_point lib plan x = k) (resource_points (rg_resource rm) rm))" for rm
  proof (cases "list_ex (\<lambda>m. somes (key_points lib plan k rm m) \<noteq> []) (group_leaves rm)")
    case True
    then have "rg_resource (restrict_metric_resource lib plan k rm) = promoted_resource lib plan (rg_resource rm)"
      by (simp add: restrict_metric_resource_def)
    then show ?thesis by (simp only: resource_points_promoted)
  next
    case False
    then have "resource_points r (restrict_metric_resource lib plan k rm) = []" for r
      unfolding resource_points_restrict by (simp add: list_ex_iff group_leaves_def somes_key_points)
    then show ?thesis using resource_points_promoted [of lib plan rm k] by simp
  qed
  have "dp_items (restrict_metrics lib plan k md) =
      concat (map (\<lambda>rm. resource_points (rg_resource rm) rm) (map (restrict_metric_resource lib plan k) md))"
    unfolding dp_items_resources restrict_metrics_def
    by (rule concat_drop_Nil) (simp add: resource_points_def)
  then show ?thesis
    by (simp add: res comp_def dp_items_resources map_concat filter_concat)
qed

lemma key_of_point_seen:
  assumes "x \<in> set (dp_items md)"
  shows "key_of_point lib plan x \<in> set (metric_keys lib plan md)"
proof -
  obtain rm sm m d where "rm \<in> set md" "sm \<in> set (rg_scopes rm)" "m \<in> set (sg_leaves sm)" "d \<in> set (data_points (m_data m))"
    "x = (rg_resource rm, rg_schema rm, sg_scope sm, sg_schema sm, copyMetricShell m, d)"
    using assms by (auto simp: dp_items_resources resource_points_def)
  moreover then have "Some d \<in> set (points_of m)" by (auto simp: points_of_def)
  ultimately show ?thesis
    by (force simp: metric_keys_def group_leaves_def key_of_point_def point_key_def point_parts_def)
qed

lemma metrics_by_leaf_items:
  "mset (concat (map (dp_items \<circ> tb_batch) (groupMetricsByLeaf lib md plan))) =
     image_mset (promote_point lib plan) (mset (dp_items md))"
proof -
  have "concat (map (dp_items \<circ> tb_batch) (groupMetricsByLeaf lib md plan)) =
      map (promote_point lib plan)
        (concat (map (\<lambda>k. filter (\<lambda>x. key_of_point lib plan x = k) (dp_items md)) (first_seen (metric_keys lib plan md))))"
    by (simp add: group_metrics_spec dp_items_restrict map_concat comp_def)
  moreover have "mset (concat (map (\<lambda>k. filter (\<lambda>x. key_of_point lib plan x = k) (dp_items md))
      (first_seen (metric_keys lib plan md)))) = mset (dp_items md)"
    by (rule mset_by_keys) (simp_all add: key_of_point_seen)
  ultimately show ?thesis by simp
qed

lemma metrics_by_resource_items:
  assumes "resourceOnly plan"
  shows "mset (concat (map (dp_items \<circ> tb_batch) (groupMetricsByResource lib md plan))) =
     image_mset (promote_point lib plan) (mset (dp_items md))"
proof -
  let ?p = "\<lambda>rm. rm\<lparr>rg_resource := promoted_resource lib plan (rg_resource rm)\<rparr>"
  let ?it = "\<lambda>rm. resource_points (rg_resource rm) rm"
  have g: "?it (?p rm) = map (promote_point lib plan) (?it rm)" for rm
    by (simp add: resource_points_def promote_point_def map_concat comp_def no_leaf_promotion [OF assms])
  have "dp_items (map ?p rms) = map (promote_point lib plan) (concat (map ?it rms))" for rms
    by (simp only: dp_items_resources map_map comp_def g map_concat)
  then have "concat (map (dp_items \<circ> tb_batch) (groupMetricsByResource lib md plan)) =
      map (promote_point lib plan) (concat (map ?it (concat (map snd (group_by (resource_key lib plan) md)))))"
    by (simp add: groupMetricsByResource_def group_by_resource_spec split_def comp_def map_concat concat_map_concat)
  moreover have "mset (concat (map ?it (concat (map snd (group_by (resource_key lib plan) md))))) = mset (dp_items md)"
    unfolding mset_concat_map [of ?it] mset_group_by by (simp add: dp_items_resources mset_concat_map)
  ultimately show ?thesis by simp
qed

lemma promote_point_Nil: "promote_point lib [] = (\<lambda>x. x)"
  by (auto simp: fun_eq_iff promote_point_def promoted_resource_def)

lemma group_metrics_items:
  "mset (concat (map (dp_items \<circ> tb_batch) (groupMetricsByTags lib md plan))) =
     image_mset (promote_point lib plan) (mset (dp_items md))"
  by (simp add: groupMetricsByTags_def metrics_by_leaf_items metrics_by_resource_items promote_point_Nil)

text \<open>
  C22.  Whatever the plan, no datapoint is lost, repeated or moved to another metric: the datapoints
  of all groups, each with its resource, scope, schema URLs and metric shell, are those of the
  batch, changed only by promotion.
\<close>

theorem group_metrics_keeps_points:
  "mset (concat (map (dp_items \<circ> tb_batch) (groupMetricsByTags lib md plan))) =
     image_mset (promote_point lib plan) (mset (dp_items md))"
  by (rule group_metrics_items)

text \<open>
  C16.  The datapoint-level grouping, declaratively: for every key in first-seen order, the
  sub-batch of the datapoints with that key under copies of their metric's shell, together with
  the bare shells of the empty metrics whose leaf-less key it is.
\<close>

theorem group_metrics_by_leaf_spec:
  "groupMetricsByLeaf lib md plan =
     map (\<lambda>k. \<lparr>tb_key = k, tb_batch = restrict_metrics lib plan k md\<rparr>) (first_seen (metric_keys lib plan md))"
  by (rule group_metrics_spec)

end
