(* ===== verification/Oversize.thy ===== *)
theory Oversize
  imports GroupMetrics "HOL-Library.Sublist"
begin

section \<open>Oversize recovery (oversize.go)\<close>

text \<open>
  \<^verbatim>\<open>exporter/awskinesisexporter/oversize.go\<close> and the \<open>signalCodec\<close> seam of \<^verbatim>\<open>record.go\<close>: encode a
  batch, and if it does not fit run the configured policies.  Log output is left out; the one
  counter the chain feeds, \<open>attributes_truncated\<close>, is returned with the result.  The locale
  \<open>halving\<close> is what the chain relies on from a signal's codec: halves hold the items of the
  whole.  The theorems: every payload fits, every item is shipped or counted as dropped, and
  the split recursion is bounded.
\<close>

record ('b, 're) signalCodec =
  groupByTags :: "'b \<Rightarrow> 're keyPlan \<Rightarrow> 'b taggedBatch list"
  splitHalf :: "'b \<Rightarrow> ('b \<times> 'b) option"
  truncateAttributes :: "('b \<Rightarrow> int \<Rightarrow> 'b \<times> int) option"
  marshal :: "'b \<Rightarrow> err + bytes"
  itemCount :: "'b \<Rightarrow> nat"

record 're kinesisExporter =
  ke_cfg :: Config
  ke_keyPlan :: "'re keyPlan"
  ke_tracesEnc :: traces_format
  ke_metricsEnc :: metrics_format
  ke_logsEnc :: logs_format
  ke_comp :: compressor
  ke_lib :: codec_lib

record dropOutcome =
  do_count :: nat
  do_reason :: string

type_synonym drops = "dropOutcome list"

definition noDrop :: dropOutcome where
  "noDrop = \<lparr>do_count = 0, do_reason = []\<rparr>"

definition total :: "drops \<Rightarrow> nat" where
  "total d = sum_list (map do_count d)"

fun bump_reason :: "drops \<Rightarrow> nat \<Rightarrow> string \<Rightarrow> drops" where
  "bump_reason [] n reason = [\<lparr>do_count = n, do_reason = reason\<rparr>]"
| "bump_reason (x # d) n reason =
     (if do_reason x = reason then x\<lparr>do_count := do_count x + n\<rparr> # d
      else x # bump_reason d n reason)"

definition addReason :: "drops \<Rightarrow> nat \<Rightarrow> string \<Rightarrow> drops" where
  "addReason d n reason = (if n = 0 then d else bump_reason d n reason)"

fun merge :: "drops \<Rightarrow> drops \<Rightarrow> drops" where
  "merge d [] = d"
| "merge d (x # o') = merge (addReason d (do_count x) (do_reason x)) o'"

text \<open>\<open>tryEncode\<close>: the payload, whether it fits, and a terminal drop.\<close>

definition tryEncode :: "'re kinesisExporter \<Rightarrow> 'b \<Rightarrow> ('b, 're) signalCodec \<Rightarrow> bytes \<times> bool \<times> dropOutcome" where
  "tryEncode e batch sc =
     (case marshal sc batch of
        Inl _ \<Rightarrow> ([], False, \<lparr>do_count = itemCount sc batch, do_reason = ''marshal_error''\<rparr>)
      | Inr raw \<Rightarrow>
          (case Compress (ke_lib e) (ke_comp e) raw of
             Inl _ \<Rightarrow> ([], False, \<lparr>do_count = itemCount sc batch, do_reason = ''compress_error''\<rparr>)
           | Inr payload \<Rightarrow>
               (if int (length payload) + keyOverhead (ke_cfg e) \<le> cfg_MaxRecordSize (ke_cfg e)
                then (payload, True, noDrop) else ([], False, noDrop))))"

function packSplit ::
  "'re kinesisExporter \<Rightarrow> 'b \<Rightarrow> ('b, 're) signalCodec \<Rightarrow> int \<Rightarrow> bytes list \<times> drops" where
  "packSplit e batch sc depth =
     (case tryEncode e batch sc of (payload, ok, terminal) \<Rightarrow>
        if do_count terminal > 0 then ([], addReason [] (do_count terminal) (do_reason terminal))
        else if ok then ([payload], [])
        else if depth \<ge> os_MaxAttempts (cfg_Oversize (ke_cfg e))
        then ([], addReason [] (itemCount sc batch) ''max_attempts'')
        else (case splitHalf sc batch of
            None \<Rightarrow> ([], addReason [] (itemCount sc batch) ''irreducible'')
          | Some (a, b) \<Rightarrow>
              (case packSplit e a sc (depth + 1) of (pa, da) \<Rightarrow>
               case packSplit e b sc (depth + 1) of (pb, db) \<Rightarrow> (pa @ pb, merge da db))))"
  by pat_completeness auto
termination
  by (relation "measure (\<lambda>(e, b, sc, depth). nat (os_MaxAttempts (cfg_Oversize (ke_cfg e)) - depth))") auto

declare packSplit.simps [simp del]

text \<open>The policy loop of \<open>packChain\<close>; \<open>truncated\<close> collects the calls of \<^verbatim>\<open>recordTruncated\<close>.\<close>

fun run_policies ::
  "'re kinesisExporter \<Rightarrow> ('b, 're) signalCodec \<Rightarrow> 'b \<Rightarrow> int list \<Rightarrow> string list \<Rightarrow> bytes list \<times> drops \<times> int list" where
  "run_policies e sc current truncated [] =
     ([], addReason [] (itemCount sc current) ''chain_exhausted'', truncated)"
| "run_policies e sc current truncated (policy # policies) =
     (if policy = oversizeTruncateAttrs
      then (case truncateAttributes sc of
          None \<Rightarrow> run_policies e sc current truncated policies
        | Some f \<Rightarrow>
            (let (trimmed, n) = f current (os_MaxAttributeValueBytes (cfg_Oversize (ke_cfg e)))
             in if n = 0 then run_policies e sc current truncated policies
                else (let truncated' = truncated @ [n]; (p, fit, d) = tryEncode e trimmed sc
                      in if do_count d > 0 then run_policies e sc current truncated' policies
                         else if fit then ([p], [], truncated')
                         else run_policies e sc trimmed truncated' policies)))
      else if policy = oversizeSplitHalf
      then (case packSplit e current sc 0 of (payloads, ds) \<Rightarrow> (payloads, ds, truncated))
      else if policy = oversizeReject
      then ([], addReason [] (itemCount sc current) ''reject_policy'', truncated)
      else run_policies e sc current truncated policies)"

definition packChain ::
  "'re kinesisExporter \<Rightarrow> 'b \<Rightarrow> ('b, 're) signalCodec \<Rightarrow> bytes list \<times> drops \<times> int list" where
  "packChain e batch sc =
     (case tryEncode e batch sc of (payload, ok, terminal) \<Rightarrow>
        if do_count terminal > 0 then ([], addReason [] (do_count terminal) (do_reason terminal), [])
        else if ok then ([payload], [], [])
        else run_policies e sc batch [] (os_Policies (cfg_Oversize (ke_cfg e))))"

text \<open>The codecs of the three signals.\<close>

definition tracesCodec :: "'re plan_lib \<Rightarrow> traces otlp_lib \<Rightarrow> traces_format \<Rightarrow> (traces, 're) signalCodec" where
  "tracesCodec plib lib enc =
     \<lparr>groupByTags = groupTracesByTags plib, splitHalf = splitTracesHalf,
      truncateAttributes = Some truncateTracesAttributes, marshal = Traces_Marshal lib enc,
      itemCount = leaf_count\<rparr>"

definition metricsCodec :: "'re plan_lib \<Rightarrow> metrics otlp_lib \<Rightarrow> metrics_format \<Rightarrow> (metrics, 're) signalCodec" where
  "metricsCodec plib lib enc =
     \<lparr>groupByTags = groupMetricsByTags plib, splitHalf = splitMetricsHalf,
      truncateAttributes = Some truncateMetricsAttributes, marshal = Metrics_Marshal lib enc,
      itemCount = DataPointCount\<rparr>"

definition logsCodec :: "'re plan_lib \<Rightarrow> logs otlp_lib \<Rightarrow> logs_format \<Rightarrow> (logs, 're) signalCodec" where
  "logsCodec plib lib enc =
     \<lparr>groupByTags = groupLogsByTags plib, splitHalf = splitLogsHalf,
      truncateAttributes = Some truncateLogsAttributes, marshal = Logs_Marshal lib enc,
      itemCount = leaf_count\<rparr>"

subsection \<open>Drop accounting\<close>

lemma total_simps [simp]: "total [] = 0" "total (x # d) = do_count x + total d" "total (d @ d') = total d + total d'"
  by (simp_all add: total_def)

lemma total_bump [simp]: "total (bump_reason d n r) = total d + n"
  by (induction d n r rule: bump_reason.induct) auto

lemma total_addReason [simp]: "total (addReason d n r) = total d + n"
  by (simp add: addReason_def)

lemma total_merge [simp]: "total (merge d d') = total d + total d'"
  by (induction d d' rule: merge.induct) auto

text \<open>A drop list is well formed: positive counts, one entry per reason, known reasons.\<close>

definition drop_reasons :: "string set" where
  "drop_reasons = {''marshal_error'', ''compress_error'', ''max_attempts'', ''irreducible'', ''reject_policy'',
     ''chain_exhausted''}"

definition drops_ok :: "drops \<Rightarrow> bool" where
  "drops_ok d \<longleftrightarrow> distinct (map do_reason d) \<and> (\<forall>x\<in>set d. 0 < do_count x \<and> do_reason x \<in> drop_reasons)"

lemma bump_reasons: "do_reason ` set (bump_reason d n r) = insert r (do_reason ` set d)"
  by (induction d n r rule: bump_reason.induct) auto

lemma drops_ok_bump: "drops_ok d \<Longrightarrow> 0 < n \<Longrightarrow> r \<in> drop_reasons \<Longrightarrow> drops_ok (bump_reason d n r)"
proof (induction d n r rule: bump_reason.induct)
  case (2 x d n r)
  then show ?case
    using bump_reasons [of d n r] by (auto simp: drops_ok_def)
qed (simp add: drops_ok_def)

lemma drops_ok_add: "drops_ok d \<Longrightarrow> r \<in> drop_reasons \<Longrightarrow> drops_ok (addReason d n r)"
  by (simp add: addReason_def drops_ok_bump)

lemma drops_ok_Nil [simp]: "drops_ok []"
  by (simp add: drops_ok_def)

lemma drops_ok_merge: "drops_ok d \<Longrightarrow> \<forall>x\<in>set d'. do_reason x \<in> drop_reasons \<Longrightarrow> drops_ok (merge d d')"
  by (induction d d' rule: merge.induct) (simp_all add: drops_ok_add)

subsection \<open>One encoding attempt\<close>

definition encodes :: "'re kinesisExporter \<Rightarrow> ('b, 're) signalCodec \<Rightarrow> 'b \<Rightarrow> bytes \<Rightarrow> bool" where
  "encodes e sc b p \<longleftrightarrow> (\<exists>raw. marshal sc b = Inr raw \<and> Compress (ke_lib e) (ke_comp e) raw = Inr p) \<and>
     int (length p) + keyOverhead (ke_cfg e) \<le> cfg_MaxRecordSize (ke_cfg e)"

lemma tryEncode_cases:
  obtains (fits) p where "tryEncode e b sc = (p, True, noDrop)" "encodes e sc b p"
  | (fails) r where "tryEncode e b sc = ([], False, \<lparr>do_count = itemCount sc b, do_reason = r\<rparr>)"
      "r \<in> {''marshal_error'', ''compress_error''}"
  | (oversize) "tryEncode e b sc = ([], False, noDrop)"
proof (cases "marshal sc b")
  case (Inl x)
  then show thesis by (intro fails [of "''marshal_error''"]) (simp_all add: tryEncode_def)
next
  case (Inr raw)
  show thesis
  proof (cases "Compress (ke_lib e) (ke_comp e) raw")
    case (Inl x)
    with Inr show thesis by (intro fails [of "''compress_error''"]) (simp_all add: tryEncode_def)
  next
    case (Inr p)
    with \<open>marshal sc b = Inr raw\<close> show thesis
      by (cases "int (length p) + keyOverhead (ke_cfg e) \<le> cfg_MaxRecordSize (ke_cfg e)")
        (auto simp: tryEncode_def encodes_def intro: fits oversize)
  qed
qed

lemma noDrop_count [simp]: "do_count noDrop = 0"
  by (simp add: noDrop_def)

text \<open>The truncation counts only grow along the chain.\<close>

lemma run_policies_truncated: "run_policies e sc cur tr policies = (ps, ds, tr') \<Longrightarrow> prefix tr tr'"
proof (induction policies arbitrary: cur tr)
  case (Cons policy policies)
  have "prefix (tr @ [n]) tr' \<Longrightarrow> prefix tr tr'" for n by (auto simp: prefix_def)
  with Cons show ?case by (auto simp: Let_def split: if_splits option.splits prod.splits)
qed simp

subsection \<open>What the chain relies on, and what it gives\<close>

text \<open>One truncation step of a codec.\<close>

definition trims :: "('b, 're) signalCodec \<Rightarrow> int \<Rightarrow> ('b \<times> 'b) set" where
  "trims sc m = {(x, y). \<exists>f n. truncateAttributes sc = Some f \<and> f x m = (y, n)}"

locale halving =
  fixes its :: "'b \<Rightarrow> 'i list" and sc :: "('b, 're) signalCodec"
  assumes half_items: "splitHalf sc b = Some (a, c) \<Longrightarrow> its a @ its c = its b"
    and count_items: "itemCount sc b = length (its b)"
    and truncate_items: "truncateAttributes sc = Some f \<Longrightarrow> f b m = (b', n) \<Longrightarrow> length (its b') = length (its b)"
begin

definition accounts :: "'re kinesisExporter \<Rightarrow> 'b \<Rightarrow> bytes list \<Rightarrow> drops \<Rightarrow> bool" where
  "accounts e b ps ds \<longleftrightarrow> (\<exists>bs. list_all2 (encodes e sc) bs ps \<and> subseq (concat (map its bs)) (its b) \<and>
     length (concat (map its bs)) + total ds = length (its b)) \<and> drops_ok ds"

lemma accounts_ship: "encodes e sc b p \<Longrightarrow> accounts e b [p] []"
  unfolding accounts_def by (intro conjI exI [of _ "[b]"]) simp_all

lemma accounts_drop: "r \<in> drop_reasons \<Longrightarrow> accounts e b [] (addReason [] (itemCount sc b) r)"
  unfolding accounts_def by (intro conjI exI [of _ "[]"]) (simp_all add: count_items drops_ok_add)

lemma accounts_join:
  assumes "splitHalf sc b = Some (a, c)" "accounts e a pa da" "accounts e c pc dc"
  shows "accounts e b (pa @ pc) (merge da dc)"
proof -
  obtain ba where a: "list_all2 (encodes e sc) ba pa" "subseq (concat (map its ba)) (its a)"
    "length (concat (map its ba)) + total da = length (its a)"
    using assms(2) by (auto simp: accounts_def)
  obtain bc where c: "list_all2 (encodes e sc) bc pc" "subseq (concat (map its bc)) (its c)"
    "length (concat (map its bc)) + total dc = length (its c)"
    using assms(3) by (auto simp: accounts_def)
  have "drops_ok (merge da dc)"
    using assms(2,3) by (intro drops_ok_merge) (auto simp: accounts_def drops_ok_def)
  moreover have "list_all2 (encodes e sc) (ba @ bc) (pa @ pc)"
    using a(1) c(1) by (rule list_all2_appendI)
  moreover have "subseq (concat (map its (ba @ bc))) (its b)"
    using list_emb_append_mono [OF a(2) c(2)] half_items [OF assms(1)] by simp
  moreover have "length (concat (map its (ba @ bc))) + total (merge da dc) = length (its b)"
    using a(3) c(3) half_items [OF assms(1), symmetric] by simp
  ultimately show ?thesis unfolding accounts_def by blast
qed

lemma unfit:
  assumes "tryEncode e b sc = ([], False, d)" "do_count d = 0"
    and IH: "\<And>b' depth' ps' ds'. nat (os_MaxAttempts (cfg_Oversize (ke_cfg e)) - depth')
        < nat (os_MaxAttempts (cfg_Oversize (ke_cfg e)) - depth) \<Longrightarrow>
      packSplit e b' sc depth' = (ps', ds') \<Longrightarrow>
      accounts e b' ps' ds' \<and> length ps' \<le> 2 ^ nat (os_MaxAttempts (cfg_Oversize (ke_cfg e)) - depth')"
    and run: "packSplit e b sc depth = (ps, ds)"
  shows "accounts e b ps ds \<and> length ps \<le> 2 ^ nat (os_MaxAttempts (cfg_Oversize (ke_cfg e)) - depth)"
proof -
  let ?M = "os_MaxAttempts (cfg_Oversize (ke_cfg e))"
  note eq = packSplit.simps [of e b sc depth]
  have known: "''max_attempts'' \<in> drop_reasons" "''irreducible'' \<in> drop_reasons" by (simp_all add: drop_reasons_def)
  consider "depth \<ge> ?M" | "depth < ?M" "splitHalf sc b = None"
    | a c where "depth < ?M" "splitHalf sc b = Some (a, c)" by (metis linorder_not_less not_None_eq surj_pair)
  then show ?thesis
  proof cases
    case 1
    with eq run assms(1,2) have "ps = []" "ds = addReason [] (itemCount sc b) ''max_attempts''" by auto
    then show ?thesis using accounts_drop [OF known(1)] by simp
  next
    case 2
    with eq run assms(1,2) have "ps = []" "ds = addReason [] (itemCount sc b) ''irreducible''" by auto
    then show ?thesis using accounts_drop [OF known(2)] by simp
  next
    case (3 a c)
    obtain pa da pc dc where p: "packSplit e a sc (depth + 1) = (pa, da)" "packSplit e c sc (depth + 1) = (pc, dc)"
      by fastforce
    with eq run assms(1,2) 3 have res: "ps = pa @ pc" "ds = merge da dc" by auto
    have less: "nat (?M - (depth + 1)) < nat (?M - depth)" using 3(1) by simp
    note A = IH [OF less p(1)] and C = IH [OF less p(2)]
    have "nat (?M - depth) = Suc (nat (?M - (depth + 1)))" using 3(1) by simp
    then have "(2 :: nat) ^ nat (?M - depth) = 2 * 2 ^ nat (?M - (depth + 1))" by simp
    with A C have "length ps \<le> 2 ^ nat (?M - depth)" by (simp add: res)
    with accounts_join [OF 3(2)] A C res show ?thesis by blast
  qed
qed

lemma packSplit_spec:
  "packSplit e b sc depth = (ps, ds) \<Longrightarrow>
     accounts e b ps ds \<and> length ps \<le> 2 ^ nat (os_MaxAttempts (cfg_Oversize (ke_cfg e)) - depth)"
proof (induction "nat (os_MaxAttempts (cfg_Oversize (ke_cfg e)) - depth)" arbitrary: b depth ps ds rule: less_induct)
  case less
  note eq = packSplit.simps [of e b sc depth]
  show ?case
  proof (cases rule: tryEncode_cases [where e = e and b = b and sc = sc])
    case (fits p)
    with eq less.prems have "ps = [p]" "ds = []" by auto
    with accounts_ship [OF fits(2)] show ?thesis by simp
  next
    case (fails r)
    from fails(2) have r: "r \<in> drop_reasons" by (auto simp: drop_reasons_def)
    show ?thesis
    proof (cases "itemCount sc b = 0")
      case False
      with eq less.prems fails have "ps = []" "ds = addReason [] (itemCount sc b) r" by auto
      with accounts_drop [OF r] show ?thesis by simp
    next
      case True
      with fails have attempt: "tryEncode e b sc = ([], False, \<lparr>do_count = 0, do_reason = r\<rparr>)" by simp
      show ?thesis by (rule unfit [OF attempt _ less.hyps less.prems]) simp
    qed
  next
    case oversize
    show ?thesis by (rule unfit [OF oversize _ less.hyps less.prems]) simp
  qed
qed


lemma trims_items: "(b, b') \<in> (trims sc m)\<^sup>* \<Longrightarrow> length (its b') = length (its b)"
  by (induction rule: rtrancl_induct) (auto simp: trims_def dest: truncate_items)

lemma run_policies_spec:
  assumes "run_policies e sc cur tr pol = (ps, ds, tr')"
  shows "\<exists>base. (cur, base) \<in> (trims sc (os_MaxAttributeValueBytes (cfg_Oversize (ke_cfg e))))\<^sup>* \<and>
     accounts e base ps ds \<and> length ps \<le> max 1 (2 ^ nat (os_MaxAttempts (cfg_Oversize (ke_cfg e))))"
  using assms
proof (induction pol arbitrary: cur tr)
  case Nil
  have "''chain_exhausted'' \<in> drop_reasons" by (simp add: drop_reasons_def)
  with Nil accounts_drop [of "''chain_exhausted''" e cur] show ?case
    by (intro exI [of _ cur]) auto
next
  case (Cons policy policies)
  let ?m = "os_MaxAttributeValueBytes (cfg_Oversize (ke_cfg e))"
  have pass: ?case if "run_policies e sc cur tr'' policies = (ps, ds, tr')" for tr''
    using Cons.IH [OF that] .
  consider (trim) f trimmed n where "policy = oversizeTruncateAttrs" "truncateAttributes sc = Some f"
      "f cur ?m = (trimmed, n)" "n \<noteq> 0"
    | (skip) "policy = oversizeTruncateAttrs" "run_policies e sc cur tr policies = (ps, ds, tr')"
    | (split) "policy = oversizeSplitHalf" | (reject) "policy = oversizeReject"
    | (other) "policy \<notin> {oversizeTruncateAttrs, oversizeSplitHalf, oversizeReject}"
    using Cons.prems
    by (cases "policy = oversizeTruncateAttrs"; cases "truncateAttributes sc")
      (auto split: prod.splits if_splits)
  then show ?case
  proof cases
    case trim
    then have step: "(cur, trimmed) \<in> trims sc ?m" by (auto simp: trims_def)
    show ?thesis
    proof (cases rule: tryEncode_cases [where e = e and b = trimmed and sc = sc])
      case (fits p)
      with trim Cons.prems have "ps = [p]" "ds = []" by auto
      with accounts_ship [OF fits(2)] step show ?thesis by (intro exI [of _ trimmed]) auto
    next
      case (fails r)
      show ?thesis
      proof (cases "itemCount sc trimmed = 0")
        case True
        with trim fails Cons.prems have "run_policies e sc trimmed (tr @ [n]) policies = (ps, ds, tr')" by simp
        from Cons.IH [OF this] step show ?thesis by (meson converse_rtrancl_into_rtrancl)
      next
        case False
        with trim fails Cons.prems have "run_policies e sc cur (tr @ [n]) policies = (ps, ds, tr')" by simp
        then show ?thesis by (rule pass)
      qed
    next
      case oversize
      with trim Cons.prems have "run_policies e sc trimmed (tr @ [n]) policies = (ps, ds, tr')" by simp
      from Cons.IH [OF this] step show ?thesis by (meson converse_rtrancl_into_rtrancl)
    qed
  next
    case split
    with Cons.prems have "packSplit e cur sc 0 = (ps, ds)" by (auto split: prod.splits)
    from packSplit_spec [OF this] show ?thesis by (intro exI [of _ cur]) auto
  next
    case reject
    have "''reject_policy'' \<in> drop_reasons" by (simp add: drop_reasons_def)
    with reject Cons.prems accounts_drop [of "''reject_policy''" e cur] show ?thesis
      by (intro exI [of _ cur]) auto
  next
    case other
    with Cons.prems have "run_policies e sc cur tr policies = (ps, ds, tr')" by simp
    then show ?thesis by (rule pass)
  qed (rule pass)
qed

text \<open>The whole chain: what is shipped and what is dropped add up.\<close>

lemma packChain_spec:
  assumes "packChain e b sc = (ps, ds, tr)"
  shows "\<exists>base. (b, base) \<in> (trims sc (os_MaxAttributeValueBytes (cfg_Oversize (ke_cfg e))))\<^sup>* \<and>
     accounts e base ps ds \<and> length ps \<le> max 1 (2 ^ nat (os_MaxAttempts (cfg_Oversize (ke_cfg e))))"
proof (cases rule: tryEncode_cases [where e = e and b = b and sc = sc])
  case (fits p)
  with assms have "ps = [p]" "ds = []" by (auto simp: packChain_def)
  with accounts_ship [OF fits(2)] show ?thesis by (intro exI [of _ b]) auto
next
  case (fails r)
  from fails(2) have r: "r \<in> drop_reasons" by (auto simp: drop_reasons_def)
  show ?thesis
  proof (cases "itemCount sc b = 0")
    case True
    with fails assms show ?thesis by (intro run_policies_spec) (auto simp: packChain_def)
  next
    case False
    with fails assms have "ps = []" "ds = addReason [] (itemCount sc b) r" by (auto simp: packChain_def)
    with accounts_drop [OF r] show ?thesis by (intro exI [of _ b]) auto
  qed
next
  case oversize
  with assms show ?thesis by (intro run_policies_spec) (auto simp: packChain_def)
qed

text \<open>A chain that truncated nothing accounts for the batch it was given, item by item.\<close>

lemma run_policies_untouched:
  "run_policies e sc cur tr policies = (ps, ds, tr) \<Longrightarrow> accounts e cur ps ds"
proof (induction policies)
  case Nil
  have "''chain_exhausted'' \<in> drop_reasons" by (simp add: drop_reasons_def)
  with Nil accounts_drop show ?case by auto
next
  case (Cons policy policies)
  have grown: "run_policies e sc cur' (tr @ [n]) policies \<noteq> (ps, ds, tr)" for cur' n
    using run_policies_truncated [of e sc cur' "tr @ [n]" policies] by fastforce
  have "''reject_policy'' \<in> drop_reasons" by (simp add: drop_reasons_def)
  with Cons accounts_drop [of "''reject_policy''" e cur] packSplit_spec [of e cur 0 ps ds] grown show ?case
    by (auto simp: Let_def split: if_splits option.splits prod.splits)
qed

lemma packChain_untouched:
  assumes "packChain e b sc = (ps, ds, [])"
  shows "accounts e b ps ds"
proof (cases rule: tryEncode_cases [where e = e and b = b and sc = sc])
  case (fits p)
  with assms accounts_ship show ?thesis by (auto simp: packChain_def)
next
  case (fails r)
  from fails(2) have "r \<in> drop_reasons" by (auto simp: drop_reasons_def)
  with fails assms accounts_drop [of r e b] run_policies_untouched show ?thesis
    by (auto simp: packChain_def split: if_splits)
next
  case oversize
  with assms run_policies_untouched show ?thesis by (auto simp: packChain_def)
qed

lemma packChain_accounts:
  assumes "packChain e b sc = (ps, ds, tr)"
  shows "(\<exists>bs. list_all2 (encodes e sc) bs ps \<and> sum_list (map (itemCount sc) bs) + total ds = itemCount sc b) \<and>
    drops_ok ds \<and> length ps \<le> max 1 (2 ^ nat (os_MaxAttempts (cfg_Oversize (ke_cfg e))))"
proof -
  from packChain_spec [OF assms] obtain base bs where
    base: "(b, base) \<in> (trims sc (os_MaxAttributeValueBytes (cfg_Oversize (ke_cfg e))))\<^sup>*"
    and bs: "list_all2 (encodes e sc) bs ps" "length (concat (map its bs)) + total ds = length (its base)"
    and ok: "drops_ok ds" "length ps \<le> max 1 (2 ^ nat (os_MaxAttempts (cfg_Oversize (ke_cfg e))))"
    unfolding accounts_def by blast
  have "map (itemCount sc) bs = map (length \<circ> its) bs" by (simp add: count_items)
  then have "sum_list (map (itemCount sc) bs) = length (concat (map its bs))"
    by (simp only: length_concat map_map)
  with bs ok trims_items [OF base] show ?thesis by (auto simp: count_items)
qed

lemma packChain_fits:
  assumes "packChain e b sc = (ps, ds, tr)" "p \<in> set ps"
  shows "int (length p) + keyOverhead (ke_cfg e) \<le> cfg_MaxRecordSize (ke_cfg e)"
proof -
  from packChain_accounts [OF assms(1)] obtain bs where "list_all2 (encodes e sc) bs ps" by blast
  with assms(2) obtain b' where "encodes e sc b' p"
    by (metis in_set_conv_nth list_all2_conv_all_nth)
  then show ?thesis by (simp add: encodes_def)
qed

end

text \<open>Truncation keeps the number of items.\<close>

lemma clamp_all_leaves:
  "length (group_items (fst (clamp_resource_group clamp b rg))) = length (group_items rg)"
  by (simp add: length_group_items group_leaves_def clamp_resource_group_def clamp_scope_group_def clamp_all_def
      split_def Let_def length_concat comp_def)

lemma clamp_all_items:
  "length (items (fst (clamp_all (clamp_resource_group clamp b) td))) = length (items td)"
  by (simp add: items_def clamp_all_def length_concat comp_def clamp_all_leaves)

lemma truncate_traces_items: "truncateTracesAttributes td b = (td', n) \<Longrightarrow> length (items td') = length (items td)"
  using clamp_all_items [of clamp_span b td] by (simp add: truncateTracesAttributes_def)

lemma truncate_logs_items: "truncateLogsAttributes ld b = (ld', n) \<Longrightarrow> length (items ld') = length (items ld)"
  using clamp_all_items [of clamp_log b ld] by (simp add: truncateLogsAttributes_def)

lemma truncate_metrics_items:
  "truncateMetricsAttributes md b = (md', n) \<Longrightarrow> length (dp_items md') = length (dp_items md)"
  using truncateMetrics_points [of md b] by (simp flip: DataPointCount_items)

interpretation traces_chain: halving items "tracesCodec plib lib enc" for plib lib enc
proof
  show "itemCount (tracesCodec plib lib enc) b = length (items b)" for b
    by (simp add: tracesCodec_def leaf_count_items)
qed (auto simp: tracesCodec_def splitTracesHalf_items truncate_traces_items)

interpretation logs_chain: halving items "logsCodec plib lib enc" for plib lib enc
proof
  show "itemCount (logsCodec plib lib enc) b = length (items b)" for b
    by (simp add: logsCodec_def leaf_count_items)
qed (auto simp: logsCodec_def splitLogsHalf_items truncate_logs_items)

interpretation metrics_chain: halving dp_items "metricsCodec plib lib enc" for plib lib enc
proof
  show "itemCount (metricsCodec plib lib enc) b = length (dp_items b)" for b
    by (simp add: metricsCodec_def DataPointCount_items)
qed (auto simp: metricsCodec_def splits_metrics truncate_metrics_items)


text \<open>An exporter whose records hold two bytes of payload, for the witnesses.\<close>

definition names_otlp :: "traces otlp_lib" where
  "names_otlp = \<lparr>MarshalProto = (\<lambda>td. Inr (concat (map sp_name (leaves td)))), UnmarshalProto = (\<lambda>_. Inl ''no''),
     MarshalJSON = (\<lambda>_. Inl ''no''), UnmarshalJSON = (\<lambda>_. Inl ''no'')\<rparr>"

definition points_otlp :: "metrics otlp_lib" where
  "points_otlp = \<lparr>MarshalProto = (\<lambda>md. Inr (replicate (DataPointCount md) CHR ''p'')), UnmarshalProto = (\<lambda>_. Inl ''no''),
     MarshalJSON = (\<lambda>_. Inl ''no''), UnmarshalJSON = (\<lambda>_. Inl ''no'')\<rparr>"

definition sample_exporter :: "string kinesisExporter" where
  "sample_exporter = \<lparr>ke_cfg = createDefaultConfig\<lparr>cfg_MaxRecordSize := 38\<rparr>, ke_keyPlan = [],
     ke_tracesEnc = otlpProtoTraces, ke_metricsEnc = otlpProtoMetrics, ke_logsEnc = otlpProtoLogs,
     ke_comp = noneCodec, ke_lib = sample_lib\<rparr>"

abbreviation sample_codec :: "(traces, string) signalCodec" where
  "sample_codec \<equiv> tracesCodec text_lib names_otlp otlpProtoTraces"


text \<open>
  The same for metrics, counted in datapoints.
\<close>

theorem pack_accounts_for_every_datapoint:
  assumes "packChain e md (metricsCodec plib lib enc) = (ps, ds, tr)"
  shows "(\<exists>bs. list_all2 (encodes e (metricsCodec plib lib enc)) bs ps \<and>
       sum_list (map DataPointCount bs) + total ds = DataPointCount md) \<and>
    drops_ok ds \<and> length ps \<le> max 1 (2 ^ nat (os_MaxAttempts (cfg_Oversize (ke_cfg e))))"
  using metrics_chain.packChain_accounts [OF assms] by (simp add: metricsCodec_def)

theorem pack_accounts_for_every_datapoint_witness:
  "packChain sample_exporter (sample_metrics ''h'' [sample_metric ''m'' [''a'', ''b'', ''c'']])
       (metricsCodec text_lib points_otlp otlpProtoMetrics) = ([''p'', ''pp''], [], []) \<and>
   (\<exists>bs. list_all2 (encodes sample_exporter (metricsCodec text_lib points_otlp otlpProtoMetrics)) bs [''p'', ''pp''] \<and>
      sum_list (map DataPointCount bs) = 3)"
proof -
  let ?md = "sample_metrics ''h'' [sample_metric ''m'' [''a'', ''b'', ''c'']]"
  have p: "packChain sample_exporter ?md (metricsCodec text_lib points_otlp otlpProtoMetrics) = ([''p'', ''pp''], [], [])"
    by code_simp
  have n: "DataPointCount ?md = 3" by code_simp
  from pack_accounts_for_every_datapoint [OF p] n p show ?thesis by auto
qed

definition picky_codec :: "(nat, string) signalCodec" where
  "picky_codec = \<lparr>groupByTags = (\<lambda>b plan. [\<lparr>tb_key = [], tb_batch = b\<rparr>]),
     splitHalf = (\<lambda>b. if b > 1 then Some (b div 2, b - b div 2) else None),
     truncateAttributes = Some (\<lambda>b m. (b + 100, 7)),
     marshal = (\<lambda>b. if b \<ge> 100 then Inl ''rejected'' else Inr (replicate b CHR ''x'')),
     itemCount = (\<lambda>b. b)\<rparr>"

text \<open>
  The truncation counter can count values that never leave the exporter changed: when the
  trimmed batch cannot be encoded the chain goes on with the pristine one, after the counter was
  raised.
\<close>

theorem truncation_counted_but_not_shipped:
  "packChain (sample_exporter\<lparr>ke_cfg := (ke_cfg sample_exporter)\<lparr>cfg_Oversize :=
       (cfg_Oversize (ke_cfg sample_exporter))\<lparr>os_Policies := [oversizeTruncateAttrs, oversizeSplitHalf]\<rparr>\<rparr>\<rparr>) 4 picky_codec =
     ([''xx'', ''xx''], [], [7])"
  by code_simp

end
