(* ===== verification/Sending.thy ===== *)
theory Sending
  imports Oversize
begin

section \<open>Sending: emit, flush and PutRecords (record.go, exporter.go)\<close>

text \<open>
  \<^verbatim>\<open>exporter/awskinesisexporter/record.go\<close> and \<^verbatim>\<open>exporter.go\<close>: group a batch, pack the groups, derive
  the partition keys, cut the records into calls within the limits and resend what a call left
  unwritten.  The Kinesis client, the context and its timers are a record of functions over a
  world \<open>'w\<close> they change; every call made is returned in a log, with what was asked and
  answered.  \<open>flush\<close> is a loop whose progress rests on a positive record limit, so it is a
  partial function, and the theorems say that it returns.  Debug and warning logs and the
  duration of a call are left out.
\<close>

definition maxPutAttempts :: nat where "maxPutAttempts = 5"
definition putBackoffBase :: int64 where "putBackoffBase = 100 * Millisecond"
definition putBackoffMax :: int64 where "putBackoffMax = 2 * Second"

datatype ctx_error = Canceled | DeadlineExceeded

datatype aws_error = ResourceNotFoundException err | InvalidArgumentException err | OtherAWSError err

text \<open>
  \<open>IndexPanic\<close> is the run-time panic of \<^verbatim>\<open>attempt[i]\<close> when an answer has more results than the
  request had records.
\<close>

datatype export_error =
    ContextError ctx_error
  | PutRecordsError aws_error
  | NewPermanent export_error
  | StillFailing nat nat
  | IndexPanic nat

record PutRecordsRequestEntry =
  re_Data :: bytes
  re_PartitionKey :: string

record PutRecordsInput =
  pi_StreamName :: string
  pi_Records :: "PutRecordsRequestEntry list"

text \<open>Of a result entry the code reads the error code; its message goes to the log.\<close>

record PutRecordsOutput =
  po_FailedRecordCount :: "int option"
  po_Records :: "string option list"

record 'w kinesis_client =
  kc_PutRecords :: "'w \<Rightarrow> PutRecordsInput \<Rightarrow> (aws_error + PutRecordsOutput) \<times> 'w"
  kc_Err :: "'w \<Rightarrow> ctx_error option"
  kc_Until :: "'w \<Rightarrow> int64 option"
  kc_Sleep :: "'w \<Rightarrow> int64 \<Rightarrow> ctx_error option \<times> 'w"

text \<open>One call: the request, the answer, and what \<^verbatim>\<open>recordPut\<close> is given.\<close>

record put_call =
  pc_input :: PutRecordsInput
  pc_result :: "aws_error + PutRecordsOutput"
  pc_records :: nat
  pc_bytes :: nat

subsection \<open>Backoff\<close>

definition backoff_delay :: "nat \<Rightarrow> int64" where
  "backoff_delay tries =
     (let d = push_bit tries putBackoffBase
      in if putBackoffMax <s d \<or> d \<le>s 0 then putBackoffMax else d)"

definition sleepBackoff :: "'w kinesis_client \<Rightarrow> 'w \<Rightarrow> nat \<Rightarrow> ctx_error option \<times> 'w" where
  "sleepBackoff cl w tries =
     (case kc_Err cl w of
        Some e \<Rightarrow> (Some e, w)
      | None \<Rightarrow>
          (case kc_Until cl w of
             Some left \<Rightarrow> (if left <s backoff_delay tries then (Some DeadlineExceeded, w)
                          else kc_Sleep cl w (backoff_delay tries))
           | None \<Rightarrow> kc_Sleep cl w (backoff_delay tries)))"

subsection \<open>PutRecords with retries\<close>

definition classifyPutRecordsError :: "aws_error \<Rightarrow> export_error" where
  "classifyPutRecordsError e =
     (case e of
        ResourceNotFoundException _ \<Rightarrow> NewPermanent (PutRecordsError e)
      | InvalidArgumentException _ \<Rightarrow> NewPermanent (PutRecordsError e)
      | OtherAWSError _ \<Rightarrow> PutRecordsError e)"

definition entry_bytes :: "PutRecordsRequestEntry \<Rightarrow> nat" where
  "entry_bytes r = length (re_Data r) + length (re_PartitionKey r)"

text \<open>The loop over \<^verbatim>\<open>out.Records\<close>: \<open>Inl i\<close> when index \<open>i\<close> panics.\<close>

fun failed_subset :: "PutRecordsRequestEntry list \<Rightarrow> nat \<Rightarrow> string option list \<Rightarrow> nat + PutRecordsRequestEntry list" where
  "failed_subset attempt i [] = Inr []"
| "failed_subset attempt i (None # rs) = failed_subset attempt (i + 1) rs"
| "failed_subset attempt i (Some code # rs) =
     (if i < length attempt
      then (case failed_subset attempt (i + 1) rs of Inl p \<Rightarrow> Inl p | Inr retry \<Rightarrow> Inr (attempt ! i # retry))
      else Inl i)"

definition put_once ::
  "'w kinesis_client \<Rightarrow> string \<Rightarrow> PutRecordsRequestEntry list \<Rightarrow> 'w \<Rightarrow> put_call \<times> 'w" where
  "put_once cl stream attempt w =
     (let input = \<lparr>pi_StreamName = stream, pi_Records = attempt\<rparr>;
          (res, w') = kc_PutRecords cl w input
      in (\<lparr>pc_input = input, pc_result = res, pc_records = length attempt,
           pc_bytes = sum_list (map entry_bytes attempt)\<rparr>, w'))"

text \<open>What the answer to an attempt leaves to do: return, or resend a subset.\<close>

datatype verdict = Return "export_error option" | Resend "PutRecordsRequestEntry list"

definition judge :: "PutRecordsRequestEntry list \<Rightarrow> nat \<Rightarrow> aws_error + PutRecordsOutput \<Rightarrow> verdict" where
  "judge attempt tries res =
     (case res of
        Inl e \<Rightarrow> Return (Some (classifyPutRecordsError e))
      | Inr out \<Rightarrow>
          (if po_FailedRecordCount out = None \<or> po_FailedRecordCount out = Some 0 then Return None
           else (case failed_subset attempt 0 (po_Records out) of
                Inl i \<Rightarrow> Return (Some (IndexPanic i))
              | Inr retry \<Rightarrow>
                  (if retry = [] then Return None
                   else if tries + 1 \<ge> maxPutAttempts then Return (Some (StillFailing (length retry) (tries + 1)))
                   else Resend retry))))"

lemma judge_Resend: "judge attempt tries res = Resend retry \<Longrightarrow> tries + 1 < maxPutAttempts"
  by (auto simp: judge_def split: sum.splits if_splits)

function putRecords_from ::
  "'w kinesis_client \<Rightarrow> string \<Rightarrow> nat \<Rightarrow> PutRecordsRequestEntry list \<Rightarrow> 'w \<Rightarrow>
     export_error option \<times> put_call list \<times> 'w" where
  "putRecords_from cl stream tries attempt w =
     (if attempt = [] then (None, [], w)
      else (case put_once cl stream attempt w of (call, w1) \<Rightarrow>
        (case judge attempt tries (pc_result call) of
           Return r \<Rightarrow> (r, [call], w1)
         | Resend retry \<Rightarrow>
             (case sleepBackoff cl w1 tries of
                (Some e, w2) \<Rightarrow> (Some (ContextError e), [call], w2)
              | (None, w2) \<Rightarrow>
                  (case putRecords_from cl stream (tries + 1) retry w2 of
                     (r, calls, w3) \<Rightarrow> (r, call # calls, w3))))))"
  by pat_completeness auto
termination
  by (relation "measure (\<lambda>(cl, stream, tries, attempt, w). maxPutAttempts - tries)")
    (auto dest!: judge_Resend)

declare putRecords_from.simps [simp del]

definition putRecords ::
  "'w kinesis_client \<Rightarrow> 're kinesisExporter \<Rightarrow> PutRecordsRequestEntry list \<Rightarrow> 'w \<Rightarrow>
     export_error option \<times> put_call list \<times> 'w" where
  "putRecords cl e records w = putRecords_from cl (cfg_StreamName (ke_cfg e)) 0 records w"

subsection \<open>Chunking\<close>

text \<open>The inner loop of \<open>flush\<close>: the records of one call, \<open>n\<close> of them with \<open>b\<close> bytes taken so far.\<close>

fun take_chunk :: "int \<Rightarrow> int \<Rightarrow> nat \<Rightarrow> int \<Rightarrow> PutRecordsRequestEntry list \<Rightarrow> PutRecordsRequestEntry list" where
  "take_chunk maxRecords maxBytes n b [] = []"
| "take_chunk maxRecords maxBytes n b (r # rs) =
     (if int n < maxRecords
      then (if n > 0 \<and> b + int (entry_bytes r) > maxBytes then []
            else r # take_chunk maxRecords maxBytes (n + 1) (b + int (entry_bytes r)) rs)
      else [])"

definition next_chunk :: "PutRecordsConfig \<Rightarrow> PutRecordsRequestEntry list \<Rightarrow> PutRecordsRequestEntry list" where
  "next_chunk c entries = take_chunk (pr_MaxRecords c) (pr_MaxBytes c) 0 0 entries"

partial_function (option) flush ::
  "'w kinesis_client \<Rightarrow> 're kinesisExporter \<Rightarrow> PutRecordsRequestEntry list \<Rightarrow> 'w \<Rightarrow>
     (export_error option \<times> put_call list \<times> 'w) option" where
  "flush cl e entries w =
     (if entries = [] then Some (None, [], w)
      else (case kc_Err cl w of
          Some x \<Rightarrow> Some (Some (ContextError x), [], w)
        | None \<Rightarrow>
            (let chunk = next_chunk (cfg_PutRecords (ke_cfg e)) entries;
                 put = putRecords cl e chunk w
             in (case fst put of
                   Some x \<Rightarrow> Some (Some x, snd put)
                 | None \<Rightarrow>
                     Option.bind (flush cl e (drop (length chunk) entries) (snd (snd put)))
                       (\<lambda>r. Some (fst r, fst (snd put) @ fst (snd r), snd (snd r)))))))"

subsection \<open>Partition keys and emit\<close>

text \<open>
  \<^verbatim>\<open>xxhash.Sum64String\<close> and \<^verbatim>\<open>uuid.NewString\<close> are parameters; the \<open>n\<close>-th UUID drawn is
  \<open>NewString n\<close>, and the number drawn so far is threaded through.
\<close>

record key_lib =
  Sum64String :: "string \<Rightarrow> 64 word"
  NewString :: "nat \<Rightarrow> string"

text \<open>\<^verbatim>\<open>fmt.Sprintf("%016x", h)\<close>: sixteen lower-case hexadecimal digits.\<close>

definition hex16 :: "64 word \<Rightarrow> string" where
  "hex16 h = map (\<lambda>i. hex_digit (unat h div 16 ^ i mod 16)) (rev [0..<16])"

definition partitionKey :: "key_lib \<Rightarrow> 're kinesisExporter \<Rightarrow> string \<Rightarrow> nat \<Rightarrow> string \<times> nat" where
  "partitionKey kl e tagValue u =
     (if tagHash (ke_cfg e) then (hex16 (Sum64String kl tagValue), u) else (NewString kl u, u + 1))"

fun entries_of ::
  "key_lib \<Rightarrow> 're kinesisExporter \<Rightarrow> string \<Rightarrow> bytes list \<Rightarrow> nat \<Rightarrow> PutRecordsRequestEntry list \<times> nat" where
  "entries_of kl e key [] u = ([], u)"
| "entries_of kl e key (p # ps) u =
     (case partitionKey kl e key u of (k, u1) \<Rightarrow>
      case entries_of kl e key ps u1 of (es, u2) \<Rightarrow>
        (\<lparr>re_Data = p, re_PartitionKey = k\<rparr> # es, u2))"

text \<open>The loop over the groups: the entries, the drops recorded and the truncations counted.\<close>

fun pack_groups ::
  "key_lib \<Rightarrow> 're kinesisExporter \<Rightarrow> ('b, 're) signalCodec \<Rightarrow> 'b taggedBatch list \<Rightarrow> nat \<Rightarrow>
     PutRecordsRequestEntry list \<times> drops \<times> int list \<times> nat" where
  "pack_groups kl e sc [] u = ([], [], [], u)"
| "pack_groups kl e sc (g # gs) u =
     (case packChain e (tb_batch g) sc of (payloads, ds, tr) \<Rightarrow>
      case entries_of kl e (tb_key g) payloads u of (es, u1) \<Rightarrow>
      case pack_groups kl e sc gs u1 of (es', ds', tr', u2) \<Rightarrow> (es @ es', ds @ ds', tr @ tr', u2))"

text \<open>What an export did: the drops and truncations it counted, the calls it made, the UUIDs drawn.\<close>

record export_log =
  el_drops :: drops
  el_truncated :: "int list"
  el_calls :: "put_call list"
  el_uuids :: nat

definition emit ::
  "'w kinesis_client \<Rightarrow> key_lib \<Rightarrow> 're kinesisExporter \<Rightarrow> 'b \<Rightarrow> ('b, 're) signalCodec \<Rightarrow> nat \<Rightarrow> 'w \<Rightarrow>
     (export_error option \<times> export_log \<times> 'w) option" where
  "emit cl kl e b sc u w =
     (case pack_groups kl e sc (groupByTags sc b (ke_keyPlan e)) u of (entries, ds, tr, u') \<Rightarrow>
        map_option (\<lambda>(r, calls, w'). (r, \<lparr>el_drops = ds, el_truncated = tr, el_calls = calls, el_uuids = u'\<rparr>, w'))
          (flush cl e entries w))"

subsection \<open>The exporter (exporter.go)\<close>

text \<open>
  The libraries of the three signals.  \<open>newKinesisClient\<close> and \<open>newExporterTelemetry\<close> only call the
  AWS and metrics libraries; what they return here is whether they failed.
\<close>

record 're export_lib =
  xl_plan :: "'re plan_lib"
  xl_traces :: "traces otlp_lib"
  xl_metrics :: "metrics otlp_lib"
  xl_logs :: "logs otlp_lib"
  xl_codec :: codec_lib

datatype new_error =
    TracesEncoderError err
  | MetricsEncoderError err
  | LogsEncoderError err
  | CompressorError err
  | KinesisClientError err
  | TelemetryError err
  | KeyPlanError "nat \<times> err"

definition newExporter ::
  "'re export_lib \<Rightarrow> err option \<Rightarrow> err option \<Rightarrow> Config \<Rightarrow> new_error + 're kinesisExporter" where
  "newExporter xl client_err tel_err cfg =
     (case NewTracesEncoder (cfg_Encoding cfg) of Inl x \<Rightarrow> Inl (TracesEncoderError x) | Inr tEnc \<Rightarrow>
      case NewMetricsEncoder (cfg_Encoding cfg) of Inl x \<Rightarrow> Inl (MetricsEncoderError x) | Inr mEnc \<Rightarrow>
      case NewLogsEncoder (cfg_Encoding cfg) of Inl x \<Rightarrow> Inl (LogsEncoderError x) | Inr lEnc \<Rightarrow>
      case NewCompressor (cfg_Compression cfg) of Inl x \<Rightarrow> Inl (CompressorError x) | Inr cmp \<Rightarrow>
      case client_err of Some x \<Rightarrow> Inl (KinesisClientError x) | None \<Rightarrow>
      case tel_err of Some x \<Rightarrow> Inl (TelemetryError x) | None \<Rightarrow>
      case resolveKeyPlan (pl_regexp (xl_plan xl)) cfg of Inl x \<Rightarrow> Inl (KeyPlanError x) | Inr plan \<Rightarrow>
        Inr \<lparr>ke_cfg = cfg, ke_keyPlan = plan, ke_tracesEnc = tEnc, ke_metricsEnc = mEnc, ke_logsEnc = lEnc,
             ke_comp = cmp, ke_lib = xl_codec xl\<rparr>)"

definition ConsumeTraces where
  "ConsumeTraces cl kl xl e td u w = emit cl kl e td (tracesCodec (xl_plan xl) (xl_traces xl) (ke_tracesEnc e)) u w"

definition ConsumeMetrics where
  "ConsumeMetrics cl kl xl e md u w = emit cl kl e md (metricsCodec (xl_plan xl) (xl_metrics xl) (ke_metricsEnc e)) u w"

definition ConsumeLogs where
  "ConsumeLogs cl kl xl e ld u w = emit cl kl e ld (logsCodec (xl_plan xl) (xl_logs xl) (ke_logsEnc e)) u w"

subsection \<open>Chunks\<close>

lemma take_chunk_prefix: "take (length (take_chunk mr mb n b rs)) rs = take_chunk mr mb n b rs"
  by (induction mr mb n b rs rule: take_chunk.induct) auto

lemma take_chunk_length: "int n \<le> mr \<Longrightarrow> int (n + length (take_chunk mr mb n b rs)) \<le> mr"
  by (induction mr mb n b rs rule: take_chunk.induct) auto

lemma take_chunk_bytes:
  "0 < n \<Longrightarrow> b \<le> mb \<Longrightarrow> b + int (sum_list (map entry_bytes (take_chunk mr mb n b rs))) \<le> mb"
  by (induction mr mb n b rs rule: take_chunk.induct) (auto simp: algebra_simps)

lemma next_chunk_prefix: "next_chunk c rs @ drop (length (next_chunk c rs)) rs = rs"
  using take_chunk_prefix [of "pr_MaxRecords c" "pr_MaxBytes c" 0 0 rs] unfolding next_chunk_def
  by (metis append_take_drop_id)

lemma next_chunk_nonempty: "0 < pr_MaxRecords c \<Longrightarrow> next_chunk c rs = [] \<longleftrightarrow> rs = []"
  by (cases rs) (auto simp: next_chunk_def)

lemma next_chunk_length: "0 < pr_MaxRecords c \<Longrightarrow> int (length (next_chunk c rs)) \<le> pr_MaxRecords c"
  using take_chunk_length [of 0 "pr_MaxRecords c" "pr_MaxBytes c" 0 rs] by (simp add: next_chunk_def)

text \<open>Only a chunk of one record can exceed the byte limit.\<close>

lemma next_chunk_bytes:
  "length (next_chunk c rs) = 1 \<or> int (sum_list (map entry_bytes (next_chunk c rs))) \<le> max 0 (pr_MaxBytes c)"
proof (cases rs)
  case (Cons r rs')
  show ?thesis
  proof (cases "int (entry_bytes r) \<le> pr_MaxBytes c")
    case True
    with take_chunk_bytes [of 1 "int (entry_bytes r)" "pr_MaxBytes c" "pr_MaxRecords c" rs'] Cons
    show ?thesis by (auto simp: next_chunk_def)
  next
    case False
    then have "take_chunk (pr_MaxRecords c) (pr_MaxBytes c) (Suc 0) (int (entry_bytes r)) rs' = []"
      by (cases rs') auto
    with Cons show ?thesis by (auto simp: next_chunk_def)
  qed
qed (simp add: next_chunk_def)

text \<open>The cut of a whole list, as a total function.\<close>

function chunks :: "PutRecordsConfig \<Rightarrow> PutRecordsRequestEntry list \<Rightarrow> PutRecordsRequestEntry list list" where
  "chunks c rs =
     (if next_chunk c rs = [] then []
      else next_chunk c rs # chunks c (drop (length (next_chunk c rs)) rs))"
  by pat_completeness auto
termination
  by (relation "measure (\<lambda>(c, rs). length rs)", simp)
    (metis in_measure case_prod_conv length_append add_diff_cancel_right' length_drop length_greater_0_conv
      less_add_same_cancel2 next_chunk_prefix)

declare chunks.simps [simp del]

lemma concat_chunks: "0 < pr_MaxRecords c \<Longrightarrow> concat (chunks c rs) = rs"
proof (induction c rs rule: chunks.induct)
  case (1 c rs)
  then show ?case
    using next_chunk_prefix [of c rs] by (subst chunks.simps) (auto simp: next_chunk_nonempty)
qed

lemma chunks_member:
  "ch \<in> set (chunks c rs) \<Longrightarrow> \<exists>rs'. ch = next_chunk c rs' \<and> ch \<noteq> []"
proof (induction c rs rule: chunks.induct)
  case (1 c rs)
  then show ?case by (cases "next_chunk c rs = []") (auto simp: chunks.simps [of c rs])
qed

lemma chunks_Nil [simp]: "chunks c [] = []"
  by (subst chunks.simps) (simp add: next_chunk_def)

fun put_chunks ::
  "'w kinesis_client \<Rightarrow> 're kinesisExporter \<Rightarrow> PutRecordsRequestEntry list list \<Rightarrow> 'w \<Rightarrow>
     export_error option \<times> put_call list \<times> 'w" where
  "put_chunks cl e [] w = (None, [], w)"
| "put_chunks cl e (ch # chs) w =
     (case kc_Err cl w of
        Some x \<Rightarrow> (Some (ContextError x), [], w)
      | None \<Rightarrow>
          (case putRecords cl e ch w of
             (Some x, calls, w1) \<Rightarrow> (Some x, calls, w1)
           | (None, calls, w1) \<Rightarrow>
               (case put_chunks cl e chs w1 of (r, calls', w2) \<Rightarrow> (r, calls @ calls', w2))))"

lemma flush_chunks:
  assumes "0 < pr_MaxRecords (cfg_PutRecords (ke_cfg e))"
  shows "flush cl e rs w = Some (put_chunks cl e (chunks (cfg_PutRecords (ke_cfg e)) rs) w)"
proof (induction "cfg_PutRecords (ke_cfg e)" rs arbitrary: w rule: chunks.induct)
  case (1 rs)
  let ?c = "cfg_PutRecords (ke_cfg e)"
  show ?case
  proof (cases "rs = []")
    case False
    with assms have ne: "next_chunk ?c rs \<noteq> []" by (simp add: next_chunk_nonempty)
    with False 1 show ?thesis
      by (subst flush.simps, subst chunks.simps)
        (auto simp: Let_def split: option.splits prod.splits)
  qed (simp add: flush.simps)
qed

subsection \<open>What a put delivers\<close>

definition accepted :: "put_call \<Rightarrow> PutRecordsRequestEntry list" where
  "accepted c =
     (case pc_result c of
        Inl _ \<Rightarrow> []
      | Inr out \<Rightarrow> map fst (filter (\<lambda>x. snd x = None) (zip (pi_Records (pc_input c)) (po_Records out))))"

text \<open>
  The documented answer of PutRecords: one result for each record, in order, and the number of
  results that carry an error code, which may be left out when it is zero.
\<close>

definition honest :: "put_call \<Rightarrow> bool" where
  "honest c =
     (case pc_result c of
        Inl _ \<Rightarrow> True
      | Inr out \<Rightarrow>
          length (po_Records out) = length (pi_Records (pc_input c)) \<and>
          (let failed = length (filter (\<lambda>code. code \<noteq> None) (po_Records out))
           in case po_FailedRecordCount out of None \<Rightarrow> failed = 0 | Some n \<Rightarrow> n = int failed))"

lemma failed_subset_zip:
  "i + length rs \<le> length attempt \<Longrightarrow>
     failed_subset attempt i rs = Inr (map fst (filter (\<lambda>x. snd x \<noteq> None) (zip (drop i attempt) rs)))"
proof (induction attempt i rs rule: failed_subset.induct)
  case (2 attempt i rs)
  then show ?case by (simp flip: Cons_nth_drop_Suc)
next
  case (3 attempt i code rs)
  then show ?case by (simp flip: Cons_nth_drop_Suc)
qed simp

lemma mset_zip_parts:
  "length codes = length rs \<Longrightarrow>
     mset (map fst (filter (\<lambda>x. snd x = None) (zip rs codes))) +
     mset (map fst (filter (\<lambda>x. snd x \<noteq> None) (zip rs codes))) = mset rs"
proof (induction codes rs rule: list_induct2)
  case (Cons c cs r rs)
  then show ?case by (cases c) simp_all
qed simp

lemma zip_all_None:
  "length codes = length rs \<Longrightarrow> filter (\<lambda>code. code \<noteq> None) codes = [] \<Longrightarrow>
     filter (\<lambda>x. snd x \<noteq> None) (zip rs codes) = []"
  by (induction codes rs rule: list_induct2) (auto split: if_splits)

text \<open>The records an honest answer leaves unwritten.\<close>

definition unwritten :: "put_call \<Rightarrow> PutRecordsRequestEntry list" where
  "unwritten c =
     (case pc_result c of
        Inl _ \<Rightarrow> pi_Records (pc_input c)
      | Inr out \<Rightarrow> map fst (filter (\<lambda>x. snd x \<noteq> None) (zip (pi_Records (pc_input c)) (po_Records out))))"

lemma accepted_unwritten:
  "honest c \<Longrightarrow> mset (accepted c) + mset (unwritten c) = mset (pi_Records (pc_input c))"
  by (cases "pc_result c")
    (simp_all add: accepted_def unwritten_def honest_def mset_zip_parts del: not_None_eq mset_map mset_filter)

lemma unwritten_subseq: "subseq (unwritten c) (pi_Records (pc_input c))"
proof -
  have "subseq (map fst (filter P (zip rs codes))) rs"
    for P and rs :: "PutRecordsRequestEntry list" and codes :: "string option list"
  proof (induction rs arbitrary: codes)
    case (Cons r rs)
    then show ?case by (cases codes) auto
  qed simp
  then show ?thesis by (auto simp: unwritten_def split: sum.splits)
qed

lemma judge_honest:
  assumes "honest c"
  shows "judge (pi_Records (pc_input c)) k (pc_result c) = Return None \<Longrightarrow> unwritten c = []"
    and "judge (pi_Records (pc_input c)) k (pc_result c) = Resend retry \<Longrightarrow> retry = unwritten c"
proof -
  let ?rs = "pi_Records (pc_input c)"
  show "unwritten c = []" if "judge ?rs k (pc_result c) = Return None"
    using assms that zip_all_None [of _ ?rs]
    by (auto simp: judge_def honest_def unwritten_def failed_subset_zip Let_def
        split: sum.splits if_splits option.splits)
  show "retry = unwritten c" if "judge ?rs k (pc_result c) = Resend retry"
    using assms that
    by (auto simp: judge_def honest_def unwritten_def failed_subset_zip split: sum.splits if_splits)
qed

text \<open>
  The calls of one put, starting with attempt \<open>k\<close>: each resends the records its predecessor left
  unwritten.
\<close>

fun resends :: "PutRecordsRequestEntry list \<Rightarrow> put_call list \<Rightarrow> bool" where
  "resends attempt [] = True"
| "resends attempt (c # cs) = (pi_Records (pc_input c) = attempt \<and> (honest c \<longrightarrow> resends (unwritten c) cs))"

definition left_over :: "PutRecordsRequestEntry list \<Rightarrow> put_call list \<Rightarrow> PutRecordsRequestEntry list" where
  "left_over attempt cs = (if cs = [] then attempt else unwritten (last cs))"

lemma put_once_call:
  "put_once cl s attempt w = (c, w1) \<Longrightarrow>
     pc_input c = \<lparr>pi_StreamName = s, pi_Records = attempt\<rparr> \<and> pc_records c = length attempt \<and>
     pc_bytes c = sum_list (map entry_bytes attempt)"
  by (auto simp: put_once_def Let_def split: prod.splits)

lemma failed_subset_subseq: "failed_subset attempt i rs = Inr retry \<Longrightarrow> subseq retry (drop i attempt)"
proof (induction attempt i rs arbitrary: retry rule: failed_subset.induct)
  case (2 attempt i rs)
  then have "subseq retry (drop (i + 1) attempt)" by simp
  then have "subseq retry (drop 1 (drop i attempt))" by simp
  then show ?case using subseq_order.trans [OF _ suffix_imp_subseq [OF suffix_drop]] by blast
next
  case (3 attempt i code rs)
  then show ?case by (auto simp flip: Cons_nth_drop_Suc split: if_splits sum.splits)
qed simp

lemma judge_subseq: "judge attempt k res = Resend retry \<Longrightarrow> subseq retry attempt"
  using failed_subset_subseq [of attempt 0] by (auto simp: judge_def split: sum.splits if_splits)

text \<open>Everything a put does, in one induction over its attempts.\<close>

lemma putRecords_from_spec:
  assumes "putRecords_from cl s k attempt w = (r, calls, w')"
  shows "length calls \<le> max 1 (maxPutAttempts - k) \<and>
    (\<forall>c\<in>set calls. pi_StreamName (pc_input c) = s \<and> pi_Records (pc_input c) \<noteq> [] \<and>
       subseq (pi_Records (pc_input c)) attempt) \<and>
    (list_all honest calls \<longrightarrow> resends attempt calls \<and>
       mset (concat (map accepted calls)) + mset (left_over attempt calls) = mset attempt \<and>
       (r = None \<longrightarrow> left_over attempt calls = []))"
  using assms
proof (induction cl s k attempt w arbitrary: r calls w' rule: putRecords_from.induct)
  case (1 cl s k attempt w)
  show ?case
  proof (cases "attempt = []")
    case True
    with "1.prems" show ?thesis by (simp add: putRecords_from.simps left_over_def)
  next
    case False
    obtain c w1 where c: "put_once cl s attempt w = (c, w1)" by fastforce
    note call = put_once_call [OF c]
    have one: "honest c \<Longrightarrow> mset (accepted c) + mset (unwritten c) = mset attempt"
      using accepted_unwritten [of c] call by simp
    show ?thesis
    proof (cases "judge attempt k (pc_result c)")
      case (Return r')
      with "1.prems" False c have eq: "r = r'" "calls = [c]" by (simp_all add: putRecords_from.simps)
      have "honest c \<Longrightarrow> r = None \<Longrightarrow> unwritten c = []"
        using judge_honest(1) [of c k] Return call eq by simp
      with eq call one False show ?thesis by (auto simp: left_over_def)
    next
      case (Resend retry)
      have k: "k + 1 < maxPutAttempts" by (rule judge_Resend [OF Resend])
      have h: "honest c \<Longrightarrow> retry = unwritten c"
        using judge_honest(2) [of c k retry] Resend call by simp
      show ?thesis
      proof (cases "sleepBackoff cl w1 k")
        case (Pair e w2)
        show ?thesis
        proof (cases e)
          case (Some x)
          with "1.prems" False c Resend Pair have "r = Some (ContextError x)" "calls = [c]"
            by (simp_all add: putRecords_from.simps)
          with call one False show ?thesis by (auto simp: left_over_def)
        next
          case None
          obtain r' calls' w3 where rec: "putRecords_from cl s (k + 1) retry w2 = (r', calls', w3)"
            by (metis prod_cases3)
          with "1.prems" False c Resend Pair None have eq: "r = r'" "calls = c # calls'"
            by (simp_all add: putRecords_from.simps [of cl s k])
          note IH = "1.IH" [OF False c [symmetric] Resend Pair [symmetric] None rec]
          have sub: "subseq retry attempt" by (rule judge_subseq [OF Resend])
          have left: "honest c \<Longrightarrow> left_over attempt calls = left_over retry calls'"
            using h eq by (simp add: left_over_def)
          from IH have "length calls' \<le> max 1 (maxPutAttempts - (k + 1))" by simp
          with k have len: "length calls \<le> max 1 (maxPutAttempts - k)" by (auto simp: eq)
          show ?thesis
            using IH len call one False h sub left
            by (auto simp: eq add.assoc intro: subseq_order.trans)
        qed
      qed
    qed
  qed
qed

lemma putRecords_spec:
  assumes "putRecords cl e rs w = (r, calls, w')"
  shows "length calls \<le> maxPutAttempts"
    and "c \<in> set calls \<Longrightarrow> pi_StreamName (pc_input c) = cfg_StreamName (ke_cfg e) \<and>
       pi_Records (pc_input c) \<noteq> [] \<and> subseq (pi_Records (pc_input c)) rs"
    and "list_all honest calls \<Longrightarrow> resends rs calls \<and>
       mset (concat (map accepted calls)) + mset (left_over rs calls) = mset rs \<and>
       (r = None \<longrightarrow> left_over rs calls = [])"
  using putRecords_from_spec [OF assms [unfolded putRecords_def]] by (auto simp: maxPutAttempts_def)

lemma put_chunks_spec:
  assumes "put_chunks cl e chs w = (r, calls, w')"
  shows "length calls \<le> maxPutAttempts * length chs \<and>
    (\<forall>c\<in>set calls. pi_StreamName (pc_input c) = cfg_StreamName (ke_cfg e) \<and>
       pi_Records (pc_input c) \<noteq> [] \<and> (\<exists>ch\<in>set chs. subseq (pi_Records (pc_input c)) ch)) \<and>
    (list_all honest calls \<longrightarrow>
      (\<exists>unsent. mset (concat (map accepted calls)) + mset unsent = mset (concat chs) \<and> (r = None \<longrightarrow> unsent = [])))"
  using assms
proof (induction chs arbitrary: w r calls w')
  case (Cons ch chs)
  show ?case
  proof (cases "kc_Err cl w")
    case (Some x)
    with Cons.prems have "r = Some (ContextError x)" "calls = []" by auto
    then show ?thesis by (auto intro: exI [of _ "concat (ch # chs)"])
  next
    case None
    obtain r1 calls1 w1 where put: "putRecords cl e ch w = (r1, calls1, w1)" by (metis prod_cases3)
    note spec = putRecords_spec [OF put]
    show ?thesis
    proof (cases r1)
      case (Some x)
      with Cons.prems None put have eq: "r = r1" "calls = calls1" by auto
      have "\<exists>unsent. mset (concat (map accepted calls)) + mset unsent = mset (concat (ch # chs))"
        if "list_all honest calls"
        using spec(3) that eq
        by (intro exI [of _ "left_over ch calls @ concat chs"]) (simp flip: add.assoc)
      with spec(1,2) eq Some show ?thesis by auto
    next
      case n1: None
      obtain r2 calls2 w2 where rest: "put_chunks cl e chs w1 = (r2, calls2, w2)" by (metis prod_cases3)
      with Cons.prems None put n1 have eq: "r = r2" "calls = calls1 @ calls2" by auto
      note IH = Cons.IH [OF rest]
      have done_: "mset (concat (map accepted calls1)) = mset ch" if "list_all honest calls1"
        using spec(3) [OF that] n1 by auto
      have "\<exists>unsent. mset (concat (map accepted calls)) + mset unsent = mset (concat (ch # chs)) \<and>
          (r = None \<longrightarrow> unsent = [])" if "list_all honest calls"
        using IH done_ that by (auto simp: eq add.assoc)
      with IH spec(1,2) eq show ?thesis by auto
    qed
  qed
qed auto

subsection \<open>Entries and keys\<close>

lemma length_hex16 [simp]: "length (hex16 h) = 16"
  by (simp add: hex16_def)

lemma hex_digit_inj: "a < 16 \<Longrightarrow> b < 16 \<Longrightarrow> hex_digit a = hex_digit b \<Longrightarrow> a = b"
proof -
  assume ab: "a < 16" "b < 16" and eq: "hex_digit a = hex_digit b"
  have "of_char (hex_digit d) = (if d < 10 then 48 + d else 87 + d)" if "d < 16" for d :: nat
    using that by (auto simp: hex_digit_def of_char_of)
  with ab eq have "(if a < 10 then 48 + a else 87 + a) = (if b < 10 then 48 + b else 87 + b)" by metis
  with ab show "a = b" by (auto split: if_splits)
qed

lemma hex_digits_inj:
  fixes m n :: nat
  assumes "\<forall>i<k. m div 16 ^ i mod 16 = n div 16 ^ i mod 16" "m < 16 ^ k" "n < 16 ^ k"
  shows "m = n"
  using assms
proof (induction k arbitrary: m n)
  case (Suc k)
  from Suc.prems(1) have "m mod 16 = n mod 16" by force
  moreover have "m div 16 = n div 16"
  proof (rule Suc.IH)
    show "\<forall>i<k. m div 16 div 16 ^ i mod 16 = n div 16 div 16 ^ i mod 16"
    proof (intro allI impI)
      fix i assume "i < k"
      then have "m div 16 ^ Suc i mod 16 = n div 16 ^ Suc i mod 16" using Suc.prems(1) by blast
      then show "m div 16 div 16 ^ i mod 16 = n div 16 div 16 ^ i mod 16" by (simp add: div_mult2_eq)
    qed
  qed (use Suc.prems in auto)
  ultimately show ?case by (metis div_mult_mod_eq)
qed simp

lemma hex16_inj: "hex16 g = hex16 h \<longleftrightarrow> g = h"
proof
  assume "hex16 g = hex16 h"
  then have "\<forall>i<16. unat g div 16 ^ i mod 16 = unat h div 16 ^ i mod 16"
    by (auto simp: hex16_def intro: hex_digit_inj)
  moreover have "unat g < 16 ^ 16" "unat h < 16 ^ 16" using unsigned_less [of g] unsigned_less [of h] by simp_all
  ultimately have "unat g = unat h" by (rule hex_digits_inj)
  then show "g = h" by (rule unsigned_word_eqI)
qed simp

text \<open>A UUID is 36 characters long.\<close>

definition uuids :: "key_lib \<Rightarrow> bool" where
  "uuids kl \<longleftrightarrow> (\<forall>n. length (NewString kl n) = 36)"

lemma partitionKey_length:
  "uuids kl \<Longrightarrow> partitionKey kl e tv u = (k, u') \<Longrightarrow> int (length k) = keyOverhead (ke_cfg e)"
  by (auto simp: partitionKey_def uuids_def keyOverhead_def split: if_splits)

lemma entries_of_data: "entries_of kl e key ps u = (es, u') \<Longrightarrow> map re_Data es = ps"
  by (induction kl e key ps u arbitrary: es u' rule: entries_of.induct) (auto split: prod.splits)

lemma entries_of_bytes:
  "entries_of kl e key ps u = (es, u') \<Longrightarrow> uuids kl \<Longrightarrow> x \<in> set es \<Longrightarrow>
     re_Data x \<in> set ps \<and> int (entry_bytes x) = int (length (re_Data x)) + keyOverhead (ke_cfg e)"
proof (induction kl e key ps u arbitrary: es u' rule: entries_of.induct)
  case (2 kl e key p ps u)
  obtain k u1 where k: "partitionKey kl e key u = (k, u1)" by fastforce
  obtain es' u2 where r: "entries_of kl e key ps u1 = (es', u2)" by fastforce
  have len: "int (length k) = keyOverhead (ke_cfg e)" by (rule partitionKey_length [OF "2.prems"(2) k])
  from "2.prems" k r have "x = \<lparr>re_Data = p, re_PartitionKey = k\<rparr> \<or> x \<in> set es'" by auto
  then show ?case
    using "2.IH" [OF k [symmetric] r "2.prems"(2)] len by (auto simp: entry_bytes_def)
qed simp

lemma sum_list_subseq: "subseq xs ys \<Longrightarrow> sum_list (map f xs) \<le> (sum_list (map f ys) :: nat)"
  by (induction rule: list_emb.induct) auto

subsection \<open>What an export guarantees\<close>

text \<open>The limits a call is meant to keep.\<close>

definition call_within :: "Config \<Rightarrow> put_call \<Rightarrow> bool" where
  "call_within cfg c \<longleftrightarrow>
     pi_StreamName (pc_input c) = cfg_StreamName cfg \<and>
     1 \<le> length (pi_Records (pc_input c)) \<and>
     int (length (pi_Records (pc_input c))) \<le> pr_MaxRecords (cfg_PutRecords cfg) \<and>
     length (pi_Records (pc_input c)) \<le> 500 \<and>
     int (sum_list (map entry_bytes (pi_Records (pc_input c)))) \<le> pr_MaxBytes (cfg_PutRecords cfg)"

lemma valid_limits:
  "Validate lib cfg = None \<Longrightarrow> 0 < pr_MaxRecords (cfg_PutRecords cfg) \<and> pr_MaxRecords (cfg_PutRecords cfg) \<le> 500 \<and>
     cfg_MaxRecordSize cfg \<le> pr_MaxBytes (cfg_PutRecords cfg)"
  by (simp add: Validate_valid_config valid_config_def)

text \<open>
  The pipeline relies on a codec whose halves and truncations keep the items (\<open>halving\<close>) and whose
  groups together hold as many items as the batch.
\<close>

locale signal = halving its sc for its :: "'b \<Rightarrow> 'i list" and sc :: "('b, 're) signalCodec" +
  assumes group_items: "sum_list (map (itemCount sc \<circ> tb_batch) (groupByTags sc b plan)) = itemCount sc b"
begin

lemma pack_groups_spec:
  assumes "pack_groups kl e sc gs u = (es, ds, tr, u')"
  shows "(\<exists>bs. list_all2 (\<lambda>b x. encodes e sc b (re_Data x)) bs es \<and>
      sum_list (map (itemCount sc) bs) + total ds = sum_list (map (itemCount sc \<circ> tb_batch) gs)) \<and>
    (uuids kl \<longrightarrow> (\<forall>x\<in>set es. int (entry_bytes x) \<le> cfg_MaxRecordSize (ke_cfg e))) \<and>
    (\<forall>d\<in>set ds. 0 < do_count d \<and> do_reason d \<in> drop_reasons)"
  using assms
proof (induction gs arbitrary: u es ds tr u')
  case (Cons g gs)
  obtain ps ds1 tr1 where p: "packChain e (tb_batch g) sc = (ps, ds1, tr1)" by (metis prod_cases3)
  obtain es1 u1 where n: "entries_of kl e (tb_key g) ps u = (es1, u1)" by fastforce
  obtain es2 ds2 tr2 u2 where r: "pack_groups kl e sc gs u1 = (es2, ds2, tr2, u2)" by (metis prod_cases4)
  from Cons.prems p n r have eq: "es = es1 @ es2" "ds = ds1 @ ds2" by auto
  from packChain_accounts [OF p] obtain bs1 where
    bs1: "list_all2 (encodes e sc) bs1 ps" "sum_list (map (itemCount sc) bs1) + total ds1 = itemCount sc (tb_batch g)"
    and ok: "drops_ok ds1" by blast
  have data: "ps = map re_Data es1" using entries_of_data [OF n] by simp
  from bs1(1) have enc1: "list_all2 (\<lambda>b x. encodes e sc b (re_Data x)) bs1 es1"
    by (simp add: data list_all2_map2)
  from Cons.IH [OF r] obtain bs2 where
    bs2: "list_all2 (\<lambda>b x. encodes e sc b (re_Data x)) bs2 es2"
      "sum_list (map (itemCount sc) bs2) + total ds2 = sum_list (map (itemCount sc \<circ> tb_batch) gs)"
    by blast
  have bytes: "int (entry_bytes x) \<le> cfg_MaxRecordSize (ke_cfg e)" if "uuids kl" "x \<in> set es1" for x
    using entries_of_bytes [OF n that] packChain_fits [OF p] by auto
  have "list_all2 (\<lambda>b x. encodes e sc b (re_Data x)) (bs1 @ bs2) es"
    unfolding eq using enc1 bs2(1) by (rule list_all2_appendI)
  moreover have "sum_list (map (itemCount sc) (bs1 @ bs2)) + total ds =
      sum_list (map (itemCount sc \<circ> tb_batch) (g # gs))"
    using bs1(2) bs2(2) by (simp add: eq)
  ultimately have "\<exists>bs. list_all2 (\<lambda>b x. encodes e sc b (re_Data x)) bs es \<and>
      sum_list (map (itemCount sc) bs) + total ds = sum_list (map (itemCount sc \<circ> tb_batch) (g # gs))"
    by blast
  moreover have "uuids kl \<longrightarrow> (\<forall>x\<in>set es. int (entry_bytes x) \<le> cfg_MaxRecordSize (ke_cfg e))"
    using Cons.IH [OF r] bytes by (auto simp: eq)
  moreover have "\<forall>d\<in>set ds. 0 < do_count d \<and> do_reason d \<in> drop_reasons"
    using Cons.IH [OF r] ok by (auto simp: eq drops_ok_def)
  ultimately show ?case by blast
qed simp

lemma emit_spec:
  assumes mr: "0 < pr_MaxRecords (cfg_PutRecords (ke_cfg e))"
  obtains r log w' where "emit cl kl e b sc u w = Some (r, log, w')"
    "list_all honest (el_calls log) \<Longrightarrow>
      \<exists>bs es unsent. list_all2 (\<lambda>b x. encodes e sc b (re_Data x)) bs es \<and>
        sum_list (map (itemCount sc) bs) + total (el_drops log) = itemCount sc b \<and>
        mset es = mset (concat (map accepted (el_calls log))) + mset unsent \<and> (r = None \<longrightarrow> unsent = [])"
    "\<forall>d\<in>set (el_drops log). 0 < do_count d \<and> do_reason d \<in> drop_reasons"
    "\<And>c. c \<in> set (el_calls log) \<Longrightarrow> pi_StreamName (pc_input c) = cfg_StreamName (ke_cfg e) \<and>
       pi_Records (pc_input c) \<noteq> [] \<and>
       int (length (pi_Records (pc_input c))) \<le> pr_MaxRecords (cfg_PutRecords (ke_cfg e)) \<and>
       (uuids kl \<longrightarrow> cfg_MaxRecordSize (ke_cfg e) \<le> pr_MaxBytes (cfg_PutRecords (ke_cfg e)) \<longrightarrow>
          int (sum_list (map entry_bytes (pi_Records (pc_input c)))) \<le> pr_MaxBytes (cfg_PutRecords (ke_cfg e)))"
proof -
  let ?c = "cfg_PutRecords (ke_cfg e)"
  obtain es ds tr u' where p: "pack_groups kl e sc (groupByTags sc b (ke_keyPlan e)) u = (es, ds, tr, u')"
    by (metis prod_cases4)
  obtain r calls w' where f: "put_chunks cl e (chunks ?c es) w = (r, calls, w')" by (metis prod_cases3)
  let ?log = "\<lparr>el_drops = ds, el_truncated = tr, el_calls = calls, el_uuids = u'\<rparr>"
  note pack = pack_groups_spec [OF p] and put = put_chunks_spec [OF f]
  have ret: "emit cl kl e b sc u w = Some (r, ?log, w')"
    by (simp add: emit_def p flush_chunks [OF mr] f)
  have limits: "int (length rs) \<le> pr_MaxRecords ?c \<and>
      (uuids kl \<longrightarrow> cfg_MaxRecordSize (ke_cfg e) \<le> pr_MaxBytes ?c \<longrightarrow>
         int (sum_list (map entry_bytes rs)) \<le> pr_MaxBytes ?c)"
    if ch: "ch \<in> set (chunks ?c es)" and sub: "subseq rs ch" for rs ch
  proof -
    from chunks_member [OF ch] obtain rest where nx: "ch = next_chunk ?c rest" "ch \<noteq> []" by blast
    have sum: "sum_list (map entry_bytes rs) \<le> sum_list (map entry_bytes ch)"
      using sub by (rule sum_list_subseq)
    have "set ch \<subseteq> set es" using ch concat_chunks [OF mr, of es] by (metis UN_I set_concat subsetI)
    then have each: "x \<in> set ch \<Longrightarrow> uuids kl \<Longrightarrow> int (entry_bytes x) \<le> cfg_MaxRecordSize (ke_cfg e)" for x
      using pack by blast
    have "int (sum_list (map entry_bytes ch)) \<le> pr_MaxBytes ?c"
      if "uuids kl" "cfg_MaxRecordSize (ke_cfg e) \<le> pr_MaxBytes ?c"
    proof (cases "length ch = 1")
      case True
      then obtain x where "ch = [x]" by (auto simp: length_Suc_conv)
      with each [of x] that show ?thesis by simp
    next
      case False
      have "0 < keyOverhead (ke_cfg e)" by (simp add: keyOverhead_def)
      moreover obtain x where "x \<in> set ch" using nx(2) hd_in_set by blast
      ultimately have "0 \<le> pr_MaxBytes ?c" using each [of x] that by linarith
      with False next_chunk_bytes [of ?c rest] nx show ?thesis by simp
    qed
    with sum next_chunk_length [OF mr, of rest] nx list_emb_length [OF sub] show ?thesis by force
  qed
  show thesis
  proof (rule that [OF ret])
    show "\<forall>d\<in>set (el_drops ?log). 0 < do_count d \<and> do_reason d \<in> drop_reasons" using pack by simp
  next
    assume "list_all honest (el_calls ?log)"
    with put obtain unsent where
      "mset (concat (map accepted calls)) + mset unsent = mset es" "r = None \<longrightarrow> unsent = []"
      by (auto simp: concat_chunks [OF mr])
    moreover from pack obtain bs where "list_all2 (\<lambda>b x. encodes e sc b (re_Data x)) bs es"
      "sum_list (map (itemCount sc) bs) + total ds = itemCount sc b"
      unfolding group_items by blast
    ultimately show "\<exists>bs es unsent. list_all2 (\<lambda>b x. encodes e sc b (re_Data x)) bs es \<and>
        sum_list (map (itemCount sc) bs) + total (el_drops ?log) = itemCount sc b \<and>
        mset es = mset (concat (map accepted (el_calls ?log))) + mset unsent \<and> (r = None \<longrightarrow> unsent = [])"
      by (intro exI [of _ bs] exI [of _ es] exI [of _ unsent]) simp
  next
    fix c assume "c \<in> set (el_calls ?log)"
    with put limits show "pi_StreamName (pc_input c) = cfg_StreamName (ke_cfg e) \<and> pi_Records (pc_input c) \<noteq> [] \<and>
       int (length (pi_Records (pc_input c))) \<le> pr_MaxRecords ?c \<and>
       (uuids kl \<longrightarrow> cfg_MaxRecordSize (ke_cfg e) \<le> pr_MaxBytes ?c \<longrightarrow>
          int (sum_list (map entry_bytes (pi_Records (pc_input c)))) \<le> pr_MaxBytes ?c)"
      by fastforce
  qed
qed

lemma emit_within:
  assumes "Validate lib (ke_cfg e) = None" "uuids kl"
  shows "\<exists>r log w'. emit cl kl e b sc u w = Some (r, log, w') \<and> list_all (call_within (ke_cfg e)) (el_calls log)"
proof -
  note v = valid_limits [OF assms(1)]
  obtain r log w' where ret: "emit cl kl e b sc u w = Some (r, log, w')"
    and c: "\<And>c. c \<in> set (el_calls log) \<Longrightarrow> pi_StreamName (pc_input c) = cfg_StreamName (ke_cfg e) \<and>
       pi_Records (pc_input c) \<noteq> [] \<and>
       int (length (pi_Records (pc_input c))) \<le> pr_MaxRecords (cfg_PutRecords (ke_cfg e)) \<and>
       (uuids kl \<longrightarrow> cfg_MaxRecordSize (ke_cfg e) \<le> pr_MaxBytes (cfg_PutRecords (ke_cfg e)) \<longrightarrow>
          int (sum_list (map entry_bytes (pi_Records (pc_input c)))) \<le> pr_MaxBytes (cfg_PutRecords (ke_cfg e)))"
    by (rule emit_spec [OF conjunct1 [OF v], of cl kl b u w]) blast
  have "call_within (ke_cfg e) c" if "c \<in> set (el_calls log)" for c
    using c [OF that] v assms(2) by (auto simp: call_within_def Suc_le_eq)
  with ret show ?thesis by (auto simp: list_all_iff)
qed

end

lemma group_sizes:
  assumes "mset (concat (map (its \<circ> tb_batch) gs)) = image_mset f (mset xs)"
    and "\<And>b. n b = length (its b)"
  shows "sum_list (map (n \<circ> tb_batch) gs) = length xs"
proof -
  have "length (concat (map (its \<circ> tb_batch) gs)) = length xs"
    using arg_cong [OF assms(1), of size] by simp
  then show ?thesis by (simp add: length_concat assms(2) comp_def)
qed

interpretation traces_signal: signal items "tracesCodec plib lib enc" for plib lib enc
proof
  show "sum_list (map (itemCount (tracesCodec plib lib enc) \<circ> tb_batch) (groupByTags (tracesCodec plib lib enc) b plan)) =
      itemCount (tracesCodec plib lib enc) b" for b plan
    using group_sizes [OF group_traces_items leaf_count_items] by (simp add: tracesCodec_def flip: leaf_count_items)
qed

interpretation metrics_signal: signal dp_items "metricsCodec plib lib enc" for plib lib enc
proof
  show "sum_list (map (itemCount (metricsCodec plib lib enc) \<circ> tb_batch) (groupByTags (metricsCodec plib lib enc) b plan)) =
      itemCount (metricsCodec plib lib enc) b" for b plan
    using group_sizes [OF group_metrics_items DataPointCount_items] by (simp add: metricsCodec_def flip: DataPointCount_items)
qed

interpretation logs_signal: signal items "logsCodec plib lib enc" for plib lib enc
proof
  show "sum_list (map (itemCount (logsCodec plib lib enc) \<circ> tb_batch) (groupByTags (logsCodec plib lib enc) b plan)) =
      itemCount (logsCodec plib lib enc) b" for b plan
    using group_sizes [OF group_logs_items leaf_count_items] by (simp add: logsCodec_def flip: leaf_count_items)
qed

text \<open>
  C12.  With a validated configuration every export returns, whichever way the client and the
  context answer, and each PutRecords call it makes names the configured stream and holds at
  least one record, at most \<^verbatim>\<open>max_records\<close> (so at most 500) and at most \<^verbatim>\<open>max_bytes\<close> of data and keys,
  also when it resends failed records.
\<close>

theorem exports_stay_within_limits:
  assumes "Validate lib (ke_cfg e) = None" "uuids kl"
  shows "(\<exists>r log w'. ConsumeTraces cl kl xl e td u w = Some (r, log, w') \<and> list_all (call_within (ke_cfg e)) (el_calls log)) \<and>
    (\<exists>r log w'. ConsumeMetrics cl kl xl e md u w = Some (r, log, w') \<and> list_all (call_within (ke_cfg e)) (el_calls log)) \<and>
    (\<exists>r log w'. ConsumeLogs cl kl xl e ld u w = Some (r, log, w') \<and> list_all (call_within (ke_cfg e)) (el_calls log))"
  unfolding ConsumeTraces_def ConsumeMetrics_def ConsumeLogs_def
  by (intro conjI traces_signal.emit_within [OF assms] metrics_signal.emit_within [OF assms]
      logs_signal.emit_within [OF assms])

text \<open>
  A client whose first call throttles the first record, and never fails again; its world counts
  the calls.
\<close>

definition flaky_client :: "nat kinesis_client" where
  "flaky_client = \<lparr>
     kc_PutRecords = (\<lambda>n input.
       (let k = length (pi_Records input)
        in (Inr (if n = 0 then \<lparr>po_FailedRecordCount = Some 1,
                   po_Records = Some ''ProvisionedThroughputExceededException'' # replicate (k - 1) None\<rparr>
                 else \<lparr>po_FailedRecordCount = None, po_Records = replicate k None\<rparr>), n + 1))),
     kc_Err = (\<lambda>n. None), kc_Until = (\<lambda>n. None), kc_Sleep = (\<lambda>n d. (None, n))\<rparr>"

definition sample_keys :: key_lib where
  "sample_keys = \<lparr>Sum64String = (\<lambda>s. of_nat (sum_list (map of_char s))), NewString = (\<lambda>n. replicate 36 CHR ''u'')\<rparr>"

definition valid_exporter :: "string kinesisExporter" where
  "valid_exporter = sample_exporter\<lparr>ke_cfg := (ke_cfg sample_exporter)\<lparr>cfg_StreamName := ''s'', cfg_Region := ''r''\<rparr>\<rparr>"

definition sample_export_lib :: "string export_lib" where
  "sample_export_lib = \<lparr>xl_plan = text_lib, xl_traces = names_otlp, xl_metrics = points_otlp, 
     xl_logs = \<lparr>MarshalProto = (\<lambda>ld. Inr ''''), UnmarshalProto = (\<lambda>_. Inl ''no''),
       MarshalJSON = (\<lambda>_. Inl ''no''), UnmarshalJSON = (\<lambda>_. Inl ''no'')\<rparr>, xl_codec = sample_lib\<rparr>"

lemma sample_keys_uuids: "uuids sample_keys" by (simp add: uuids_def sample_keys_def)

lemma valid_exporter_valid: "Validate literal_regexp (ke_cfg valid_exporter) = None" by code_simp

theorem exports_stay_within_limits_witness:
  "\<exists>r log w'. ConsumeTraces flaky_client sample_keys sample_export_lib valid_exporter
       (sample_traces ''h'' [''a'', ''bb'', ''ccccc'']) 0 0 = Some (r, log, w') \<and>
     list_all (call_within (ke_cfg valid_exporter)) (el_calls log)"
  by (rule conjunct1 [OF exports_stay_within_limits [OF valid_exporter_valid sample_keys_uuids]])


declare flush.simps [code]

text \<open>The export of the witnesses: three spans, one dropped as too big, one sent twice.\<close>

abbreviation sample_spans :: traces where
  "sample_spans \<equiv> sample_traces ''h'' [''a'', ''bb'', ''ccccc'']"

lemma sample_export:
  "ConsumeTraces flaky_client sample_keys sample_export_lib valid_exporter sample_spans 0 0 =
     (let k = replicate 36 CHR ''u''; a = \<lparr>re_Data = ''a'', re_PartitionKey = k\<rparr>; b = \<lparr>re_Data = ''bb'', re_PartitionKey = k\<rparr>
      in Some (None,
           \<lparr>el_drops = [\<lparr>do_count = 1, do_reason = ''irreducible''\<rparr>], el_truncated = [],
            el_calls = [
              \<lparr>pc_input = \<lparr>pi_StreamName = ''s'', pi_Records = [a, b]\<rparr>,
               pc_result = Inr \<lparr>po_FailedRecordCount = Some 1,
                 po_Records = [Some ''ProvisionedThroughputExceededException'', None]\<rparr>, pc_records = 2, pc_bytes = 75\<rparr>,
              \<lparr>pc_input = \<lparr>pi_StreamName = ''s'', pi_Records = [a]\<rparr>,
               pc_result = Inr \<lparr>po_FailedRecordCount = None, po_Records = [None]\<rparr>, pc_records = 1, pc_bytes = 37\<rparr>],
            el_uuids = 2\<rparr>, 2))"
  by code_simp


text \<open>
  The same for the datapoints of an exported metric batch.
\<close>

theorem export_accounts_for_every_datapoint:
  assumes "0 < pr_MaxRecords (cfg_PutRecords (ke_cfg e))"
  shows "\<exists>r log w'. ConsumeMetrics cl kl xl e md u w = Some (r, log, w') \<and>
    (list_all honest (el_calls log) \<longrightarrow>
      (\<exists>bs es unsent.
        list_all2 (\<lambda>b x. encodes e (metricsCodec (xl_plan xl) (xl_metrics xl) (ke_metricsEnc e)) b (re_Data x)) bs es \<and>
        sum_list (map DataPointCount bs) + total (el_drops log) = DataPointCount md \<and>
        mset es = mset (concat (map accepted (el_calls log))) + mset unsent \<and> (r = None \<longrightarrow> unsent = [])))"
  by (rule metrics_signal.emit_spec [OF assms, where plib = "xl_plan xl" and lib = "xl_metrics xl" and enc = "ke_metricsEnc e"
        and cl = cl and kl = kl and b = md and u = u and w = w])
    (auto simp: ConsumeMetrics_def metricsCodec_def)

theorem export_accounts_for_every_datapoint_witness:
  "\<exists>r log w'. ConsumeMetrics flaky_client sample_keys sample_export_lib valid_exporter
       (sample_metrics ''h'' [sample_metric ''m'' [''a'', ''b'', ''c'']]) 0 0 = Some (r, log, w') \<and>
     list_all honest (el_calls log) \<and> total (el_drops log) = 0 \<and>
     (\<exists>bs. sum_list (map DataPointCount bs) = 3)"
proof -
  let ?md = "sample_metrics ''h'' [sample_metric ''m'' [''a'', ''b'', ''c'']]"
  let ?run = "ConsumeMetrics flaky_client sample_keys sample_export_lib valid_exporter ?md 0 0"
  have m: "0 < pr_MaxRecords (cfg_PutRecords (ke_cfg valid_exporter))" by code_simp
  have h: "(case ?run of Some (r, log, w') \<Rightarrow> list_all honest (el_calls log) \<and> total (el_drops log) = 0 | None \<Rightarrow> False)"
    by code_simp
  have n: "DataPointCount ?md = 3" by code_simp
  show ?thesis
    using export_accounts_for_every_datapoint [OF m, of flaky_client sample_keys sample_export_lib ?md 0 0] h n
    by (auto split: option.splits prod.splits)
qed



text \<open>
  C13.  One PutRecords put, against a client that answers as documented: at most five calls; each
  resends, in order, exactly the records its predecessor left unwritten, so no record is
  accepted twice; and if the put reports success every record was accepted once.
\<close>

theorem put_resends_only_unwritten:
  assumes "putRecords cl e rs w = (r, calls, w')" "list_all honest calls"
  shows "length calls \<le> 5 \<and> resends rs calls \<and> mset (concat (map accepted calls)) \<subseteq># mset rs \<and>
    (r = None \<longrightarrow> mset (concat (map accepted calls)) = mset rs)"
proof -
  note s = putRecords_spec [OF assms(1)]
  from s(3) [OF assms(2)] have m: "mset (concat (map accepted calls)) + mset (left_over rs calls) = mset rs" by blast
  then have "mset (concat (map accepted calls)) \<subseteq># mset rs" by (metis mset_subset_eq_add_left)
  with s(1) s(3) [OF assms(2)] m show ?thesis by (auto simp: maxPutAttempts_def)
qed

text \<open>Five throttled attempts: the put gives up with the count of what is left.\<close>

definition stuck_client :: "nat kinesis_client" where
  "stuck_client = flaky_client\<lparr>kc_PutRecords := (\<lambda>n input.
     (Inr \<lparr>po_FailedRecordCount = Some 1, po_Records = Some ''InternalFailure'' # replicate (length (pi_Records input) - 1) None\<rparr>, n + 1))\<rparr>"

theorem put_resends_only_unwritten_witness:
  "\<exists>calls. putRecords stuck_client valid_exporter
       [\<lparr>re_Data = ''a'', re_PartitionKey = ''k''\<rparr>, \<lparr>re_Data = ''b'', re_PartitionKey = ''k''\<rparr>] 0 =
     (Some (StillFailing 1 5), calls, 5) \<and> length calls = 5 \<and>
     mset (concat (map accepted calls)) \<subseteq># {#\<lparr>re_Data = ''a'', re_PartitionKey = ''k''\<rparr>, \<lparr>re_Data = ''b'', re_PartitionKey = ''k''\<rparr>#}"
proof -
  let ?rs = "[\<lparr>re_Data = ''a'', re_PartitionKey = ''k''\<rparr>, \<lparr>re_Data = ''b'', re_PartitionKey = ''k''\<rparr>]"
  obtain r calls w' where p: "putRecords stuck_client valid_exporter ?rs 0 = (r, calls, w')" by (metis prod_cases3)
  have "(case putRecords stuck_client valid_exporter ?rs 0 of (r, calls, w') \<Rightarrow>
      r = Some (StillFailing 1 5) \<and> w' = 5 \<and> length calls = 5 \<and> list_all honest calls)" by code_simp
  with p have h: "r = Some (StillFailing 1 5)" "w' = 5" "length calls = 5" "list_all honest calls" by simp_all
  from put_resends_only_unwritten [OF p h(4)] p h show ?thesis by auto
qed

lemma sint_backoff_consts: "sint putBackoffBase = 100000000" "sint putBackoffMax = 2000000000"
  by code_simp+

lemma sint_shift: "sint (push_bit k putBackoffBase) = signed_take_bit 63 (100000000 * 2 ^ k)"
  by (simp only: signed_push_bit_eq sint_backoff_consts) (simp add: push_bit_eq_mult)

text \<open>A shift by at least five either overshoots the cap or, from 24 on, is a multiple of \<open>2 ^ 32\<close>.\<close>

lemma shift_never_short:
  assumes "5 \<le> k"
  shows "sint (push_bit k putBackoffBase) \<le> 0 \<or> 2000000000 < sint (push_bit k putBackoffBase)"
proof (cases "k < 24")
  case True
  have "(2::int) ^ 5 \<le> 2 ^ k" "(2::int) ^ k \<le> 2 ^ 24"
    by (rule power_increasing; use assms True in simp)+
  then have b: "3200000000 \<le> 100000000 * (2::int) ^ k" "100000000 * (2::int) ^ k < 2 ^ 63" by simp_all
  then have "signed_take_bit 63 (100000000 * (2::int) ^ k) = 100000000 * 2 ^ k"
    by (intro signed_take_bit_int_eq_self) auto
  with b show ?thesis by (simp add: sint_shift)
next
  case False
  let ?d = "sint (push_bit k putBackoffBase)"
  have "(2::int) ^ 32 dvd 2 ^ (k + 8)" using False by (intro le_imp_power_dvd) simp
  moreover have "100000000 * (2::int) ^ k = 390625 * 2 ^ (k + 8)" by (simp add: power_add)
  ultimately have "take_bit 32 (100000000 * (2::int) ^ k) = 0"
    by (metis dvd_mult take_bit_eq_0_iff)
  then have "take_bit 32 ?d = 0" by (simp add: sint_shift take_bit_signed_take_bit)
  then have "2 ^ 32 dvd ?d" by (simp only: take_bit_eq_0_iff)
  then show ?thesis by (auto dest: zdvd_imp_le)
qed

text \<open>
  C40.  The backoff between attempts is never below 100ms and never above 2s, for any attempt number:
  the shift of a 64-bit duration never wraps into a shorter wait.
\<close>

theorem backoff_bounded:
  "sint (backoff_delay k) = min (100000000 * 2 ^ k) 2000000000"
proof (cases "k < 5")
  case True
  then have "k \<in> {0, 1, 2, 3, 4}" by auto
  then show ?thesis by (elim insertE) (simp_all, code_simp+)
next
  case False
  then have "(2::int) ^ 5 \<le> 2 ^ k" by (intro power_increasing) auto
  moreover from False have "backoff_delay k = putBackoffMax"
    using shift_never_short [of k]
    by (auto simp: backoff_delay_def Let_def word_sless_alt word_sle_eq sint_backoff_consts)
  ultimately show ?thesis by (simp add: sint_backoff_consts)
qed

text \<open>
  Under \<^verbatim>\<open>tag_hash\<close> the partition key of a group depends only on the hash of its tag: sixteen
  characters, equal exactly when the hashes are, and no UUID is drawn; otherwise every record
  draws a UUID of its own.
\<close>

theorem partition_key_by_hash:
  "if tagHash (ke_cfg e)
   then length (fst (partitionKey kl e t u)) = 16 \<and> snd (partitionKey kl e t u) = u \<and>
     (fst (partitionKey kl e t u) = fst (partitionKey kl e t' u') \<longleftrightarrow> Sum64String kl t = Sum64String kl t')
   else partitionKey kl e t u = (NewString kl u, u + 1)"
  by (simp add: partitionKey_def hex16_inj)

text \<open>
  A validated configuration builds an exporter: once the AWS client and the telemetry come up,
  \<open>newExporter\<close> succeeds, keeps the configuration and its resolved key plan, and encodes all three
  signals in the same format.
\<close>

theorem validated_config_builds_exporter:
  assumes "Validate (pl_regexp (xl_plan xl)) cfg = None"
  shows "\<exists>plan cmp. resolveKeyPlan (pl_regexp (xl_plan xl)) cfg = Inr plan \<and>
    newExporter xl None None cfg =
      Inr \<lparr>ke_cfg = cfg, ke_keyPlan = plan,
           ke_tracesEnc = (if cfg_Encoding cfg = EncodingOTLPProto then otlpProtoTraces else otlpJSONTraces),
           ke_metricsEnc = (if cfg_Encoding cfg = EncodingOTLPProto then otlpProtoMetrics else otlpJSONMetrics),
           ke_logsEnc = (if cfg_Encoding cfg = EncodingOTLPProto then otlpProtoLogs else otlpJSONLogs),
           ke_comp = cmp, ke_lib = xl_codec xl\<rparr>"
proof -
  from assms have v: "valid_config (pl_regexp (xl_plan xl)) cfg" by (simp add: Validate_valid_config)
  then obtain cmp where "NewCompressor (cfg_Compression cfg) = Inr cmp"
    using codec_known [of "cfg_Compression cfg"] by (auto simp: valid_config_def)
  moreover from assms obtain plan where "resolveKeyPlan (pl_regexp (xl_plan xl)) cfg = Inr plan"
    using resolveKeyPlan_ok [OF v] by blast
  moreover from v have "cfg_Encoding cfg \<in> {EncodingOTLPProto, EncodingOTLPJSON}" by (simp add: valid_config_def)
  ultimately show ?thesis
    by (auto simp: newExporter_def NewTracesEncoder_def NewMetricsEncoder_def NewLogsEncoder_def)
qed

theorem validated_config_builds_exporter_witness:
  "\<exists>plan cmp. newExporter sample_export_lib None None (ke_cfg valid_exporter) =
     Inr \<lparr>ke_cfg = ke_cfg valid_exporter, ke_keyPlan = plan, ke_tracesEnc = otlpProtoTraces,
       ke_metricsEnc = otlpProtoMetrics, ke_logsEnc = otlpProtoLogs, ke_comp = cmp, ke_lib = sample_lib\<rparr>"
proof -
  have v: "Validate (pl_regexp (xl_plan sample_export_lib)) (ke_cfg valid_exporter) = None" by code_simp
  have e: "cfg_Encoding (ke_cfg valid_exporter) = EncodingOTLPProto" by code_simp
  have l: "xl_codec sample_export_lib = sample_lib" by (simp add: sample_export_lib_def)
  from validated_config_builds_exporter [OF v] show ?thesis by (simp only: e l if_True refl simp_thms) blast
qed

end
