(* ===== verification/ReceiverConfig.thy ===== *)
theory ReceiverConfig
  imports Encoding Pdata
begin

section \<open>The receiver's configuration and worker identity (config.go, workerid.go)\<close>

text \<open>
  \<^verbatim>\<open>receiver/awskinesisreceiver/config.go\<close>, the defaults of \<^verbatim>\<open>factory.go\<close> and \<^verbatim>\<open>workerid.go\<close>.  The
  durations are 64-bit words compared as signed integers, \<^verbatim>\<open>MaxRecords\<close> is a 32-bit word.  The
  operating system (host name, environment, files, the metadata endpoint) is a record of
  values: what it answered.  The theorems say which configurations are accepted, and that a
  resolved identity is never empty and always valid UTF-8.
\<close>

subsection \<open>Configuration\<close>

abbreviation LeaseBackendMemory :: string where "LeaseBackendMemory \<equiv> ''memory''"
abbreviation LeaseBackendDynamoDB :: string where "LeaseBackendDynamoDB \<equiv> ''dynamodb''"
abbreviation WorkerStrategyStatic :: string where "WorkerStrategyStatic \<equiv> ''static''"
abbreviation WorkerStrategyHostname :: string where "WorkerStrategyHostname \<equiv> ''hostname''"
abbreviation WorkerStrategyECS :: string where "WorkerStrategyECS \<equiv> ''ecs''"
abbreviation WorkerStrategyFile :: string where "WorkerStrategyFile \<equiv> ''file''"

record ReceiverConfig =
  rc_StreamName :: string
  rc_Region :: string
  rc_Endpoint :: string
  rc_Encoding :: string
  rc_Compression :: string
  rc_PollInterval :: int64
  rc_MaxRecords :: "32 word"
  rc_WorkerResolutionStrategy :: string
  rc_WorkerID :: string
  rc_WorkerIDFile :: string
  rc_LeaseBackend :: string
  rc_LeaseTable :: string
  rc_LeaseDuration :: int64
  rc_HeartbeatInterval :: int64
  rc_DiscoveryInterval :: int64
  rc_DeadLetter :: bool

datatype receiver_config_error =
    StreamNameMissing
  | RegionMissing
  | EncodingError err
  | CompressionError err
  | PollIntervalNotPositive
  | MaxRecordsOutOfRange
  | UnknownWorkerStrategy string
  | WorkerIDUnused string
  | WorkerIDFileUnused string
  | WorkerIDFileMissing
  | LeaseTableMissing
  | UnknownLeaseBackend string
  | LeaseDurationNotPositive
  | HeartbeatIntervalNotPositive
  | HeartbeatNotBelowLease
  | DiscoveryIntervalNotPositive

definition validate_worker :: "ReceiverConfig \<Rightarrow> receiver_config_error option" where
  "validate_worker c =
     (if \<not> (rc_WorkerResolutionStrategy c = WorkerStrategyStatic \<or>
             rc_WorkerResolutionStrategy c = WorkerStrategyHostname \<or>
             rc_WorkerResolutionStrategy c = WorkerStrategyECS \<or>
             rc_WorkerResolutionStrategy c = WorkerStrategyFile)
      then Some (UnknownWorkerStrategy (rc_WorkerResolutionStrategy c))
      else if rc_WorkerID c \<noteq> [] \<and> rc_WorkerResolutionStrategy c \<noteq> WorkerStrategyStatic
      then Some (WorkerIDUnused (rc_WorkerResolutionStrategy c))
      else if rc_WorkerIDFile c \<noteq> [] \<and> rc_WorkerResolutionStrategy c \<noteq> WorkerStrategyFile
      then Some (WorkerIDFileUnused (rc_WorkerResolutionStrategy c))
      else if rc_WorkerResolutionStrategy c = WorkerStrategyFile \<and> rc_WorkerIDFile c = []
      then Some WorkerIDFileMissing
      else None)"

definition validate_lease :: "ReceiverConfig \<Rightarrow> receiver_config_error option" where
  "validate_lease c =
     (if rc_LeaseBackend c = LeaseBackendMemory then None
      else if rc_LeaseBackend c = LeaseBackendDynamoDB
      then (if rc_LeaseTable c = [] then Some LeaseTableMissing else None)
      else Some (UnknownLeaseBackend (rc_LeaseBackend c)))"

definition validate_intervals :: "ReceiverConfig \<Rightarrow> receiver_config_error option" where
  "validate_intervals c =
     (if rc_LeaseDuration c \<le>s 0 then Some LeaseDurationNotPositive
      else if rc_HeartbeatInterval c \<le>s 0 then Some HeartbeatIntervalNotPositive
      else if rc_LeaseDuration c \<le>s rc_HeartbeatInterval c then Some HeartbeatNotBelowLease
      else if rc_DiscoveryInterval c \<le>s 0 then Some DiscoveryIntervalNotPositive
      else None)"

definition Receiver_Validate :: "ReceiverConfig \<Rightarrow> receiver_config_error option" where
  "Receiver_Validate c =
     (if rc_StreamName c = [] then Some StreamNameMissing
      else if rc_Region c = [] then Some RegionMissing
      else (case NewTracesDecoder (rc_Encoding c) of Inl e \<Rightarrow> Some (EncodingError e)
      | Inr _ \<Rightarrow> (case NewCompressor (rc_Compression c) of Inl e \<Rightarrow> Some (CompressionError e)
      | Inr _ \<Rightarrow>
          (if rc_PollInterval c \<le>s 0 then Some PollIntervalNotPositive
           else if rc_MaxRecords c \<le>s 0 \<or> 10000 <s rc_MaxRecords c then Some MaxRecordsOutOfRange
           else (case validate_worker c of Some e \<Rightarrow> Some e
           | None \<Rightarrow> (case validate_lease c of Some e \<Rightarrow> Some e
           | None \<Rightarrow> validate_intervals c))))))"

definition receiver_defaults :: ReceiverConfig where
  "receiver_defaults =
     \<lparr>rc_StreamName = [], rc_Region = [], rc_Endpoint = [],
      rc_Encoding = EncodingOTLPProto, rc_Compression = CodecNone,
      rc_PollInterval = 250 * Millisecond, rc_MaxRecords = 10000,
      rc_WorkerResolutionStrategy = WorkerStrategyStatic, rc_WorkerID = [], rc_WorkerIDFile = [],
      rc_LeaseBackend = LeaseBackendMemory, rc_LeaseTable = [],
      rc_LeaseDuration = 30 * Second, rc_HeartbeatInterval = 5 * Second, rc_DiscoveryInterval = 30 * Second,
      rc_DeadLetter = False\<rparr>"

subsection \<open>Worker identity\<close>

text \<open>
  What the platform answers: a UUID, the host name, the two environment variables, the result of
  the metadata request down to the decoded task ARN, and the content of files.
\<close>

datatype metadata_response =
    RequestInvalid err
  | RequestFailed err
  | BadStatus string
  | BadDocument err
  | TaskARN string

record platform =
  pf_uuid :: string
  pf_Hostname :: "err + string"
  pf_Getenv :: "string \<Rightarrow> string"
  pf_Get :: "string \<Rightarrow> metadata_response"
  pf_ReadFile :: "string \<Rightarrow> err + string"

datatype worker_error =
    HostnameError err
  | EmptyHostname
  | NoMetadataURI
  | MetadataError metadata_response
  | NoTaskID string
  | NoFilePath
  | FileError err
  | EmptyFile string
  | UnknownStrategyName string
  | EmptyWorkerID string
  | InvalidUTF8WorkerID string

abbreviation ecsMetadataURIEnvV4 :: string where "ecsMetadataURIEnvV4 \<equiv> ''ECS_CONTAINER_METADATA_URI_V4''"
abbreviation ecsMetadataURIEnvV3 :: string where "ecsMetadataURIEnvV3 \<equiv> ''ECS_CONTAINER_METADATA_URI''"

text \<open>\<^verbatim>\<open>arn[strings.LastIndex(arn, "/")+1:]\<close>: what follows the last slash, or the whole string.\<close>

definition after_last_slash :: "string \<Rightarrow> string" where
  "after_last_slash s = rev (takeWhile (\<lambda>c. c \<noteq> CHR ''/'') (rev s))"

definition ecsTaskID :: "platform \<Rightarrow> worker_error + string" where
  "ecsTaskID pf =
     (let v4 = pf_Getenv pf ecsMetadataURIEnvV4;
          base = (if v4 = [] then pf_Getenv pf ecsMetadataURIEnvV3 else v4)
      in if base = [] then Inl NoMetadataURI
         else (case pf_Get pf (base @ ''/task'') of
             TaskARN arn \<Rightarrow>
               (let wid = after_last_slash arn in if wid = [] then Inl (NoTaskID arn) else Inr wid)
           | e \<Rightarrow> Inl (MetadataError e)))"

text \<open>
  \<^verbatim>\<open>strings.TrimSpace\<close> on bytes.  Unicode spaces beyond ASCII (next line and no-break space, and the
  wider ones) are trimmed as their UTF-8 encodings.
\<close>

definition ascii_spaces :: "string list" where
  "ascii_spaces = map (\<lambda>n. [char_of (n::nat)]) [9, 10, 11, 12, 13, 32]"

definition wide_spaces :: "string list" where
  "wide_spaces = map (map (char_of :: nat \<Rightarrow> char))
     ([[194, 133], [194, 160], [225, 154, 128]] @
      map (\<lambda>n. [226, 128, n]) ([128..<139] @ [168, 169, 175]) @
      [[226, 129, 159], [227, 128, 128]])"

definition spaces :: "string list" where
  "spaces = ascii_spaces @ wide_spaces"

function trim_left :: "string list \<Rightarrow> string \<Rightarrow> string" where
  "trim_left sps s =
     (case find (\<lambda>sp. sp \<noteq> [] \<and> take (length sp) s = sp) sps of
        None \<Rightarrow> s
      | Some sp \<Rightarrow> trim_left sps (drop (length sp) s))"
  by pat_completeness auto
termination
  by (relation "measure (\<lambda>(sps, s). length s)") (auto simp: find_Some_iff, metis length_greater_0_conv take_Nil diff_less)

declare trim_left.simps [simp del]

definition TrimSpace :: "string \<Rightarrow> string" where
  "TrimSpace s = rev (trim_left (map rev spaces) (rev (trim_left spaces s)))"

definition workerIDFromFile :: "platform \<Rightarrow> string \<Rightarrow> worker_error + string" where
  "workerIDFromFile pf path =
     (if path = [] then Inl NoFilePath
      else (case pf_ReadFile pf path of
          Inl e \<Rightarrow> Inl (FileError e)
        | Inr raw \<Rightarrow> (let wid = TrimSpace raw in if wid = [] then Inl (EmptyFile path) else Inr wid)))"

definition resolveByStrategy :: "platform \<Rightarrow> ReceiverConfig \<Rightarrow> worker_error + string" where
  "resolveByStrategy pf c =
     (let s = rc_WorkerResolutionStrategy c
      in if s = WorkerStrategyStatic
         then (if rc_WorkerID c \<noteq> [] then Inr (rc_WorkerID c) else Inr (''otelcol-'' @ pf_uuid pf))
         else if s = WorkerStrategyHostname
         then (case pf_Hostname pf of
             Inl e \<Rightarrow> Inl (HostnameError e)
           | Inr host \<Rightarrow> if host = [] then Inl EmptyHostname else Inr host)
         else if s = WorkerStrategyECS then ecsTaskID pf
         else if s = WorkerStrategyFile then workerIDFromFile pf (rc_WorkerIDFile c)
         else Inl (UnknownStrategyName s))"

definition resolveWorkerID :: "platform \<Rightarrow> ReceiverConfig \<Rightarrow> worker_error + string" where
  "resolveWorkerID pf c =
     (case resolveByStrategy pf c of
        Inl e \<Rightarrow> Inl e
      | Inr wid \<Rightarrow>
          (if wid = [] then Inl (EmptyWorkerID (rc_WorkerResolutionStrategy c))
           else if \<not> valid_utf8 wid then Inl (InvalidUTF8WorkerID (rc_WorkerResolutionStrategy c))
           else Inr wid))"

subsection \<open>What is accepted\<close>

definition receiver_valid :: "ReceiverConfig \<Rightarrow> bool" where
  "receiver_valid c \<longleftrightarrow>
     rc_StreamName c \<noteq> [] \<and> rc_Region c \<noteq> [] \<and>
     rc_Encoding c \<in> {EncodingOTLPProto, EncodingOTLPJSON} \<and>
     rc_Compression c \<in> {CodecNone, CodecGzip, CodecZstd, CodecSnappy, CodecSnappyFramed, CodecZlib, CodecDeflate} \<and>
     0 < sint (rc_PollInterval c) \<and> 1 \<le> sint (rc_MaxRecords c) \<and> sint (rc_MaxRecords c) \<le> 10000 \<and>
     rc_WorkerResolutionStrategy c \<in> {WorkerStrategyStatic, WorkerStrategyHostname, WorkerStrategyECS, WorkerStrategyFile} \<and>
     (rc_WorkerID c \<noteq> [] \<longrightarrow> rc_WorkerResolutionStrategy c = WorkerStrategyStatic) \<and>
     (rc_WorkerIDFile c \<noteq> [] \<longleftrightarrow> rc_WorkerResolutionStrategy c = WorkerStrategyFile) \<and>
     (rc_LeaseBackend c = LeaseBackendMemory \<or> rc_LeaseBackend c = LeaseBackendDynamoDB \<and> rc_LeaseTable c \<noteq> []) \<and>
     0 < sint (rc_HeartbeatInterval c) \<and> sint (rc_HeartbeatInterval c) < sint (rc_LeaseDuration c) \<and>
     0 < sint (rc_DiscoveryInterval c)"

lemma worker_None:
  "validate_worker c = None \<longleftrightarrow>
     rc_WorkerResolutionStrategy c \<in> {WorkerStrategyStatic, WorkerStrategyHostname, WorkerStrategyECS, WorkerStrategyFile} \<and>
     (rc_WorkerID c \<noteq> [] \<longrightarrow> rc_WorkerResolutionStrategy c = WorkerStrategyStatic) \<and>
     (rc_WorkerIDFile c \<noteq> [] \<longleftrightarrow> rc_WorkerResolutionStrategy c = WorkerStrategyFile)"
  by (auto simp: validate_worker_def)

lemma lease_None:
  "validate_lease c = None \<longleftrightarrow>
     rc_LeaseBackend c = LeaseBackendMemory \<or> rc_LeaseBackend c = LeaseBackendDynamoDB \<and> rc_LeaseTable c \<noteq> []"
  by (auto simp: validate_lease_def)

lemma intervals_None:
  "validate_intervals c = None \<longleftrightarrow>
     0 < sint (rc_HeartbeatInterval c) \<and> sint (rc_HeartbeatInterval c) < sint (rc_LeaseDuration c) \<and>
     0 < sint (rc_DiscoveryInterval c)"
  by (auto simp: validate_intervals_def word_sle_eq)

lemma decoder_known: "(\<exists>e. NewTracesDecoder nm = Inr e) \<longleftrightarrow> nm \<in> {EncodingOTLPProto, EncodingOTLPJSON}"
  by (simp add: NewTracesDecoder_def)

lemma known_codec:
  "(\<exists>e. NewCompressor nm = Inr e) \<longleftrightarrow>
     nm \<in> {CodecNone, CodecGzip, CodecZstd, CodecSnappy, CodecSnappyFramed, CodecZlib, CodecDeflate}"
  by (simp add: NewCompressor_def)

lemma Receiver_Validate_valid: "Receiver_Validate c = None \<longleftrightarrow> receiver_valid c"
proof -
  have dec: "(case NewTracesDecoder nm of Inl e \<Rightarrow> Some (f e) | Inr _ \<Rightarrow> r) = None \<longleftrightarrow>
      nm \<in> {EncodingOTLPProto, EncodingOTLPJSON} \<and> r = None" for nm r and f :: "string \<Rightarrow> receiver_config_error"
    using decoder_known [of nm] by (auto split: sum.splits)
  have com: "(case NewCompressor nm of Inl e \<Rightarrow> Some (f e) | Inr _ \<Rightarrow> r) = None \<longleftrightarrow>
      nm \<in> {CodecNone, CodecGzip, CodecZstd, CodecSnappy, CodecSnappyFramed, CodecZlib, CodecDeflate} \<and> r = None"
    for nm r and f :: "string \<Rightarrow> receiver_config_error"
    using known_codec [of nm] by (auto split: sum.splits)
  have opt: "(case x of Some e \<Rightarrow> Some e | None \<Rightarrow> r) = None \<longleftrightarrow> x = None \<and> r = None"
    for x r :: "receiver_config_error option"
    by (cases x) simp_all
  have one: "(if b then Some e else r) = None \<longleftrightarrow> \<not> b \<and> r = None"
    for b and e :: receiver_config_error and r by simp
  have range: "\<not> (rc_MaxRecords c \<le>s 0 \<or> 10000 <s rc_MaxRecords c) \<longleftrightarrow>
      1 \<le> sint (rc_MaxRecords c) \<and> sint (rc_MaxRecords c) \<le> 10000"
    by (auto simp: word_sle_eq word_sless_alt)
  show ?thesis
    unfolding Receiver_Validate_def receiver_valid_def one dec com opt worker_None lease_None intervals_None range
    by (simp add: word_sle_eq not_le conj_ac)
qed

text \<open>
  The receiver's Validate accepts exactly these configurations: a stream and region, a known
  encoding and codec, a positive poll interval, 1 to 10000 records a call, a known identity
  strategy with the companion fields of that strategy only, a lease table exactly where the
  backend needs one, and a heartbeat interval strictly below the lease duration.
\<close>

theorem receiver_validate_accepts_exactly:
  "Receiver_Validate c = None \<longleftrightarrow>
     rc_StreamName c \<noteq> [] \<and> rc_Region c \<noteq> [] \<and>
     rc_Encoding c \<in> {EncodingOTLPProto, EncodingOTLPJSON} \<and>
     rc_Compression c \<in> {CodecNone, CodecGzip, CodecZstd, CodecSnappy, CodecSnappyFramed, CodecZlib, CodecDeflate} \<and>
     0 < sint (rc_PollInterval c) \<and> 1 \<le> sint (rc_MaxRecords c) \<and> sint (rc_MaxRecords c) \<le> 10000 \<and>
     rc_WorkerResolutionStrategy c \<in> {WorkerStrategyStatic, WorkerStrategyHostname, WorkerStrategyECS, WorkerStrategyFile} \<and>
     (rc_WorkerID c \<noteq> [] \<longrightarrow> rc_WorkerResolutionStrategy c = WorkerStrategyStatic) \<and>
     (rc_WorkerIDFile c \<noteq> [] \<longleftrightarrow> rc_WorkerResolutionStrategy c = WorkerStrategyFile) \<and>
     (rc_LeaseBackend c = LeaseBackendMemory \<or> rc_LeaseBackend c = LeaseBackendDynamoDB \<and> rc_LeaseTable c \<noteq> []) \<and>
     0 < sint (rc_HeartbeatInterval c) \<and> sint (rc_HeartbeatInterval c) < sint (rc_LeaseDuration c) \<and>
     0 < sint (rc_DiscoveryInterval c)"
  unfolding Receiver_Validate_valid receiver_valid_def ..

lemma resolve_validated:
  assumes "Receiver_Validate c = None" "resolveByStrategy pf c = Inl e"
  shows "rc_WorkerResolutionStrategy c \<noteq> WorkerStrategyStatic \<and> (\<forall>s. e \<noteq> UnknownStrategyName s)"
  using assms
  by (auto simp: Receiver_Validate_valid receiver_valid_def resolveByStrategy_def Let_def ecsTaskID_def
      workerIDFromFile_def split: if_splits sum.splits metadata_response.splits)

text \<open>
  C29.  A resolved worker identity is never empty, so it can never be read as the mark of an unowned
  lease, and is valid UTF-8; and with a validated configuration the static strategy fails only on
  an identity that is not UTF-8, and no strategy is unknown.
\<close>

theorem worker_identity_is_usable:
  "(resolveWorkerID pf c = Inr w \<longrightarrow> w \<noteq> [] \<and> valid_utf8 w) \<and>
   (Receiver_Validate c = None \<and> resolveWorkerID pf c = Inl e \<longrightarrow>
      (\<forall>s. e \<noteq> UnknownStrategyName s) \<and>
      (rc_WorkerResolutionStrategy c = WorkerStrategyStatic \<longrightarrow> e = InvalidUTF8WorkerID WorkerStrategyStatic))"
proof -
  have "rc_WorkerResolutionStrategy c = WorkerStrategyStatic \<Longrightarrow> resolveByStrategy pf c = Inr wid \<Longrightarrow> wid \<noteq> []"
    for wid by (auto simp: resolveByStrategy_def Let_def split: if_splits)
  then show ?thesis
    using resolve_validated [of c pf]
    by (auto simp: resolveWorkerID_def split: sum.splits if_splits)
qed

definition sample_platform :: platform where
  "sample_platform = \<lparr>pf_uuid = ''123e4567-e89b-12d3-a456-426614174000'', pf_Hostname = Inr ''pod-0'',
     pf_Getenv = (\<lambda>v. if v = ecsMetadataURIEnvV3 then ''http://169.254.170.2/v3'' else []),
     pf_Get = (\<lambda>url. if url = ''http://169.254.170.2/v3/task'' then TaskARN ''arn:aws:ecs:r:1:task/c/abc'' else BadStatus ''404''),
     pf_ReadFile = (\<lambda>p. if p = ''/id'' then Inr ([CHR 0x20] @ ''w-7'' @ [CHR 0xE2, CHR 0x80, CHR 0xA8, CHR 0x0A]) else Inl ''no such file'')\<rparr>"

abbreviation sample_receiver :: ReceiverConfig where
  "sample_receiver \<equiv> receiver_defaults\<lparr>rc_StreamName := ''s'', rc_Region := ''r''\<rparr>"

theorem worker_identity_is_usable_witness:
  "Receiver_Validate sample_receiver = None \<and>
   (\<exists>w. resolveWorkerID sample_platform (sample_receiver\<lparr>rc_WorkerResolutionStrategy := WorkerStrategyECS\<rparr>) = Inr w \<and>
      w = ''abc'' \<and> valid_utf8 w) \<and>
   resolveWorkerID sample_platform (sample_receiver\<lparr>rc_WorkerResolutionStrategy := WorkerStrategyFile, rc_WorkerIDFile := ''/id''\<rparr>) =
     Inr ''w-7''"
proof -
  have r: "resolveWorkerID sample_platform (sample_receiver\<lparr>rc_WorkerResolutionStrategy := WorkerStrategyECS\<rparr>) = Inr ''abc''"
    by code_simp
  have v: "Receiver_Validate sample_receiver = None" by code_simp
  have f: "resolveWorkerID sample_platform
      (sample_receiver\<lparr>rc_WorkerResolutionStrategy := WorkerStrategyFile, rc_WorkerIDFile := ''/id''\<rparr>) = Inr ''w-7''"
    by code_simp
  from conjunct1 [OF worker_identity_is_usable] r have "valid_utf8 ''abc''" by blast
  with r v f show ?thesis by blast
qed

end
