(* ===== verification/Sink.thy ===== *)
theory Sink
  imports ReceiverConfig Batch
begin

section \<open>Sinks and dead letters (sink.go, deadletter.go)\<close>

text \<open>
  \<^verbatim>\<open>receiver/awskinesisreceiver/sink.go\<close> and \<^verbatim>\<open>deadletter.go\<close>: a sink decodes a payload into its
  signal and hands it to the next consumer, and wraps a record it cannot process into an item
  of that signal.  The consumer is a function over a world \<open>'w\<close>; the record \<open>sink\<close> is the Go
  interface.  \<^verbatim>\<open>base64.StdEncoding\<close> is written out.  The lemmas say what each result of \<open>consume\<close>
  means, and that the record can be recovered from its dead letter.
\<close>

record KinesisRecord =
  kr_Data :: bytes
  kr_SequenceNumber :: "string option"
  kr_PartitionKey :: "string option"

text \<open>\<^verbatim>\<open>aws.ToString\<close>.\<close>

definition ToString :: "string option \<Rightarrow> string" where
  "ToString s = (case s of None \<Rightarrow> [] | Some x \<Rightarrow> x)"

datatype recordResult = recordOK | recordSkip | recordRetry

text \<open>\<^verbatim>\<open>consumererror.IsPermanent\<close> splits the errors of a consumer in two.\<close>

datatype consumer_error = PermanentError err | TransientError err

fun IsPermanent :: "consumer_error \<Rightarrow> bool" where
  "IsPermanent (PermanentError e) = True"
| "IsPermanent (TransientError e) = False"

type_synonym ('d, 'w) consumer = "'d \<Rightarrow> 'w \<Rightarrow> consumer_error option \<times> 'w"

record 'w sink =
  sk_consume :: "bytes \<Rightarrow> 'w \<Rightarrow> (recordResult \<times> bool) \<times> 'w"
  sk_deadLetter :: "KinesisRecord \<Rightarrow> string \<Rightarrow> string \<Rightarrow> string \<Rightarrow> 'w \<Rightarrow> consumer_error option \<times> 'w"

subsection \<open>base64\<close>

definition b64_alphabet :: string where
  "b64_alphabet = ''ABCDEFGHIJKLMNOPQRSTUVWXYZabcdefghijklmnopqrstuvwxyz0123456789+/''"

definition b64_char :: "nat \<Rightarrow> char" where
  "b64_char n = b64_alphabet ! n"

fun EncodeToString :: "bytes \<Rightarrow> string" where
  "EncodeToString [] = []"
| "EncodeToString [a] =
     (let a = of_char a :: nat in [b64_char (a div 4), b64_char (a mod 4 * 16), CHR ''='', CHR ''=''])"
| "EncodeToString [a, b] =
     (let a = of_char a :: nat; b = of_char b
      in [b64_char (a div 4), b64_char (a mod 4 * 16 + b div 16), b64_char (b mod 16 * 4), CHR ''=''])"
| "EncodeToString (a # b # c # rest) =
     (let a' = of_char a :: nat; b' = of_char b; c' = of_char c
      in b64_char (a' div 4) # b64_char (a' mod 4 * 16 + b' div 16) # b64_char (b' mod 16 * 4 + c' div 64) #
         b64_char (c' mod 64) # EncodeToString rest)"

text \<open>The decoder an operator would use on the attribute.\<close>

fun b64_index :: "char \<Rightarrow> string \<Rightarrow> nat \<Rightarrow> nat option" where
  "b64_index c [] i = None"
| "b64_index c (x # xs) i = (if c = x then Some i else b64_index c xs (i + 1))"

definition b64_value :: "char \<Rightarrow> nat option" where
  "b64_value c = b64_index c b64_alphabet 0"

fun DecodeString :: "string \<Rightarrow> bytes option" where
  "DecodeString [] = Some []"
| "DecodeString (p # q # r # s # rest) =
     (case (b64_value p, b64_value q, b64_value r, b64_value s) of
        (Some a, Some b, Some c, Some d) \<Rightarrow>
          map_option (\<lambda>bs. char_of (a * 4 + b div 16) # char_of (b mod 16 * 16 + c div 4) #
            char_of (c mod 4 * 64 + d) # bs) (DecodeString rest)
      | (Some a, Some b, Some c, None) \<Rightarrow>
          (if s = CHR ''='' \<and> rest = [] then Some [char_of (a * 4 + b div 16), char_of (b mod 16 * 16 + c div 4)] else None)
      | (Some a, Some b, None, None) \<Rightarrow>
          (if r = CHR ''='' \<and> s = CHR ''='' \<and> rest = [] then Some [char_of (a * 4 + b div 16)] else None)
      | _ \<Rightarrow> None)"
| "DecodeString _ = None"

lemma b64_table: "\<forall>n\<in>set [0..<64]. b64_value (b64_char n) = Some n"
  by code_simp

lemma b64_value_char [simp]: "n < 64 \<Longrightarrow> b64_value (b64_char n) = Some n"
  using b64_table by auto

lemma b64_value_pad [simp]: "b64_value CHR ''='' = None"
  by code_simp

lemma byte_less: "(of_char c :: nat) < 256"
  using of_char_mod_256 by (metis mod_less_divisor zero_less_numeral)

text \<open>Three bytes \<open>x\<close>, \<open>y\<close>, \<open>z\<close> as four sextets and back.\<close>

lemma sextets:
  fixes x y z :: nat
  assumes "x < 256" "y < 256" "z < 256"
  shows "x div 4 < 64" "x mod 4 * 16 < 64" "x mod 4 * 16 + y div 16 < 64" "y mod 16 * 4 < 64"
    "y mod 16 * 4 + z div 64 < 64" "z mod 64 < 64"
  using assms by linarith+

lemma join_sextets:
  fixes x y z :: nat
  assumes "x < 256" "y < 256" "z < 256"
  shows "x div 4 * 4 + x mod 4 * 16 div 16 = x"
    "x div 4 * 4 + (x mod 4 * 16 + y div 16) div 16 = x"
    "(x mod 4 * 16 + y div 16) mod 16 * 16 + y mod 16 * 4 div 4 = y"
    "(x mod 4 * 16 + y div 16) mod 16 * 16 + (y mod 16 * 4 + z div 64) div 4 = y"
    "(y mod 16 * 4 + z div 64) mod 4 * 64 + z mod 64 = z"
proof -
  have small: "y div 16 < 16" "z div 64 < 4" using assms by linarith+
  then show "x div 4 * 4 + x mod 4 * 16 div 16 = x" "x div 4 * 4 + (x mod 4 * 16 + y div 16) div 16 = x"
    "(x mod 4 * 16 + y div 16) mod 16 * 16 + y mod 16 * 4 div 4 = y"
    "(x mod 4 * 16 + y div 16) mod 16 * 16 + (y mod 16 * 4 + z div 64) div 4 = y"
    "(y mod 16 * 4 + z div 64) mod 4 * 64 + z mod 64 = z"
    by simp_all
qed

lemma Decode_Encode: "DecodeString (EncodeToString bs) = Some bs"
proof (induction bs rule: EncodeToString.induct)
  case (2 a)
  show ?case
    using sextets [OF byte_less [of a] byte_less [of a] byte_less [of a]]
      join_sextets [OF byte_less [of a] byte_less [of a] byte_less [of a]]
    by (simp add: Let_def)
next
  case (3 a b)
  show ?case
    using sextets [OF byte_less [of a] byte_less [of b] byte_less [of b]]
      join_sextets [OF byte_less [of a] byte_less [of b] byte_less [of b]]
    by (simp add: Let_def)
next
  case (4 a b c rest)
  then show ?case
    using sextets [OF byte_less [of a] byte_less [of b] byte_less [of c]]
      join_sextets [OF byte_less [of a] byte_less [of b] byte_less [of c]]
    by (simp add: Let_def)
qed simp

subsection \<open>Dead letters\<close>

definition deadLetterName :: string where "deadLetterName = ''kinesis.dead_letter''"

text \<open>The callback \<open>put\<close> is \<^verbatim>\<open>Attributes().PutStr\<close> of the item; the attribute map is threaded.\<close>

definition deadLetterAttrs ::
  "(string \<Rightarrow> string \<Rightarrow> attrs \<Rightarrow> attrs) \<Rightarrow> KinesisRecord \<Rightarrow> string \<Rightarrow> string \<Rightarrow> string \<Rightarrow> attrs \<Rightarrow> attrs" where
  "deadLetterAttrs put rec failureClass encName codecName m =
     put ''kinesis.codec'' codecName
       (put ''kinesis.encoding'' encName
         (put ''kinesis.failure_class'' failureClass
           (put ''kinesis.partition_key'' (ToString (kr_PartitionKey rec))
             (put ''kinesis.sequence'' (ToString (kr_SequenceNumber rec))
               (put ''kinesis.raw'' (EncodeToString (kr_Data rec)) m)))))"

definition new_resource :: resource where "new_resource = \<lparr>res_attrs = [], res_rest = 0\<rparr>"
definition new_scope :: scope where
  "new_scope = \<lparr>sc_name = [], sc_version = [], sc_attrs = [], sc_rest = 0\<rparr>"

text \<open>A batch of one item in an empty scope of an empty resource.\<close>

definition single_item :: "'l \<Rightarrow> 'l batch" where
  "single_item l = [\<lparr>rg_resource = new_resource, rg_schema = [],
     rg_scopes = [\<lparr>sg_scope = new_scope, sg_schema = [], sg_leaves = [l]\<rparr>]\<rparr>]"

definition deadLetterTraces :: "KinesisRecord \<Rightarrow> string \<Rightarrow> string \<Rightarrow> string \<Rightarrow> traces" where
  "deadLetterTraces rec failureClass encName codecName =
     single_item \<lparr>sp_name = deadLetterName, sp_attrs = deadLetterAttrs PutStr rec failureClass encName codecName [],
       sp_events = [], sp_links = [], sp_rest = 0\<rparr>"

definition deadLetterMetrics :: "KinesisRecord \<Rightarrow> string \<Rightarrow> string \<Rightarrow> string \<Rightarrow> metrics" where
  "deadLetterMetrics rec failureClass encName codecName =
     single_item \<lparr>m_name = deadLetterName, m_description = [], m_unit = [], m_metadata = [],
       m_data = MetricTypeGauge [\<lparr>dp_attrs = deadLetterAttrs PutStr rec failureClass encName codecName [],
         dp_exemplars = [], dp_value = IntValue 1, dp_rest = 0\<rparr>]\<rparr>"

definition deadLetterLogs :: "KinesisRecord \<Rightarrow> string \<Rightarrow> string \<Rightarrow> string \<Rightarrow> logs" where
  "deadLetterLogs rec failureClass encName codecName =
     single_item \<lparr>lr_attrs = deadLetterAttrs PutStr rec failureClass encName codecName [],
       lr_body = ValueTypeStr deadLetterName, lr_rest = 0\<rparr>"

subsection \<open>The three sinks\<close>

definition consume_with :: "(bytes \<Rightarrow> err + 'd) \<Rightarrow> ('d, 'w) consumer \<Rightarrow> bytes \<Rightarrow> 'w \<Rightarrow> (recordResult \<times> bool) \<times> 'w" where
  "consume_with unmarshal next payload w =
     (case unmarshal payload of
        Inl _ \<Rightarrow> ((recordSkip, True), w)
      | Inr td \<Rightarrow>
          (case next td w of
             (Some e, w') \<Rightarrow> (if IsPermanent e then ((recordSkip, False), w') else ((recordRetry, False), w'))
           | (None, w') \<Rightarrow> ((recordOK, False), w')))"

definition tracesSink :: "traces otlp_lib \<Rightarrow> traces_format \<Rightarrow> (traces, 'w) consumer \<Rightarrow> 'w sink" where
  "tracesSink lib dec next =
     \<lparr>sk_consume = consume_with (Traces_Unmarshal lib dec) next,
      sk_deadLetter = (\<lambda>rec failureClass encName codecName. next (deadLetterTraces rec failureClass encName codecName))\<rparr>"

definition metricsSink :: "metrics otlp_lib \<Rightarrow> metrics_format \<Rightarrow> (metrics, 'w) consumer \<Rightarrow> 'w sink" where
  "metricsSink lib dec next =
     \<lparr>sk_consume = consume_with (Metrics_Unmarshal lib dec) next,
      sk_deadLetter = (\<lambda>rec failureClass encName codecName. next (deadLetterMetrics rec failureClass encName codecName))\<rparr>"

definition logsSink :: "logs otlp_lib \<Rightarrow> logs_format \<Rightarrow> (logs, 'w) consumer \<Rightarrow> 'w sink" where
  "logsSink lib dec next =
     \<lparr>sk_consume = consume_with (Logs_Unmarshal lib dec) next,
      sk_deadLetter = (\<lambda>rec failureClass encName codecName. next (deadLetterLogs rec failureClass encName codecName))\<rparr>"

subsection \<open>What a result means\<close>

lemma consume_cases:
  assumes "consume_with unmarshal next payload w = ((res, bad), w')"
  obtains (undecodable) e where "unmarshal payload = Inl e" "res = recordSkip" "bad" "w' = w"
  | (delivered) td where "unmarshal payload = Inr td" "next td w = (None, w')" "res = recordOK" "\<not> bad"
  | (rejected) td e where "unmarshal payload = Inr td" "next td w = (Some e, w')" "\<not> bad"
      "res = (if IsPermanent e then recordSkip else recordRetry)"
  using assms by (auto simp: consume_with_def split: sum.splits prod.splits option.splits if_splits)

lemma deadLetterAttrs_Get:
  "deadLetterAttrs PutStr rec fc en co [] =
     [(''kinesis.raw'', ValueTypeStr (EncodeToString (kr_Data rec))),
      (''kinesis.sequence'', ValueTypeStr (ToString (kr_SequenceNumber rec))),
      (''kinesis.partition_key'', ValueTypeStr (ToString (kr_PartitionKey rec))),
      (''kinesis.failure_class'', ValueTypeStr fc), (''kinesis.encoding'', ValueTypeStr en),
      (''kinesis.codec'', ValueTypeStr co)]"
  by (simp add: deadLetterAttrs_def PutStr_def)

text \<open>
  C28.  A dead letter loses nothing of its record: in each signal the wrapper is one item of the
  agreed name, and its attributes give back the raw bytes (base64), the sequence number, the
  partition key, the failure class and the wire format.
\<close>

theorem dead_letter_keeps_the_record:
  "\<exists>sp lr m dp. leaves (deadLetterTraces rec fc en co) = [sp] \<and> leaves (deadLetterLogs rec fc en co) = [lr] \<and>
     leaves (deadLetterMetrics rec fc en co) = [m] \<and> data_points (m_data m) = [dp] \<and>
     sp_name sp = deadLetterName \<and> m_name m = deadLetterName \<and> lr_body lr = ValueTypeStr deadLetterName \<and>
     dp_attrs dp = sp_attrs sp \<and> lr_attrs lr = sp_attrs sp \<and>
     (\<exists>s. Get (sp_attrs sp) ''kinesis.raw'' = Some (ValueTypeStr s) \<and> DecodeString s = Some (kr_Data rec)) \<and>
     Get (sp_attrs sp) ''kinesis.sequence'' = Some (ValueTypeStr (ToString (kr_SequenceNumber rec))) \<and>
     Get (sp_attrs sp) ''kinesis.partition_key'' = Some (ValueTypeStr (ToString (kr_PartitionKey rec))) \<and>
     Get (sp_attrs sp) ''kinesis.failure_class'' = Some (ValueTypeStr fc) \<and>
     Get (sp_attrs sp) ''kinesis.encoding'' = Some (ValueTypeStr en) \<and>
     Get (sp_attrs sp) ''kinesis.codec'' = Some (ValueTypeStr co)"
  by (simp add: deadLetterTraces_def deadLetterLogs_def deadLetterMetrics_def single_item_def leaves_def
      group_leaves_def deadLetterAttrs_Get Get_def Decode_Encode)

end
