(* ===== verification/Poller.thy ===== *)
theory Poller
  imports Sink Lease
begin

section \<open>The shard poller (poller.go, poller_lease.go, poller_records.go)\<close>

text \<open>
  \<^verbatim>\<open>receiver/awskinesisreceiver/poller*.go\<close>.  Everything a poller calls is a field of
  \<open>poller_env\<close>, a function over a world \<open>'w\<close>: the Kinesis client, the lease store (once under the
  poll context and once under the exit context), the sink, the clock, the contexts.  The
  poller's token \<^verbatim>\<open>p.leased\<close> is in the world too: the heartbeat goroutine and the poll loop
  both write it under \<^verbatim>\<open>leaseMu\<close>, so a call of the environment may also let heartbeats run.
  One pass of the poll loop is \<open>poll_turn\<close>, which returns what the pass did beside the next loop
  state; \<open>runPoll\<close> iterates it and may run forever.  Log output is left out.
\<close>

definition releaseTimeout :: int64 where "releaseTimeout = 5 * Second"
definition stuckBackoffMax :: int64 where "stuckBackoffMax = 30 * Second"
definition checkpointAttempts :: nat where "checkpointAttempts = 3"
definition checkpointRetryBackoff :: int64 where "checkpointRetryBackoff = 100 * Millisecond"

datatype get_error = ExpiredIteratorException err | OtherGetError err

record GetRecordsOutput =
  go_Records :: "KinesisRecord list"
  go_NextShardIterator :: "string option"

datatype ShardIteratorType = TrimHorizon | AfterSequenceNumber string

record GetShardIteratorInput =
  gi_StreamName :: string
  gi_ShardId :: string
  gi_Type :: ShardIteratorType

text \<open>Which case of the \<^verbatim>\<open>select\<close> in \<open>waitDurationOrStop\<close> fired.\<close>

datatype select_case = CtxDone | DrainRequested | TimerFired

text \<open>What the telemetry of the poller counts (\<^verbatim>\<open>telemetry.go\<close>); durations are left out.\<close>

datatype tel_event = RecordPoll nat nat | RecordLeaseEvent string string | RecordDeadLetter string

abbreviation leaseCheckpoint :: string where "leaseCheckpoint \<equiv> ''checkpoint''"
abbreviation leaseHeartbeatGot :: string where "leaseHeartbeatGot \<equiv> ''heartbeat_lost''"
abbreviation resultSuccess :: string where "resultSuccess \<equiv> ''success''"
abbreviation resultConflict :: string where "resultConflict \<equiv> ''conflict''"
abbreviation resultError :: string where "resultError \<equiv> ''error''"

record 'w poller_env =
  pv_cfg :: ReceiverConfig
  pv_comp :: compressor
  pv_lib :: codec_lib
  pv_store :: "'w store"
  pv_exit_store :: "'w store"
  pv_sink :: "'w sink"
  pv_leased :: "'w \<Rightarrow> lease"
  pv_set_leased :: "lease \<Rightarrow> 'w \<Rightarrow> 'w"
  pv_GetShardIterator :: "GetShardIteratorInput \<Rightarrow> 'w \<Rightarrow> (err + string option) \<times> 'w"
  pv_GetRecords :: "string \<Rightarrow> 32 word \<Rightarrow> 'w \<Rightarrow> (get_error + GetRecordsOutput) \<times> 'w"
  pv_Err :: "'w \<Rightarrow> lease_error option"
  pv_drain :: "'w \<Rightarrow> bool"
  pv_Now :: "'w \<Rightarrow> int64"
  pv_select :: "int64 \<Rightarrow> 'w \<Rightarrow> select_case \<times> 'w"
  pv_sleep :: "int64 \<Rightarrow> 'w \<Rightarrow> lease_error option \<times> 'w"
  pv_stop :: "'w \<Rightarrow> 'w"
  pv_tel :: "tel_event \<Rightarrow> 'w \<Rightarrow> 'w"

subsection \<open>Records (poller_records.go)\<close>

definition maybeDeadLetter :: "'w poller_env \<Rightarrow> KinesisRecord \<Rightarrow> string \<Rightarrow> 'w \<Rightarrow> bool \<times> 'w" where
  "maybeDeadLetter env rec failureClass w =
     (if \<not> rc_DeadLetter (pv_cfg env) then (True, w)
      else (case sk_deadLetter (pv_sink env) rec failureClass (rc_Encoding (pv_cfg env)) (rc_Compression (pv_cfg env)) w of
          (Some _, w') \<Rightarrow> (False, pv_tel env (RecordDeadLetter resultError) w')
        | (None, w') \<Rightarrow> (True, pv_tel env (RecordDeadLetter resultSuccess) w')))"

definition handleRecord :: "'w poller_env \<Rightarrow> KinesisRecord \<Rightarrow> 'w \<Rightarrow> recordResult \<times> 'w" where
  "handleRecord env rec w =
     (case Decompress (pv_lib env) (pv_comp env) (kr_Data rec) of
        Inl _ \<Rightarrow>
          (case maybeDeadLetter env rec ''decompress'' w of
             (ok, w') \<Rightarrow> if \<not> ok then (recordRetry, w') else (recordSkip, w'))
      | Inr raw \<Rightarrow>
          (case sk_consume (pv_sink env) raw w of
             ((res, decodeFailed), w') \<Rightarrow>
               if decodeFailed
               then (case maybeDeadLetter env rec ''decode'' w' of
                       (ok, w'') \<Rightarrow> if \<not> ok then (recordRetry, w'') else (res, w''))
               else (res, w')))"

subsection \<open>Lease writes (poller_lease.go)\<close>

definition heartbeat :: "'w poller_env \<Rightarrow> 'w \<Rightarrow> lease_error option \<times> 'w" where
  "heartbeat env w =
     (case st_Heartbeat (pv_store env) (pv_leased env w) w of
        (Inl e, w') \<Rightarrow> (Some e, w')
      | (Inr updated, w') \<Rightarrow> (None, pv_set_leased env updated w'))"

text \<open>\<open>checkpoint\<close>, under the context that the store \<open>st\<close> is called with.\<close>

definition checkpoint :: "'w poller_env \<Rightarrow> 'w store \<Rightarrow> string \<Rightarrow> 'w \<Rightarrow> lease_error option \<times> 'w" where
  "checkpoint env st seq w =
     (case st_Checkpoint st (pv_leased env w) seq w of
        (Inl e, w') \<Rightarrow> (Some e, w')
      | (Inr updated, w') \<Rightarrow> (None, pv_set_leased env updated w'))"

function checkpoint_from ::
  "'w poller_env \<Rightarrow> string \<Rightarrow> nat \<Rightarrow> lease_error option \<Rightarrow> 'w \<Rightarrow> lease_error option \<times> 'w" where
  "checkpoint_from env seq attempt e w =
     (if attempt \<ge> checkpointAttempts then (e, w)
      else (case (if attempt > 0 then pv_sleep env checkpointRetryBackoff w else (None, w)) of
          (Some x, w1) \<Rightarrow> (Some x, w1)
        | (None, w1) \<Rightarrow>
            (case checkpoint env (pv_store env) seq w1 of (e', w2) \<Rightarrow>
               if e' = None \<or> e' = Some ErrLeaseConflict \<or> e' = Some ErrLeaseNotFound \<or> e' = Some ErrCanceled
               then (e', w2) else checkpoint_from env seq (attempt + 1) e' w2)))"
  by pat_completeness auto
termination by (relation "measure (\<lambda>(env, seq, attempt, e, w). checkpointAttempts - attempt)") auto

declare checkpoint_from.simps [simp del]

definition checkpointWithRetry :: "'w poller_env \<Rightarrow> string \<Rightarrow> 'w \<Rightarrow> lease_error option \<times> 'w" where
  "checkpointWithRetry env seq w = checkpoint_from env seq 0 None w"

definition release :: "'w poller_env \<Rightarrow> 'w \<Rightarrow> lease_error option \<times> 'w" where
  "release env w = st_Release (pv_exit_store env) (pv_leased env w) w"

definition writeShardEnd :: "'w poller_env \<Rightarrow> 'w \<Rightarrow> lease_error option \<times> 'w" where
  "writeShardEnd env w =
     (case checkpoint env (pv_store env) CheckpointShardEnd w of (e, w1) \<Rightarrow>
        if e \<noteq> None \<and> (pv_Err env w1 \<noteq> None \<or> e = Some ErrCanceled)
        then checkpoint env (pv_exit_store env) CheckpointShardEnd w1
        else (e, w1))"

text \<open>One tick of \<open>runHeartbeat\<close>: does the goroutine go on?\<close>

definition heartbeat_tick :: "'w poller_env \<Rightarrow> 'w \<Rightarrow> bool \<times> 'w" where
  "heartbeat_tick env w =
     (case heartbeat env w of
        (None, w') \<Rightarrow> (True, w')
      | (Some e, w') \<Rightarrow>
          (if e = ErrCanceled then (False, pv_stop env w')
           else if e = ErrLeaseConflict \<or> e = ErrLeaseNotFound
           then (False, pv_stop env (pv_tel env (RecordLeaseEvent leaseHeartbeatGot resultConflict) w'))
           else (True, w')))"

subsection \<open>The poll loop (poller.go)\<close>

definition stuckBackoff :: "ReceiverConfig \<Rightarrow> nat \<Rightarrow> int64" where
  "stuckBackoff c passes =
     (if passes \<le> 1 then rc_PollInterval c
      else (let shift = (if passes - 1 > 16 then 16 else passes - 1);
                d = push_bit shift (rc_PollInterval c)
            in if d \<le>s 0 \<or> stuckBackoffMax <s d then stuckBackoffMax else d))"

definition waitDurationOrStop :: "'w poller_env \<Rightarrow> int64 \<Rightarrow> 'w \<Rightarrow> bool \<times> 'w" where
  "waitDurationOrStop env d w =
     (case pv_select env d w of (CtxDone, w') \<Rightarrow> (True, w') | (DrainRequested, w') \<Rightarrow> (True, w') | (TimerFired, w') \<Rightarrow> (False, w'))"

datatype open_error = ShardAlreadyDrained | GetShardIteratorError err

definition openIterator :: "'w poller_env \<Rightarrow> 'w \<Rightarrow> (open_error + string option) \<times> 'w" where
  "openIterator env w =
     (let ckpt = Checkpoint (pv_leased env w);
          input = \<lparr>gi_StreamName = rc_StreamName (pv_cfg env), gi_ShardId = ShardID (pv_leased env w),
            gi_Type = (if ckpt = [] \<or> ckpt = CheckpointTrimHorizon then TrimHorizon else AfterSequenceNumber ckpt)\<rparr>
      in if ckpt = CheckpointShardEnd then (Inl ShardAlreadyDrained, w)
         else (case pv_GetShardIterator env input w of
             (Inl e, w') \<Rightarrow> (Inl (GetShardIteratorError e), w')
           | (Inr it, w') \<Rightarrow> (Inr it, w')))"

text \<open>The variables of \<open>runPoll\<close>'s loop; \<open>None\<close> is the zero time.\<close>

record poll_state =
  ps_iter :: "string option"
  ps_stuck :: nat
  ps_lastPoll :: "int64 option"

text \<open>
  What a pass did: the loop goes on with \<open>tn_next\<close>, or \<open>runPoll\<close> returned (\<open>None\<close>); the records it
  handled and their results; the sequence numbers it asked the store to checkpoint.
\<close>

record 'w turn =
  tn_next :: "poll_state option"
  tn_handled :: "(KinesisRecord \<times> recordResult) list"
  tn_offered :: "string list"
  tn_world :: 'w

definition returned :: "'w \<Rightarrow> 'w turn" where
  "returned w = \<lparr>tn_next = None, tn_handled = [], tn_offered = [], tn_world = w\<rparr>"

definition continue_with :: "poll_state \<Rightarrow> 'w \<Rightarrow> 'w turn" where
  "continue_with ps w = \<lparr>tn_next = Some ps, tn_handled = [], tn_offered = [], tn_world = w\<rparr>"

text \<open>The loop over \<^verbatim>\<open>out.Records\<close>: \<open>advanceSeq\<close>, \<open>retry\<close> and the records handled.\<close>

fun handle_batch ::
  "'w poller_env \<Rightarrow> KinesisRecord list \<Rightarrow> string \<Rightarrow> 'w \<Rightarrow>
     string \<times> bool \<times> (KinesisRecord \<times> recordResult) list \<times> 'w" where
  "handle_batch env [] advanceSeq w = (advanceSeq, False, [], w)"
| "handle_batch env (rec # recs) advanceSeq w =
     (case handleRecord env rec w of (res, w1) \<Rightarrow>
        if res = recordRetry then (advanceSeq, True, [(rec, res)], w1)
        else (case handle_batch env recs
                (if ToString (kr_SequenceNumber rec) \<noteq> [] then ToString (kr_SequenceNumber rec) else advanceSeq) w1 of
              (adv, retry, log, w2) \<Rightarrow> (adv, retry, (rec, res) # log, w2)))"

definition on_get_error :: "'w poller_env \<Rightarrow> poll_state \<Rightarrow> get_error \<Rightarrow> 'w \<Rightarrow> 'w turn" where
  "on_get_error env ps e w =
     (if pv_Err env w \<noteq> None then returned w
      else (case e of
          ExpiredIteratorException _ \<Rightarrow>
            (case openIterator env w of
               (Inl _, w1) \<Rightarrow> returned (pv_stop env w1)
             | (Inr it, w1) \<Rightarrow> continue_with (ps\<lparr>ps_iter := it, ps_lastPoll := None\<rparr>) w1)
        | OtherGetError _ \<Rightarrow>
            (case waitDurationOrStop env (rc_PollInterval (pv_cfg env)) w of
               (stop, w1) \<Rightarrow> if stop then returned w1 else continue_with ps w1)))"

text \<open>After the checkpoint: re-read from it, or go on with the next iterator.\<close>

definition after_batch ::
  "'w poller_env \<Rightarrow> poll_state \<Rightarrow> string \<Rightarrow> bool \<Rightarrow> string option \<Rightarrow> 'w \<Rightarrow> 'w turn" where
  "after_batch env ps advanceSeq retry next w =
     (if retry
      then (let stuck = (if advanceSeq \<noteq> [] then 0 else ps_stuck ps + 1)
            in (case openIterator env w of
                  (Inl _, w1) \<Rightarrow> returned (pv_stop env w1)
                | (Inr it, w1) \<Rightarrow>
                    (case waitDurationOrStop env (stuckBackoff (pv_cfg env) stuck) w1 of
                       (stop, w2) \<Rightarrow> if stop then returned w2
                                   else continue_with (ps\<lparr>ps_iter := it, ps_stuck := stuck\<rparr>) w2)))
      else continue_with (ps\<lparr>ps_iter := next, ps_stuck := 0\<rparr>) w)"

definition on_batch :: "'w poller_env \<Rightarrow> poll_state \<Rightarrow> GetRecordsOutput \<Rightarrow> 'w \<Rightarrow> 'w turn" where
  "on_batch env ps out w =
     (let w1 = pv_tel env (RecordPoll (length (go_Records out)) (sum_list (map (length \<circ> kr_Data) (go_Records out)))) w
      in case handle_batch env (go_Records out) [] w1 of (adv, retry, log, w2) \<Rightarrow>
        (if adv \<noteq> []
         then (case checkpointWithRetry env adv w2 of
             (Some e, w3) \<Rightarrow> (returned (pv_stop env w3))\<lparr>tn_handled := log, tn_offered := [adv]\<rparr>
           | (None, w3) \<Rightarrow>
               (after_batch env ps adv retry (go_NextShardIterator out)
                  (pv_tel env (RecordLeaseEvent leaseCheckpoint resultSuccess) w3))
               \<lparr>tn_handled := log, tn_offered := [adv]\<rparr>)
         else (after_batch env ps adv retry (go_NextShardIterator out) w2)\<lparr>tn_handled := log\<rparr>))"

definition poll_turn :: "'w poller_env \<Rightarrow> poll_state \<Rightarrow> 'w \<Rightarrow> 'w turn" where
  "poll_turn env ps w =
     (if pv_Err env w \<noteq> None then returned w
      else (case ps_iter ps of
          None \<Rightarrow> (returned (snd (writeShardEnd env w)))\<lparr>tn_offered := [CheckpointShardEnd]\<rparr>
        | Some it \<Rightarrow>
            (if pv_drain env w then returned w
             else (case (case ps_lastPoll ps of
                           None \<Rightarrow> (False, w)
                         | Some t \<Rightarrow>
                             (let wait = rc_PollInterval (pv_cfg env) - (pv_Now env w - t)
                              in if 0 <s wait then waitDurationOrStop env wait w else (False, w))) of
                 (stop, w1) \<Rightarrow>
                   (if stop then returned w1
                    else (let ps1 = ps\<lparr>ps_lastPoll := Some (pv_Now env w1)\<rparr>
                          in (case pv_GetRecords env it (rc_MaxRecords (pv_cfg env)) w1 of
                                (Inl e, w2) \<Rightarrow> on_get_error env ps1 e w2
                              | (Inr out, w2) \<Rightarrow> on_batch env ps1 out w2)))))))"

text \<open>\<open>runPoll\<close> with the log of its passes, and \<open>run\<close>, which releases the lease whichever way it ends.\<close>

partial_function (option) poll_loop ::
  "'w poller_env \<Rightarrow> poll_state \<Rightarrow> 'w \<Rightarrow> ((KinesisRecord \<times> recordResult) list \<times> string list \<times> 'w) option" where
  "poll_loop env ps w =
     (let t = poll_turn env ps w
      in (case tn_next t of
            None \<Rightarrow> Some (tn_handled t, tn_offered t, tn_world t)
          | Some ps' \<Rightarrow>
              Option.bind (poll_loop env ps' (tn_world t))
                (\<lambda>r. Some (tn_handled t @ fst r, tn_offered t @ fst (snd r), snd (snd r)))))"

definition runPoll :: "'w poller_env \<Rightarrow> 'w \<Rightarrow> ((KinesisRecord \<times> recordResult) list \<times> string list \<times> 'w) option" where
  "runPoll env w =
     (case openIterator env w of
        (Inl _, w1) \<Rightarrow> Some ([], [], pv_stop env w1)
      | (Inr it, w1) \<Rightarrow> poll_loop env \<lparr>ps_iter = it, ps_stuck = 0, ps_lastPoll = None\<rparr> w1)"

definition run :: "'w poller_env \<Rightarrow> 'w \<Rightarrow> ((KinesisRecord \<times> recordResult) list \<times> string list \<times> 'w) option" where
  "run env w = map_option (\<lambda>(log, offered, w'). (log, offered, snd (release env (pv_stop env w')))) (runPoll env w)"

subsection \<open>The shard a poller reads\<close>

text \<open>Where in the shard a checkpoint stands: the number of records it says are done.\<close>

definition after_seq :: "KinesisRecord list \<Rightarrow> string \<Rightarrow> nat" where
  "after_seq recs s = Suc (length (takeWhile (\<lambda>r. kr_SequenceNumber r \<noteq> Some s) recs))"

definition ckpt_pos :: "KinesisRecord list \<Rightarrow> string \<Rightarrow> nat" where
  "ckpt_pos recs c =
     (if c = [] \<or> c = CheckpointTrimHorizon then 0
      else if c = CheckpointShardEnd then length recs else after_seq recs c)"

text \<open>The records from \<open>a\<close> up to \<open>b\<close> were delivered, or skipped for good.\<close>

definition covered :: "KinesisRecord list \<Rightarrow> (KinesisRecord \<times> recordResult) list \<Rightarrow> nat \<Rightarrow> nat \<Rightarrow> bool" where
  "covered recs H a b \<longleftrightarrow> (\<forall>i. a \<le> i \<and> i < b \<longrightarrow> i < length recs \<and> (\<exists>r. (recs ! i, r) \<in> set H \<and> r \<noteq> recordRetry))"

lemma covered_append: "covered recs H a b \<Longrightarrow> covered recs (H @ H') a b"
  by (auto simp: covered_def)

lemma covered_empty [simp]: "b \<le> a \<Longrightarrow> covered recs H a b"
  by (auto simp: covered_def)

text \<open>Sequence numbers are present, distinct, and none is a sentinel.\<close>

definition well_sequenced :: "KinesisRecord list \<Rightarrow> bool" where
  "well_sequenced recs \<longleftrightarrow> distinct (map kr_SequenceNumber recs) \<and>
     (\<forall>r\<in>set recs. \<exists>s. kr_SequenceNumber r = Some s \<and> s \<noteq> [] \<and> s \<noteq> CheckpointTrimHorizon \<and> s \<noteq> CheckpointShardEnd)"

lemma after_seq_nth:
  assumes "well_sequenced recs" "i < length recs"
  shows "after_seq recs (ToString (kr_SequenceNumber (recs ! i))) = Suc i"
    and "ckpt_pos recs (ToString (kr_SequenceNumber (recs ! i))) = Suc i"
    and "ToString (kr_SequenceNumber (recs ! i)) \<noteq> []"
proof -
  from assms obtain s where s: "kr_SequenceNumber (recs ! i) = Some s" "s \<noteq> []"
    "s \<noteq> CheckpointTrimHorizon" "s \<noteq> CheckpointShardEnd"
    unfolding well_sequenced_def by (meson nth_mem)
  have "j < i \<Longrightarrow> kr_SequenceNumber (recs ! j) \<noteq> Some s" for j
    using assms s(1) unfolding well_sequenced_def
    by (metis (no_types, lifting) distinct_conv_nth length_map less_imp_not_eq less_trans nth_map)
  then have "takeWhile (\<lambda>r. kr_SequenceNumber r \<noteq> Some s) recs = take i recs"
    using assms(2) s(1) by (intro takeWhile_eq_take_P_nth) auto
  with assms(2) have "after_seq recs s = Suc i" by (simp add: after_seq_def)
  with s show "after_seq recs (ToString (kr_SequenceNumber (recs ! i))) = Suc i"
    "ckpt_pos recs (ToString (kr_SequenceNumber (recs ! i))) = Suc i"
    "ToString (kr_SequenceNumber (recs ! i)) \<noteq> []"
    by (simp_all add: ckpt_pos_def ToString_def)
qed

text \<open>
  The contract a poller relies on.  \<open>recs\<close> are the records of the shard in order, those still to
  be written included, and \<open>at\<close> is the position an iterator stands at.  GetShardIterator and
  GetRecords do as documented: an iterator starts where it was asked to, a call returns the
  records that follow it, and there is no next iterator only at the end of a closed shard.
  Nothing but the poller's own checkpoint moves the checkpoint of its token, whatever runs
  meanwhile, and a store hands back the checkpoint it was given.
\<close>

locale polled_shard =
  fixes env :: "'w poller_env" and recs :: "KinesisRecord list" and at :: "string \<Rightarrow> nat"
  assumes seqs: "well_sequenced recs"
    and tel_keeps: "Checkpoint (pv_leased env (pv_tel env e w)) = Checkpoint (pv_leased env w)"
    and stop_keeps: "Checkpoint (pv_leased env (pv_stop env w)) = Checkpoint (pv_leased env w)"
    and select_keeps: "pv_select env d w = (c, w') \<Longrightarrow> Checkpoint (pv_leased env w') = Checkpoint (pv_leased env w)"
    and sleep_keeps: "pv_sleep env d w = (x, w') \<Longrightarrow> Checkpoint (pv_leased env w') = Checkpoint (pv_leased env w)"
    and consume_keeps: "sk_consume (pv_sink env) raw w = (r, w') \<Longrightarrow>
      Checkpoint (pv_leased env w') = Checkpoint (pv_leased env w)"
    and dead_letter_keeps: "sk_deadLetter (pv_sink env) rec fc en co w = (rejected, w') \<Longrightarrow>
      Checkpoint (pv_leased env w') = Checkpoint (pv_leased env w)"
    and get_keeps: "pv_GetRecords env it n w = (got, w') \<Longrightarrow>
      Checkpoint (pv_leased env w') = Checkpoint (pv_leased env w)"
    and get_law: "pv_GetRecords env it n w = (Inr out, w') \<Longrightarrow>
      \<exists>k. go_Records out = take k (drop (at it) recs) \<and>
        (case go_NextShardIterator out of
           None \<Rightarrow> length recs \<le> at it + length (go_Records out)
         | Some it' \<Rightarrow> at it' = at it + length (go_Records out))"
    and iterator_keeps: "pv_GetShardIterator env input w = (opened, w') \<Longrightarrow>
      Checkpoint (pv_leased env w') = Checkpoint (pv_leased env w)"
    and iterator_law: "pv_GetShardIterator env input w = (Inr iter, w') \<Longrightarrow>
      \<exists>it. iter = Some it \<and> at it = (case gi_Type input of TrimHorizon \<Rightarrow> 0 | AfterSequenceNumber s \<Rightarrow> after_seq recs s)"
    and leased_law: "pv_leased env (pv_set_leased env l w) = l"
    and store_keeps: "st \<in> {pv_store env, pv_exit_store env} \<Longrightarrow> st_Checkpoint st l seq w = (written, w') \<Longrightarrow>
      Checkpoint (pv_leased env w') = Checkpoint (pv_leased env w)"
    and store_law: "st \<in> {pv_store env, pv_exit_store env} \<Longrightarrow> st_Checkpoint st l seq w = (Inr l', w') \<Longrightarrow>
      Checkpoint l' = seq"
begin

abbreviation ckpt :: "'w \<Rightarrow> string" where "ckpt w \<equiv> Checkpoint (pv_leased env w)"

lemmas keeps = tel_keeps stop_keeps select_keeps sleep_keeps consume_keeps dead_letter_keeps get_keeps iterator_keeps

lemma dead_letter_step: "maybeDeadLetter env rec fc w = (ok, w') \<Longrightarrow> ckpt w' = ckpt w"
  using dead_letter_keeps
  by (auto simp: maybeDeadLetter_def tel_keeps split: if_splits prod.splits option.splits)

lemma handle_step: "handleRecord env rec w = (res, w') \<Longrightarrow> ckpt w' = ckpt w"
  by (auto simp: handleRecord_def split: sum.splits prod.splits if_splits
      dest!: dead_letter_step consume_keeps)

lemma checkpoint_step:
  "checkpoint env st seq w = (e, w') \<Longrightarrow> st \<in> {pv_store env, pv_exit_store env} \<Longrightarrow>
     ckpt w' = (if e = None then seq else ckpt w)"
  using store_keeps [of st "pv_leased env w" seq w] store_law [of st "pv_leased env w" seq w]
  by (auto simp: checkpoint_def leased_law split: prod.splits sum.splits)

lemma checkpoint_from_step:
  assumes "checkpoint_from env seq k e w = (e', w')" "k < checkpointAttempts"
  shows "ckpt w' = (if e' = None then seq else ckpt w)"
  using assms
proof (induction "checkpointAttempts - k" arbitrary: k e w)
  case (Suc d)
  obtain x w1 where p: "(if k > 0 then pv_sleep env checkpointRetryBackoff w else (None, w)) = (x, w1)" by fastforce
  then have c1: "ckpt w1 = ckpt w" using sleep_keeps by (auto split: if_splits)
  show ?case
  proof (cases x)
    case (Some y)
    with Suc.prems p c1 show ?thesis by (auto simp: checkpoint_from.simps [of env seq k] split: if_splits)
  next
    case None
    obtain e2 w2 where c: "checkpoint env (pv_store env) seq w1 = (e2, w2)" by fastforce
    note c2 = checkpoint_step [OF c]
    show ?thesis
    proof (cases "e2 = None \<or> e2 = Some ErrLeaseConflict \<or> e2 = Some ErrLeaseNotFound \<or> e2 = Some ErrCanceled")
      case True
      with Suc.prems p None c have "e' = e2" "w' = w2"
        by (simp_all add: checkpoint_from.simps [of env seq k] split: if_splits)
      with c2 c1 show ?thesis by simp
    next
      case False
      with Suc.prems p None c have rec: "checkpoint_from env seq (k + 1) e2 w2 = (e', w')"
        by (simp add: checkpoint_from.simps [of env seq k] split: if_splits)
      show ?thesis
      proof (cases "k + 1 < checkpointAttempts")
        case True
        with Suc.hyps(1) [OF _ rec] Suc.hyps(2) c2 c1 False show ?thesis by auto
      next
        case False': False
        with rec have "e' = e2" "w' = w2" by (simp_all add: checkpoint_from.simps)
        with c2 c1 show ?thesis by simp
      qed
    qed
  qed
qed simp

lemma checkpoint_retry_step:
  "checkpointWithRetry env seq w = (e, w') \<Longrightarrow> ckpt w' = (if e = None then seq else ckpt w)"
  unfolding checkpointWithRetry_def by (erule checkpoint_from_step) (simp add: checkpointAttempts_def)

lemma shard_end_step:
  "writeShardEnd env w = (e, w') \<Longrightarrow> ckpt w' = (if e = None then CheckpointShardEnd else ckpt w)"
  by (auto simp: writeShardEnd_def split: prod.splits if_splits dest!: checkpoint_step)

lemma open_step:
  assumes "openIterator env w = (res, w')"
  shows "ckpt w' = ckpt w"
    and "res = Inr x \<Longrightarrow> \<exists>it. x = Some it \<and> at it = ckpt_pos recs (ckpt w) \<and> ckpt w \<noteq> CheckpointShardEnd"
proof -
  show "ckpt w' = ckpt w"
    using assms iterator_keeps by (auto simp: openIterator_def Let_def split: if_splits prod.splits sum.splits)
  show "\<exists>it. x = Some it \<and> at it = ckpt_pos recs (ckpt w) \<and> ckpt w \<noteq> CheckpointShardEnd" if "res = Inr x"
    using assms that
    by (auto simp: openIterator_def Let_def ckpt_pos_def split: if_splits prod.splits sum.splits dest!: iterator_law)
qed

lemma wait_step: "waitDurationOrStop env d w = (stop, w') \<Longrightarrow> ckpt w' = ckpt w"
  by (auto simp: waitDurationOrStop_def split: prod.splits select_case.splits dest!: select_keeps)

text \<open>A batch from position \<open>p\<close>: its first \<open>m\<close> records are done, and \<open>advanceSeq\<close> is the last of them.\<close>

lemma handle_batch_step:
  assumes "handle_batch env (take k (drop p recs)) adv w = (adv', retry, log, w')"
  shows "ckpt w' = ckpt w \<and> (\<exists>m. covered recs log p (p + m) \<and> p + m \<le> max p (length recs) \<and>
      (\<not> retry \<longrightarrow> m = length (take k (drop p recs))) \<and>
      adv' = (if m = 0 then adv else ToString (kr_SequenceNumber (recs ! (p + m - 1)))))"
  using assms
proof (induction k arbitrary: p adv w adv' retry log w')
  case 0
  then show ?case by auto
next
  case (Suc k)
  show ?case
  proof (cases "p < length recs")
    case False
    with Suc.prems show ?thesis by auto
  next
    case True
    then have d: "take (Suc k) (drop p recs) = recs ! p # take k (drop (Suc p) recs)"
      by (simp flip: Cons_nth_drop_Suc)
    obtain res w1 where h: "handleRecord env (recs ! p) w = (res, w1)" by fastforce
    note c1 = handle_step [OF h]
    show ?thesis
    proof (cases "res = recordRetry")
      case retry: True
      with Suc.prems d h have "adv' = adv" "retry" "w' = w1" by auto
      with c1 True show ?thesis by (intro conjI exI [of _ 0]) auto
    next
      case False
      let ?s = "ToString (kr_SequenceNumber (recs ! p))"
      have s: "?s \<noteq> []" by (rule after_seq_nth(3) [OF seqs True])
      obtain adv2 retry2 log2 w2 where r: "handle_batch env (take k (drop (Suc p) recs)) ?s w1 = (adv2, retry2, log2, w2)"
        by (metis prod_cases4)
      with Suc.prems d h False s have eq: "adv' = adv2" "retry = retry2" "log = (recs ! p, res) # log2" "w' = w2" by auto
      from Suc.IH [OF r] obtain m where m: "covered recs log2 (Suc p) (Suc p + m)" "Suc p + m \<le> max (Suc p) (length recs)"
        "\<not> retry2 \<longrightarrow> m = length (take k (drop (Suc p) recs))"
        "adv2 = (if m = 0 then ?s else ToString (kr_SequenceNumber (recs ! (Suc p + m - 1))))"
        and c2: "ckpt w2 = ckpt w1" by blast
      have "covered recs log p (p + Suc m)"
        unfolding covered_def
      proof (intro allI impI)
        fix i assume i: "p \<le> i \<and> i < p + Suc m"
        show "i < length recs \<and> (\<exists>r. (recs ! i, r) \<in> set log \<and> r \<noteq> recordRetry)"
        proof (cases "i = p")
          case True
          with \<open>p < length recs\<close> False eq show ?thesis by auto
        next
          case False
          with i have "Suc p \<le> i \<and> i < Suc p + m" by auto
          with m(1) have "i < length recs \<and> (\<exists>r. (recs ! i, r) \<in> set log2 \<and> r \<noteq> recordRetry)"
            unfolding covered_def by blast
          with eq show ?thesis by auto
        qed
      qed
      with m c1 c2 eq True d show ?thesis by (intro conjI exI [of _ "Suc m"]) auto
    qed
  qed
qed

end

text \<open>
  The invariant at the head of the loop, for a poller that started at position \<open>a\<close> and has
  handled \<open>H\<close> since: everything before its checkpoint and before its iterator is done, and it
  has no iterator only when the whole shard is done.
\<close>

definition loop_inv ::
  "'w poller_env \<Rightarrow> KinesisRecord list \<Rightarrow> (string \<Rightarrow> nat) \<Rightarrow> nat \<Rightarrow> (KinesisRecord \<times> recordResult) list \<Rightarrow>
     poll_state \<Rightarrow> 'w \<Rightarrow> bool" where
  "loop_inv env recs at a H ps w \<longleftrightarrow>
     covered recs H a (ckpt_pos recs (Checkpoint (pv_leased env w))) \<and>
     (case ps_iter ps of None \<Rightarrow> covered recs H a (length recs) | Some it \<Rightarrow> covered recs H a (at it))"

lemma covered_extend: "covered recs H a p \<Longrightarrow> covered recs L p q \<Longrightarrow> covered recs (H @ L) a q"
  unfolding covered_def by (metis Un_iff linorder_not_less set_append)

lemma covered_shrink: "covered recs H a q \<Longrightarrow> p \<le> q \<Longrightarrow> covered recs H a p"
  by (auto simp: covered_def)

context polled_shard begin

text \<open>What one pass guarantees about its state, its world and the checkpoints it offered.\<close>

definition turn_ok :: "nat \<Rightarrow> (KinesisRecord \<times> recordResult) list \<Rightarrow> 'w turn \<Rightarrow> bool" where
  "turn_ok a H t \<longleftrightarrow>
     covered recs (H @ tn_handled t) a (ckpt_pos recs (ckpt (tn_world t))) \<and>
     (\<forall>s\<in>set (tn_offered t). covered recs (H @ tn_handled t) a (ckpt_pos recs s)) \<and>
     (\<forall>ps'. tn_next t = Some ps' \<longrightarrow> loop_inv env recs at a (H @ tn_handled t) ps' (tn_world t))"

lemma returned_ok: "covered recs H a (ckpt_pos recs (ckpt w)) \<Longrightarrow> turn_ok a H (returned w)"
  by (simp add: turn_ok_def returned_def)

lemma continue_ok: "loop_inv env recs at a H ps w \<Longrightarrow> turn_ok a H (continue_with ps w)"
  by (simp add: turn_ok_def continue_with_def loop_inv_def)

lemma reopened_ok:
  "covered recs H a (ckpt_pos recs (ckpt w)) \<Longrightarrow> openIterator env w = (Inr it, w1) \<Longrightarrow> ckpt w2 = ckpt w1 \<Longrightarrow>
     ps_iter ps = it \<Longrightarrow> loop_inv env recs at a H ps w2"
  using open_step(1) [of w "Inr it" w1] open_step(2) [of w "Inr it" w1 it] by (auto simp: loop_inv_def)

lemma get_error_ok:
  assumes "loop_inv env recs at a H ps w"
  shows "turn_ok a H (on_get_error env ps e w)"
proof -
  have c: "covered recs H a (ckpt_pos recs (ckpt w))" using assms by (simp add: loop_inv_def)
  show ?thesis
  proof (cases e)
    case (ExpiredIteratorException m)
    obtain res w1 where o': "openIterator env w = (res, w1)" by fastforce
    have c1: "covered recs H a (ckpt_pos recs (ckpt w1))" using c open_step(1) [OF o'] by simp
    show ?thesis
    proof (cases res)
      case (Inl x)
      with c c1 o' ExpiredIteratorException show ?thesis
        by (auto simp: on_get_error_def stop_keeps intro!: returned_ok)
    next
      case (Inr it)
      with c o' ExpiredIteratorException show ?thesis
        by (auto simp: on_get_error_def intro!: returned_ok continue_ok reopened_ok)
    qed
  next
    case (OtherGetError m)
    obtain stop w1 where "waitDurationOrStop env (rc_PollInterval (pv_cfg env)) w = (stop, w1)" by fastforce
    with c assms OtherGetError wait_step [OF this] show ?thesis
      by (auto simp: on_get_error_def loop_inv_def intro!: returned_ok continue_ok)
  qed
qed

lemma after_batch_ok:
  assumes c: "covered recs H a (ckpt_pos recs (ckpt w))"
    and next': "\<not> retry \<Longrightarrow> (case next of None \<Rightarrow> covered recs H a (length recs) | Some it \<Rightarrow> covered recs H a (at it))"
  shows "turn_ok a H (after_batch env ps adv retry next w)"
proof (cases retry)
  case False
  with c next' show ?thesis by (auto simp: after_batch_def loop_inv_def intro!: continue_ok)
next
  case True
  let ?stuck = "if adv \<noteq> [] then 0 else ps_stuck ps + 1"
  obtain res w1 where o': "openIterator env w = (res, w1)" by fastforce
  have c1: "covered recs H a (ckpt_pos recs (ckpt w1))" using c open_step(1) [OF o'] by simp
  show ?thesis
  proof (cases res)
    case (Inl x)
    with True o' c1 show ?thesis by (auto simp: after_batch_def Let_def stop_keeps intro!: returned_ok)
  next
    case (Inr it)
    obtain stop w2 where wt: "waitDurationOrStop env (stuckBackoff (pv_cfg env) ?stuck) w1 = (stop, w2)" by fastforce
    note c2 = wait_step [OF wt]
    have "loop_inv env recs at a H (ps\<lparr>ps_iter := it, ps_stuck := ?stuck\<rparr>) w2"
      by (rule reopened_ok [OF c o' [unfolded Inr] c2]) simp
    with True o' Inr wt c1 c2 show ?thesis
      by (simp only: after_batch_def Let_def prod.case sum.case if_True)
        (cases stop; auto intro!: returned_ok continue_ok)
  qed
qed

lemma with_log:
  "turn_ok a (H @ log) t \<Longrightarrow> tn_handled t = [] \<Longrightarrow> \<forall>s\<in>set offered. covered recs (H @ log) a (ckpt_pos recs s) \<Longrightarrow>
     turn_ok a H (t\<lparr>tn_handled := log, tn_offered := offered\<rparr>)"
  by (simp add: turn_ok_def)

lemma no_log [simp]: "tn_handled (returned w) = []" "tn_handled (continue_with ps w) = []"
  "tn_offered (returned w) = []" "tn_offered (continue_with ps w) = []"
  by (simp_all add: returned_def continue_with_def)

lemma after_batch_no_log [simp]:
  "tn_handled (after_batch env ps adv retry next w) = []" "tn_offered (after_batch env ps adv retry next w) = []"
  by (auto simp: after_batch_def Let_def split: sum.splits prod.splits)

end

context polled_shard begin

lemma batch_ok:
  assumes inv: "loop_inv env recs at a H ps w0" and it: "ps_iter ps = Some it"
    and get: "pv_GetRecords env it n w0 = (Inr out, w)"
  shows "turn_ok a H (on_batch env ps' out w)"
proof -
  let ?w1 = "pv_tel env (RecordPoll (length (go_Records out)) (sum_list (map (length \<circ> kr_Data) (go_Records out)))) w"
  from get_law [OF get] obtain k where k: "go_Records out = take k (drop (at it) recs)"
    and nx: "case go_NextShardIterator out of None \<Rightarrow> length recs \<le> at it + length (go_Records out)
       | Some it' \<Rightarrow> at it' = at it + length (go_Records out)" by blast
  obtain adv retry log w2 where b: "handle_batch env (go_Records out) [] ?w1 = (adv, retry, log, w2)"
    by (metis prod_cases4)
  from handle_batch_step [OF b [unfolded k]] obtain m where
    c2: "ckpt w2 = ckpt w" and m: "covered recs log (at it) (at it + m)" "at it + m \<le> max (at it) (length recs)"
    and full: "\<not> retry \<longrightarrow> m = length (go_Records out)"
    and adv: "adv = (if m = 0 then [] else ToString (kr_SequenceNumber (recs ! (at it + m - 1))))"
    unfolding k by (auto simp: tel_keeps)
  have start: "covered recs H a (ckpt_pos recs (ckpt w))" "covered recs H a (at it)"
    using inv it get_keeps [OF get] by (simp_all add: loop_inv_def)
  have upto: "covered recs (H @ log) a (at it + m)" using covered_extend [OF start(2) m(1)] .
  have old: "covered recs (H @ log) a (ckpt_pos recs (ckpt w2))"
    using start(1) c2 by (simp add: covered_append)
  have go: "case go_NextShardIterator out of None \<Rightarrow> covered recs (H @ log) a (length recs)
      | Some it' \<Rightarrow> covered recs (H @ log) a (at it')" if "\<not> retry"
    using nx full that upto by (auto split: option.splits intro: covered_shrink)
  have pos: "covered recs (H @ log) a (ckpt_pos recs adv)" if "adv \<noteq> []"
  proof -
    have m0: "m \<noteq> 0" using that unfolding adv by (cases "m = 0") simp_all
    with m(2) have "at it + m - 1 < length recs" by auto
    from after_seq_nth(2) [OF seqs this] adv m0 upto show ?thesis by simp
  qed
  show ?thesis
  proof (cases "adv = []")
    case True
    have "turn_ok a (H @ log) (after_batch env ps' adv retry (go_NextShardIterator out) w2)"
      by (rule after_batch_ok [OF old go])
    then show ?thesis using b True by (simp add: on_batch_def turn_ok_def)
  next
    case False
    obtain e w3 where ck: "checkpointWithRetry env adv w2 = (e, w3)" by fastforce
    have c3: "covered recs (H @ log) a (ckpt_pos recs (ckpt w3))"
      using checkpoint_retry_step [OF ck] old pos [OF False] by simp
    have "turn_ok a (H @ log)
       (case e of Some x \<Rightarrow> returned (pv_stop env w3)
        | None \<Rightarrow> after_batch env ps' adv retry (go_NextShardIterator out)
                   (pv_tel env (RecordLeaseEvent leaseCheckpoint resultSuccess) w3))"
      using c3 go by (auto simp: tel_keeps stop_keeps intro!: returned_ok after_batch_ok split: option.splits)
    then show ?thesis
      using b False ck pos [OF False] by (auto simp: on_batch_def intro!: with_log split: option.splits)
  qed
qed

lemma turn_step:
  assumes inv: "loop_inv env recs at a H ps w"
  shows "turn_ok a H (poll_turn env ps w)"
proof -
  have c: "covered recs H a (ckpt_pos recs (ckpt w))" using inv by (simp add: loop_inv_def)
  consider (stopped) "pv_Err env w \<noteq> None" | (ended) "pv_Err env w = None" "ps_iter ps = None"
    | (drained) it where "pv_Err env w = None" "ps_iter ps = Some it" "pv_drain env w"
    | (poll) it where "pv_Err env w = None" "ps_iter ps = Some it" "\<not> pv_drain env w" by blast
  then show ?thesis
  proof cases
    case stopped
    with c show ?thesis by (auto simp: poll_turn_def intro: returned_ok)
  next
    case ended
    obtain e w1 where s: "writeShardEnd env w = (e, w1)" by fastforce
    have all: "covered recs H a (ckpt_pos recs CheckpointShardEnd)"
      using inv ended(2) by (simp add: loop_inv_def ckpt_pos_def CheckpointShardEnd_def CheckpointTrimHorizon_def)
    with shard_end_step [OF s] c have "covered recs H a (ckpt_pos recs (ckpt w1))" by (auto split: if_splits)
    from returned_ok [OF this] ended s all show ?thesis
      by (simp add: poll_turn_def turn_ok_def returned_def)
  next
    case drained
    with c show ?thesis by (auto simp: poll_turn_def intro: returned_ok)
  next
    case poll
    obtain stop w1 where p: "(case ps_lastPoll ps of None \<Rightarrow> (False, w)
        | Some t \<Rightarrow> (let wait = rc_PollInterval (pv_cfg env) - (pv_Now env w - t)
                    in if 0 <s wait then waitDurationOrStop env wait w else (False, w))) = (stop, w1)"
      by fastforce
    have c1: "ckpt w1 = ckpt w"
      using p by (auto simp: Let_def split: option.splits if_splits dest: wait_step)
    have inv1: "loop_inv env recs at a H (ps\<lparr>ps_lastPoll := Some (pv_Now env w1)\<rparr>) w1"
      using inv c1 by (simp add: loop_inv_def)
    obtain res w2 where g: "pv_GetRecords env it (rc_MaxRecords (pv_cfg env)) w1 = (res, w2)" by fastforce
    show ?thesis
    proof (cases stop)
      case True
      with poll p c c1 show ?thesis by (simp add: poll_turn_def returned_ok)
    next
      case go: False
      show ?thesis
      proof (cases res)
        case (Inl e)
        have "loop_inv env recs at a H (ps\<lparr>ps_lastPoll := Some (pv_Now env w1)\<rparr>) w2"
          using inv1 get_keeps [OF g] by (simp add: loop_inv_def)
        from get_error_ok [OF this] Inl go poll p g show ?thesis by (simp add: poll_turn_def Let_def)
      next
        case (Inr out)
        have "turn_ok a H (on_batch env (ps\<lparr>ps_lastPoll := Some (pv_Now env w1)\<rparr>) out w2)"
          by (rule batch_ok [OF inv1]) (use poll g Inr in auto)
        with Inr go poll p g show ?thesis by (simp add: poll_turn_def Let_def)
      qed
    qed
  qed
qed

end

subsection \<open>What becomes of a record\<close>

definition decode_record :: "'w poller_env \<Rightarrow> (bytes \<Rightarrow> err + 'd) \<Rightarrow> KinesisRecord \<Rightarrow> string + 'd" where
  "decode_record env unmarshal rec =
     (case Decompress (pv_lib env) (pv_comp env) (kr_Data rec) of
        Inl _ \<Rightarrow> Inl ''decompress''
      | Inr raw \<Rightarrow> (case unmarshal raw of Inl _ \<Rightarrow> Inl ''decode'' | Inr d \<Rightarrow> Inr d))"

text \<open>
  C18.  What \<open>handleRecord\<close> makes of a record, on every branch.  A record that decodes goes to the next
  consumer once: accepted it is OK, rejected for good it is skipped, rejected for now it is
  retried.  A record that does not decode never reaches the consumer as data: it is skipped at
  once without dead-lettering, and otherwise only when the consumer took its dead letter, which
  names the stage that failed.
\<close>

theorem record_disposition:
  assumes "pv_sink env = tracesSink lib dec next" "handleRecord env rec w = (res, w')"
  shows "case decode_record env (Traces_Unmarshal lib dec) rec of
      Inr td \<Rightarrow> (case next td w of
          (None, w1) \<Rightarrow> res = recordOK \<and> w' = w1
        | (Some e, w1) \<Rightarrow> res = (if IsPermanent e then recordSkip else recordRetry) \<and> w' = w1)
    | Inl stage \<Rightarrow>
        (if rc_DeadLetter (pv_cfg env)
         then (case next (deadLetterTraces rec stage (rc_Encoding (pv_cfg env)) (rc_Compression (pv_cfg env))) w of
             (None, w1) \<Rightarrow> res = recordSkip \<and> w' = pv_tel env (RecordDeadLetter resultSuccess) w1
           | (Some e, w1) \<Rightarrow> res = recordRetry \<and> w' = pv_tel env (RecordDeadLetter resultError) w1)
         else res = recordSkip \<and> w' = w)"
  using assms
  by (auto simp: handleRecord_def maybeDeadLetter_def decode_record_def tracesSink_def consume_with_def
      split: sum.splits prod.splits option.splits if_splits)

subsection \<open>Backing off\<close>

lemma sint_poll_shift:
  fixes d :: int64
  assumes "0 < sint d" "sint d \<le> 30000000000" "k \<le> 16"
  shows "sint (push_bit k d) = sint d * 2 ^ k"
proof -
  have "sint (push_bit k d) = signed_take_bit 63 (sint d * 2 ^ k)"
    by (simp only: signed_push_bit_eq) (simp add: push_bit_eq_mult)
  have p: "(2::int) ^ k \<le> 2 ^ 16" using assms(3) by (intro power_increasing) auto
  then have "sint d * 2 ^ k \<le> 30000000000 * 2 ^ 16" using assms by (intro mult_mono) auto
  moreover have "0 \<le> sint d * 2 ^ k" using assms(1) by simp
  ultimately have "signed_take_bit 63 (sint d * 2 ^ k) = sint d * 2 ^ k"
    by (intro signed_take_bit_int_eq_self) auto
  with \<open>sint (push_bit k d) = _\<close> show ?thesis by simp
qed

lemma sint_stuckBackoffMax: "sint stuckBackoffMax = 30000000000"
  by code_simp

text \<open>
  C38.  For a poll interval of up to 30 seconds the delay of a stuck shard doubles with every pass
  without progress, starting from the poll interval, and stops growing at 30 seconds.
\<close>

theorem stuck_backoff_doubles:
  assumes "0 < sint (rc_PollInterval c)" "sint (rc_PollInterval c) \<le> 30000000000"
  shows "sint (stuckBackoff c passes) = min (sint (rc_PollInterval c) * 2 ^ min (passes - 1) 16) 30000000000"
proof (cases "passes \<le> 1")
  case True
  with assms show ?thesis by (simp add: stuckBackoff_def)
next
  case False
  define k where "k = min (passes - 1) 16"
  have k: "k \<le> 16" "(if 16 < passes - 1 then 16 else passes - 1) = k" by (auto simp: k_def)
  define d where "d = push_bit k (rc_PollInterval c)"
  have d: "sint d = sint (rc_PollInterval c) * 2 ^ k" unfolding d_def by (rule sint_poll_shift [OF assms k(1)])
  moreover have "0 < sint (rc_PollInterval c) * 2 ^ k" using assms by simp
  moreover have "stuckBackoff c passes = (if d \<le>s 0 \<or> stuckBackoffMax <s d then stuckBackoffMax else d)"
    unfolding stuckBackoff_def k(2) using False by (simp add: d_def Let_def)
  ultimately show ?thesis
    unfolding k_def [symmetric] by (auto simp: word_sle_eq word_sless_alt sint_stuckBackoffMax)
qed

theorem stuck_backoff_doubles_witness:
  "sint (stuckBackoff receiver_defaults 4) = 2000000000 \<and> sint (stuckBackoff receiver_defaults 40) = 30000000000"
proof -
  have i: "sint (rc_PollInterval receiver_defaults) = 250000000" by code_simp
  show ?thesis
    using stuck_backoff_doubles [of receiver_defaults 4] stuck_backoff_doubles [of receiver_defaults 40] i by simp
qed


end
