(* ===== verification/Delivery.thy ===== *)
theory Delivery
  imports Poller
begin

section \<open>At-least-once delivery\<close>

text \<open>
  What the pollers of \<^verbatim>\<open>receiver/awskinesisreceiver/poller.go\<close> achieve together.  \<open>fleet\<close> is a shard
  polled by any number of workers over time: each acquires the lease and starts from the
  checkpoint it finds, their passes interleave, any of them may stall or crash, and a checkpoint
  a worker offered may or may not have reached the row (a lost reply, a fenced write).  Whatever
  happens, the row's checkpoint never gets ahead of what some worker has delivered.
  \<open>shard_env\<close> is a poller on the in-memory store, a sink and a Kinesis shard that answers as
  documented; on it the poll loop reads a closed shard to its end.
\<close>

subsection \<open>A shard and its workers\<close>

record 'w session =
  se_state :: "poll_state option"
  se_world :: 'w

inductive fleet ::
  "'w poller_env \<Rightarrow> string \<Rightarrow> (KinesisRecord \<times> recordResult) list \<Rightarrow> (nat \<Rightarrow> 'w session option) \<Rightarrow> bool"
  for env :: "'w poller_env" where
  fleet_ensured: "fleet env CheckpointTrimHorizon [] (\<lambda>_. None)"
| fleet_acquired: "fleet env row H S \<Longrightarrow> S i = None \<Longrightarrow> Checkpoint (pv_leased env w) = row \<Longrightarrow>
    openIterator env w = (Inr it, w') \<Longrightarrow>
    fleet env row H (S(i \<mapsto> \<lparr>se_state = Some \<lparr>ps_iter = it, ps_stuck = 0, ps_lastPoll = None\<rparr>, se_world = w'\<rparr>))"
| fleet_turn: "fleet env row H S \<Longrightarrow> S i = Some s \<Longrightarrow> se_state s = Some ps \<Longrightarrow>
    poll_turn env ps (se_world s) = t \<Longrightarrow> row' = row \<or> row' \<in> set (tn_offered t) \<Longrightarrow>
    fleet env row' (H @ tn_handled t) (S(i \<mapsto> \<lparr>se_state = tn_next t, se_world = tn_world t\<rparr>))"
| fleet_meanwhile: "fleet env row H S \<Longrightarrow> S i = Some s \<Longrightarrow>
    Checkpoint (pv_leased env w') = Checkpoint (pv_leased env (se_world s)) \<Longrightarrow>
    fleet env row H (S(i \<mapsto> s\<lparr>se_world := w'\<rparr>))"
| fleet_gone: "fleet env row H S \<Longrightarrow> fleet env row H (S(i := None))"

definition fleet_inv ::
  "'w poller_env \<Rightarrow> KinesisRecord list \<Rightarrow> (string \<Rightarrow> nat) \<Rightarrow> string \<Rightarrow> (KinesisRecord \<times> recordResult) list \<Rightarrow>
     (nat \<Rightarrow> 'w session option) \<Rightarrow> bool" where
  "fleet_inv env recs at row H S \<longleftrightarrow> covered recs H 0 (ckpt_pos recs row) \<and>
     (\<forall>i s ps. S i = Some s \<longrightarrow> se_state s = Some ps \<longrightarrow> loop_inv env recs at 0 H ps (se_world s))"

lemma loop_inv_append: "loop_inv env recs at a H ps w \<Longrightarrow> loop_inv env recs at a (H @ H') ps w"
  by (auto simp: loop_inv_def covered_append split: option.splits)

context polled_shard begin

lemma fleet_safe: "fleet env row H S \<Longrightarrow> fleet_inv env recs at row H S"
proof (induction rule: fleet.induct)
  case fleet_ensured
  show ?case by (simp add: fleet_inv_def ckpt_pos_def)
next
  case (fleet_acquired row H S i w it w')
  then have c: "covered recs H 0 (ckpt_pos recs (ckpt w))" by (simp add: fleet_inv_def)
  have "loop_inv env recs at 0 H \<lparr>ps_iter = it, ps_stuck = 0, ps_lastPoll = None\<rparr> w'"
    by (rule reopened_ok [OF c fleet_acquired.hyps(4)]) simp_all
  with fleet_acquired show ?case by (auto simp: fleet_inv_def)
next
  case (fleet_turn row H S i s ps t row')
  then have inv: "loop_inv env recs at 0 H ps (se_world s)" by (simp add: fleet_inv_def)
  have ok: "turn_ok 0 H t" using turn_step [OF inv] fleet_turn.hyps(4) by simp
  have "covered recs (H @ tn_handled t) 0 (ckpt_pos recs row')"
    using ok fleet_turn.hyps(5) fleet_turn.IH by (auto simp: turn_ok_def fleet_inv_def intro: covered_append)
  with ok fleet_turn.IH show ?case by (auto simp: fleet_inv_def turn_ok_def loop_inv_append)
next
  case (fleet_meanwhile row H S i s w')
  then show ?case by (auto simp: fleet_inv_def loop_inv_def split: option.splits)
next
  case (fleet_gone row H S i)
  then show ?case by (auto simp: fleet_inv_def)
qed

end

subsection \<open>A shard that answers as documented\<close>

record 'c shard_world =
  sw_table :: lease_table
  sw_leased :: lease
  sw_user :: 'c
  sw_stopped :: bool
  sw_tel :: "tel_event list"

text \<open>The in-memory store acts on the table of the world.\<close>

definition on_table :: "(lease_table \<Rightarrow> 'r \<times> lease_table) \<Rightarrow> 'c shard_world \<Rightarrow> 'r \<times> 'c shard_world" where
  "on_table f w = (case f (sw_table w) of (r, t) \<Rightarrow> (r, w\<lparr>sw_table := t\<rparr>))"

definition shard_store :: "(lease_table \<Rightarrow> string list) \<Rightarrow> 'c shard_world store" where
  "shard_store ord =
     \<lparr>st_List = (\<lambda>w. map_option (\<lambda>(r, t). (r, w\<lparr>sw_table := t\<rparr>)) (MemoryStore_List ord (sw_table w))),
      st_Ensure = (\<lambda>k ps. on_table (MemoryStore_Ensure k ps)),
      st_Acquire = (\<lambda>k v c. on_table (MemoryStore_Acquire k v c)),
      st_Heartbeat = (\<lambda>l. on_table (MemoryStore_Heartbeat l)),
      st_Checkpoint = (\<lambda>l seq. on_table (MemoryStore_Checkpoint l seq)),
      st_Release = (\<lambda>l. on_table (MemoryStore_Release l)),
      st_Delete = (\<lambda>k c. on_table (MemoryStore_Delete k c))\<rparr>"

text \<open>The sink of a consumer over its own state \<open>'c\<close>.\<close>

definition on_user :: "(traces, 'c) consumer \<Rightarrow> (traces, 'c shard_world) consumer" where
  "on_user next td w = (case next td (sw_user w) of (e, u) \<Rightarrow> (e, w\<lparr>sw_user := u\<rparr>))"

text \<open>Payloads as the records of a shard, numbered from one.\<close>

definition sequenced :: "bytes list \<Rightarrow> KinesisRecord list" where
  "sequenced payloads =
     map (\<lambda>(i, p). \<lparr>kr_Data = p, kr_SequenceNumber = Some (CHR ''4'' # replicate i CHR ''9''), kr_PartitionKey = Some ''k''\<rparr>)
       (List.enumerate 0 payloads)"

definition shard_env ::
  "ReceiverConfig \<Rightarrow> compressor \<Rightarrow> codec_lib \<Rightarrow> traces otlp_lib \<Rightarrow> traces_format \<Rightarrow> (traces, 'c) consumer \<Rightarrow>
     bytes list \<Rightarrow> 'c shard_world poller_env" where
  "shard_env cfg cmp lib otlp dec next payloads =
     \<lparr>pv_cfg = cfg, pv_comp = cmp, pv_lib = lib,
      pv_store = shard_store (\<lambda>t. []), pv_exit_store = shard_store (\<lambda>t. []),
      pv_sink = tracesSink otlp dec (on_user next),
      pv_leased = sw_leased, pv_set_leased = (\<lambda>l w. w\<lparr>sw_leased := l\<rparr>),
      pv_GetShardIterator = (\<lambda>input w. (Inr (Some (replicate (case gi_Type input of TrimHorizon \<Rightarrow> 0
          | AfterSequenceNumber s \<Rightarrow> after_seq (sequenced payloads) s) CHR ''i'')), w)),
      pv_GetRecords = (\<lambda>it n w.
        (let got = take (nat (sint n)) (drop (length it) (sequenced payloads)); p = length it + length got
         in (Inr \<lparr>go_Records = got, go_NextShardIterator = (if length payloads \<le> p then None else Some (replicate p CHR ''i''))\<rparr>, w))),
      pv_Err = (\<lambda>w. if sw_stopped w then Some ErrCanceled else None),
      pv_drain = (\<lambda>w. False), pv_Now = (\<lambda>w. 0), pv_select = (\<lambda>d w. (TimerFired, w)),
      pv_sleep = (\<lambda>d w. (None, w)), pv_stop = (\<lambda>w. w\<lparr>sw_stopped := True\<rparr>),
      pv_tel = (\<lambda>e w. w\<lparr>sw_tel := sw_tel w @ [e]\<rparr>)\<rparr>"

lemma length_sequenced [simp]: "length (sequenced ps) = length ps"
  by (simp add: sequenced_def)

lemma sequenced_nth:
  "i < length ps \<Longrightarrow> sequenced ps ! i =
     \<lparr>kr_Data = ps ! i, kr_SequenceNumber = Some (CHR ''4'' # replicate i CHR ''9''), kr_PartitionKey = Some ''k''\<rparr>"
  by (simp add: sequenced_def nth_enumerate_eq)

lemma well_sequenced_sequenced: "well_sequenced (sequenced ps)"
proof -
  have "distinct (map kr_SequenceNumber (sequenced ps))"
    by (auto simp: distinct_conv_nth sequenced_nth dest!: arg_cong [of _ _ length])
  moreover have "\<exists>s. kr_SequenceNumber r = Some s \<and> s \<noteq> [] \<and> s \<noteq> CheckpointTrimHorizon \<and> s \<noteq> CheckpointShardEnd"
    if "r \<in> set (sequenced ps)" for r
    using that by (auto simp: in_set_conv_nth sequenced_nth CheckpointTrimHorizon_def CheckpointShardEnd_def)
  ultimately show ?thesis by (simp add: well_sequenced_def)
qed

lemmas shard_simps = shard_env_def shard_store_def on_table_def on_user_def tracesSink_def consume_with_def

interpretation shard: polled_shard "shard_env cfg cmp lib otlp dec next payloads" "sequenced payloads" length
  for cfg cmp lib otlp dec and payloads and "next" :: "(traces, 'c) consumer"
proof
  show "well_sequenced (sequenced payloads)" by (rule well_sequenced_sequenced)
next
  fix it n w out w'
  assume "pv_GetRecords (shard_env cfg cmp lib otlp dec next payloads) it n w = (Inr out, w')"
  then show "\<exists>k. go_Records out = take k (drop (length it) (sequenced payloads)) \<and>
      (case go_NextShardIterator out of
         None \<Rightarrow> length (sequenced payloads) \<le> length it + length (go_Records out)
       | Some it' \<Rightarrow> length it' = length it + length (go_Records out))"
    by (intro exI [of _ "nat (sint n)"]) (auto simp: shard_env_def Let_def)
next
  fix st l seq and w :: "'c shard_world" and l' w'
  assume "st \<in> {pv_store (shard_env cfg cmp lib otlp dec next payloads), pv_exit_store (shard_env cfg cmp lib otlp dec next payloads)}"
    and "st_Checkpoint st l seq w = (Inr l', w')"
  then show "Checkpoint l' = seq"
    by (auto simp: shard_simps lease_simps split: prod.splits option.splits if_splits)
qed (auto simp: shard_simps Let_def split: prod.splits sum.splits option.splits if_splits)

subsection \<open>At least once\<close>

text \<open>
  C1.  At-least-once delivery across workers: in every state the workers of a shard can reach, every
  record before the row's checkpoint has been handled by one of them with a result other than
  retry (delivered, rejected for good, or dead-lettered), whatever crashed, stalled or was taken
  over; and once the row says SHARD_END, so has every record of the shard.
\<close>

theorem checkpoint_never_ahead_of_delivery:
  assumes "polled_shard env recs at" "fleet env row H S"
  shows "(\<forall>i<ckpt_pos recs row. i < length recs \<and> (\<exists>r. (recs ! i, r) \<in> set H \<and> r \<noteq> recordRetry)) \<and>
    (row = CheckpointShardEnd \<longrightarrow> (\<forall>rec\<in>set recs. \<exists>r. (rec, r) \<in> set H \<and> r \<noteq> recordRetry))"
proof -
  have inv: "covered recs H 0 (ckpt_pos recs row)"
    using polled_shard.fleet_safe [OF assms] by (simp add: fleet_inv_def)
  have e: "ckpt_pos recs CheckpointShardEnd = length recs"
    by (simp add: ckpt_pos_def CheckpointShardEnd_def CheckpointTrimHorizon_def)
  show ?thesis using inv by (auto simp: covered_def e in_set_conv_nth)
qed

definition echo_otlp :: "traces otlp_lib" where
  "echo_otlp = \<lparr>MarshalProto = (\<lambda>td. Inl ''no''),
     UnmarshalProto = (\<lambda>b. if b = ''bad'' then Inl ''bad'' else Inr (sample_traces ''h'' [b])),
     MarshalJSON = (\<lambda>td. Inl ''no''), UnmarshalJSON = (\<lambda>b. Inl ''no'')\<rparr>"

text \<open>A consumer that keeps what it takes and rejects a batch of one span named \<open>''wait''\<close> for now.\<close>

definition picky_consumer :: "(traces, string list) consumer" where
  "picky_consumer td taken =
     (if map sp_name (leaves td) = [''wait''] then (Some (TransientError ''busy''), taken)
      else (None, taken @ map sp_name (leaves td)))"

abbreviation sample_shard :: "bytes list \<Rightarrow> string list shard_world poller_env" where
  "sample_shard \<equiv> shard_env sample_receiver noneCodec sample_lib echo_otlp otlpProtoTraces picky_consumer"

definition sample_token :: lease where
  "sample_token = \<lparr>ShardID = ''s'', Owner = ''w'', Counter = 1, Checkpoint = CheckpointTrimHorizon, ParentIDs = []\<rparr>"

definition sample_world :: "string list shard_world" where
  "sample_world = \<lparr>sw_table = [''s'' \<mapsto> sample_token], sw_leased = sample_token, sw_user = [], sw_stopped = False, sw_tel = []\<rparr>"

text \<open>Three records, the last of which is rejected: the checkpoint stops before it.\<close>

theorem checkpoint_never_ahead_of_delivery_witness:
  "\<exists>H S. fleet (sample_shard [''a'', ''bad'', ''wait'']) ''49'' H S \<and>
     (\<forall>i<2. \<exists>r. (sequenced [''a'', ''bad'', ''wait''] ! i, r) \<in> set H \<and> r \<noteq> recordRetry)"
proof -
  let ?env = "sample_shard [''a'', ''bad'', ''wait'']" and ?recs = "sequenced [''a'', ''bad'', ''wait'']"
  let ?ps = "\<lparr>ps_iter = Some [], ps_stuck = 0, ps_lastPoll = None\<rparr>"
  have o': "openIterator ?env sample_world = (Inr (Some []), sample_world)"
    by (simp add: openIterator_def Let_def shard_env_def sample_world_def sample_token_def CheckpointTrimHorizon_def
        CheckpointShardEnd_def)
  have row: "Checkpoint (pv_leased ?env sample_world) = CheckpointTrimHorizon"
    by (simp add: shard_env_def sample_world_def sample_token_def)
  have "\<exists>S. fleet ?env CheckpointTrimHorizon [] S \<and> S 0 = Some \<lparr>se_state = Some ?ps, se_world = sample_world\<rparr>"
    using fleet_acquired [OF fleet_ensured [of ?env] refl row o', of 0] by fastforce
  then obtain S where S: "fleet ?env CheckpointTrimHorizon [] S" "S 0 = Some \<lparr>se_state = Some ?ps, se_world = sample_world\<rparr>"
    by blast
  have "tn_offered (poll_turn ?env ?ps sample_world) = [''49'']" by code_simp
  then have "\<exists>S'. fleet ?env ''49'' ([] @ tn_handled (poll_turn ?env ?ps sample_world)) S'"
    using fleet_turn [OF S, of ?ps "poll_turn ?env ?ps sample_world" "''49''"] by (simp, blast)
  then obtain H S' where f: "fleet ?env ''49'' H S'" by blast
  have two: "ckpt_pos ?recs ''49'' = 2" by code_simp
  have "\<forall>i<2. \<exists>r. (?recs ! i, r) \<in> set H \<and> r \<noteq> recordRetry"
    using checkpoint_never_ahead_of_delivery [OF shard.polled_shard_axioms f] unfolding two by blast
  with f show ?thesis by blast
qed

text \<open>The last of three records is rejected for now: it is to be read again.\<close>

theorem record_disposition_witness:
  "\<exists>w'. handleRecord (sample_shard []) \<lparr>kr_Data = ''wait'', kr_SequenceNumber = None, kr_PartitionKey = None\<rparr>
     sample_world = (recordRetry, w')"
proof -
  let ?rec = "\<lparr>kr_Data = ''wait'', kr_SequenceNumber = None, kr_PartitionKey = None\<rparr>"
  obtain res w' where h: "handleRecord (sample_shard []) ?rec sample_world = (res, w')" by fastforce
  have s: "pv_sink (sample_shard []) = tracesSink echo_otlp otlpProtoTraces (on_user picky_consumer)"
    by (simp add: shard_env_def)
  have d: "decode_record (sample_shard []) (Traces_Unmarshal echo_otlp otlpProtoTraces) ?rec = Inr (sample_traces ''h'' [''wait''])"
    by code_simp
  have "fst (on_user picky_consumer (sample_traces ''h'' [''wait'']) sample_world) = Some (TransientError ''busy'')"
    by code_simp
  then have "res = recordRetry"
    using record_disposition [OF s h] by (auto simp: d split: prod.splits)
  with h show ?thesis by blast
qed

subsection \<open>Reading a shard to its end\<close>

definition held :: "'c shard_world \<Rightarrow> bool" where
  "held w \<longleftrightarrow> \<not> sw_stopped w \<and> sw_table w (ShardID (sw_leased w)) = Some (sw_leased w)"

text \<open>What a consumer that rejects nothing has taken after a record: its batch, or its dead letter.\<close>

definition hand_over ::
  "ReceiverConfig \<Rightarrow> compressor \<Rightarrow> codec_lib \<Rightarrow> traces otlp_lib \<Rightarrow> traces_format \<Rightarrow> (traces, 'c) consumer \<Rightarrow>
     KinesisRecord \<Rightarrow> 'c \<Rightarrow> 'c" where
  "hand_over cfg cmp lib otlp dec next rec c =
     (let letter = (\<lambda>stage.
            if rc_DeadLetter cfg
            then snd (next (deadLetterTraces rec stage (rc_Encoding cfg) (rc_Compression cfg)) c) else c)
      in case Decompress lib cmp (kr_Data rec) of
           Inl _ \<Rightarrow> letter ''decompress''
         | Inr raw \<Rightarrow>
             (case Traces_Unmarshal otlp dec raw of Inl _ \<Rightarrow> letter ''decode'' | Inr td \<Rightarrow> snd (next td c)))"

lemma held_handle:
  assumes "\<forall>td c. fst (next td c) = None" "handleRecord (shard_env cfg cmp lib otlp dec next ps) rec w = (res, w')"
  shows "res \<noteq> recordRetry \<and> sw_table w' = sw_table w \<and> sw_leased w' = sw_leased w \<and> sw_stopped w' = sw_stopped w \<and>
    sw_user w' = hand_over cfg cmp lib otlp dec next rec (sw_user w)"
proof -
  have "next td c = (e, c') \<Longrightarrow> e = None" for td c e c' using assms(1) by (metis fst_conv)
  with assms(2) show ?thesis
    by (auto simp: handleRecord_def maybeDeadLetter_def hand_over_def Let_def shard_simps
        split: sum.splits prod.splits option.splits if_splits)
qed

lemma held_batch:
  assumes "\<forall>td c. fst (next td c) = None"
  shows "\<exists>adv' log w'. handle_batch (shard_env cfg cmp lib otlp dec next ps) rs adv w = (adv', False, log, w') \<and>
    map fst log = rs \<and> (\<forall>x\<in>set log. snd x \<noteq> recordRetry) \<and>
    sw_table w' = sw_table w \<and> sw_leased w' = sw_leased w \<and> sw_stopped w' = sw_stopped w \<and>
    sw_user w' = fold (hand_over cfg cmp lib otlp dec next) rs (sw_user w)"
proof (induction rs arbitrary: adv w)
  case (Cons rec rs)
  obtain res w1 where h: "handleRecord (shard_env cfg cmp lib otlp dec next ps) rec w = (res, w1)" by fastforce
  note k = held_handle [OF assms h]
  let ?adv = "if ToString (kr_SequenceNumber rec) \<noteq> [] then ToString (kr_SequenceNumber rec) else adv"
  from Cons.IH [of ?adv w1] obtain adv' log w' where
    "handle_batch (shard_env cfg cmp lib otlp dec next ps) rs ?adv w1 = (adv', False, log, w')"
    "map fst log = rs" "\<forall>x\<in>set log. snd x \<noteq> recordRetry"
    "sw_table w' = sw_table w1" "sw_leased w' = sw_leased w1" "sw_stopped w' = sw_stopped w1"
    "sw_user w' = fold (hand_over cfg cmp lib otlp dec next) rs (sw_user w1)" by blast
  with h k show ?case by auto
qed simp

lemma held_checkpoint:
  assumes "held w"
  shows "\<exists>w'. checkpoint (shard_env cfg cmp lib otlp dec next ps) (shard_store ord) seq w = (None, w') \<and> held w' \<and>
    Checkpoint (sw_leased w') = seq \<and> ShardID (sw_leased w') = ShardID (sw_leased w) \<and> sw_user w' = sw_user w"
  using assms by (auto simp: checkpoint_def shard_simps lease_simps held_def)

lemma held_checkpoint_retry:
  assumes "held w"
  shows "\<exists>w'. checkpointWithRetry (shard_env cfg cmp lib otlp dec next ps) seq w = (None, w') \<and> held w' \<and>
    Checkpoint (sw_leased w') = seq \<and> ShardID (sw_leased w') = ShardID (sw_leased w) \<and> sw_user w' = sw_user w"
  using held_checkpoint [OF assms, of cfg cmp lib otlp dec "next" ps "\<lambda>t. []" seq]
  by (auto simp: checkpointWithRetry_def checkpoint_from.simps checkpointAttempts_def shard_env_def)

lemma end_turn:
  assumes "held w" "ps_iter st = None"
  shows "\<exists>w'. poll_loop (shard_env cfg cmp lib otlp dec next ps) st w = Some ([], [CheckpointShardEnd], w') \<and>
    map_option Checkpoint (sw_table w' (ShardID (sw_leased w))) = Some CheckpointShardEnd \<and> sw_user w' = sw_user w"
proof -
  let ?env = "shard_env cfg cmp lib otlp dec next ps"
  from held_checkpoint [OF assms(1), of cfg cmp lib otlp dec "next" ps "\<lambda>t. []" CheckpointShardEnd] obtain w' where
    c: "checkpoint ?env (shard_store (\<lambda>t. [])) CheckpointShardEnd w = (None, w')" "held w'"
      "Checkpoint (sw_leased w') = CheckpointShardEnd" "ShardID (sw_leased w') = ShardID (sw_leased w)"
      "sw_user w' = sw_user w" by blast
  have "writeShardEnd ?env w = (None, w')" using c(1) by (simp add: writeShardEnd_def) (simp add: shard_env_def)
  moreover have "pv_Err ?env w = None" using assms(1) by (simp add: shard_env_def held_def)
  ultimately have "poll_turn ?env st w = (returned w')\<lparr>tn_offered := [CheckpointShardEnd]\<rparr>"
    using assms(2) by (simp add: poll_turn_def)
  then show ?thesis
    using c(2-5) by (simp add: poll_loop.simps returned_def held_def)
qed

definition batch_state :: "'a list \<Rightarrow> nat \<Rightarrow> poll_state" where
  "batch_state ps q = \<lparr>ps_iter = (if length ps \<le> q then None else Some (replicate q CHR ''i'')), ps_stuck = 0, ps_lastPoll = Some 0\<rparr>"

lemma batch_turn:
  assumes ok: "\<forall>td c. fst (next td c) = None" and w: "held w" "ps_iter st = Some (replicate p CHR ''i'')"
    and got: "got = take (nat (sint (rc_MaxRecords cfg))) (drop p (sequenced ps))"
  obtains log off w' where
    "poll_turn (shard_env cfg cmp lib otlp dec next ps) st w =
      \<lparr>tn_next = Some (batch_state ps (p + length got)), tn_handled = log, tn_offered = off, tn_world = w'\<rparr>"
    "map fst log = got" "\<forall>x\<in>set log. snd x \<noteq> recordRetry" "held w'" "ShardID (sw_leased w') = ShardID (sw_leased w)"
    "sw_user w' = fold (hand_over cfg cmp lib otlp dec next) got (sw_user w)"
proof -
  let ?env = "shard_env cfg cmp lib otlp dec next ps"
  let ?next = "if length ps \<le> p + length got then None else Some (replicate (p + length got) CHR ''i'')"
  let ?out = "\<lparr>go_Records = got, go_NextShardIterator = ?next\<rparr>"
  let ?st = "st\<lparr>ps_lastPoll := Some 0\<rparr>"
  have tel: "pv_tel ?env e x = x\<lparr>sw_tel := sw_tel x @ [e]\<rparr>" for e x by (simp add: shard_env_def)
  let ?w1 = "pv_tel ?env (RecordPoll (length got) (sum_list (map (length \<circ> kr_Data) got))) w"
  have get: "pv_GetRecords ?env (replicate p CHR ''i'') (rc_MaxRecords cfg) w = (Inr ?out, w)"
    by (simp only: shard_env_def poller_env.simps length_replicate got [symmetric] Let_def)
  have turn: "poll_turn ?env st w = on_batch ?env ?st ?out w"
    using w get by (auto simp: poll_turn_def shard_env_def held_def Let_def waitDurationOrStop_def split: option.splits)
  have next_state: "?st\<lparr>ps_iter := ?next, ps_stuck := 0\<rparr> = batch_state ps (p + length got)"
    by (simp add: batch_state_def)
  from held_batch [OF ok, of cfg cmp lib otlp dec ps got "[]" ?w1] obtain adv log w2 where
    b: "handle_batch ?env got [] ?w1 = (adv, False, log, w2)" "map fst log = got" "\<forall>x\<in>set log. snd x \<noteq> recordRetry"
    and keep: "sw_table w2 = sw_table w" "sw_leased w2 = sw_leased w" "sw_stopped w2 = sw_stopped w"
    and user: "sw_user w2 = fold (hand_over cfg cmp lib otlp dec next) got (sw_user w)" by (auto simp: tel)
  have h2: "held w2" using w keep by (simp add: held_def)
  show thesis
  proof (cases "adv = []")
    case True
    from b(1) have "on_batch ?env ?st ?out w = (continue_with (?st\<lparr>ps_iter := ?next, ps_stuck := 0\<rparr>) w2)\<lparr>tn_handled := log\<rparr>"
      unfolding on_batch_def by (simp only: GetRecordsOutput.simps Let_def prod.case True) (simp add: after_batch_def)
    then have "poll_turn ?env st w =
        \<lparr>tn_next = Some (batch_state ps (p + length got)), tn_handled = log, tn_offered = [], tn_world = w2\<rparr>"
      unfolding turn next_state by (simp add: continue_with_def)
    with b h2 keep user that show thesis by metis
  next
    case False
    from held_checkpoint_retry [OF h2, of cfg cmp lib otlp dec "next" ps adv] obtain w3 where
      c: "checkpointWithRetry ?env adv w2 = (None, w3)" "held w3" "ShardID (sw_leased w3) = ShardID (sw_leased w2)"
        "sw_user w3 = sw_user w2" by blast
    let ?w4 = "pv_tel ?env (RecordLeaseEvent leaseCheckpoint resultSuccess) w3"
    from False b(1) c(1) have "on_batch ?env ?st ?out w =
        (continue_with (?st\<lparr>ps_iter := ?next, ps_stuck := 0\<rparr>) ?w4)\<lparr>tn_handled := log, tn_offered := [adv]\<rparr>"
      unfolding on_batch_def by (simp only: GetRecordsOutput.simps Let_def prod.case) (simp add: after_batch_def)
    then have "poll_turn ?env st w =
        \<lparr>tn_next = Some (batch_state ps (p + length got)), tn_handled = log, tn_offered = [adv], tn_world = ?w4\<rparr>"
      unfolding turn next_state by (simp add: continue_with_def)
    moreover have "held ?w4" "ShardID (sw_leased ?w4) = ShardID (sw_leased w)" "sw_user ?w4 = sw_user w2"
      using c keep by (simp_all add: held_def tel)
    ultimately show thesis using b user that by metis
  qed
qed

lemma drain_loop:
  assumes ok: "\<forall>td c. fst (next td c) = None" and n: "0 < sint (rc_MaxRecords cfg)"
    and "held w" "ps_iter st = Some (replicate p CHR ''i'')"
  shows "\<exists>log off w'. poll_loop (shard_env cfg cmp lib otlp dec next ps) st w = Some (log, off, w') \<and>
    map fst log = drop p (sequenced ps) \<and> (\<forall>x\<in>set log. snd x \<noteq> recordRetry) \<and>
    map_option Checkpoint (sw_table w' (ShardID (sw_leased w))) = Some CheckpointShardEnd \<and>
    sw_user w' = fold (hand_over cfg cmp lib otlp dec next) (drop p (sequenced ps)) (sw_user w)"
  using assms(3,4)
proof (induction "length ps - p" arbitrary: p st w rule: less_induct)
  case less
  let ?env = "shard_env cfg cmp lib otlp dec next ps"
  let ?n = "nat (sint (rc_MaxRecords cfg))"
  let ?q = "p + length (take ?n (drop p (sequenced ps)))"
  let ?st = "batch_state ps ?q"
  obtain log off w1 where
    t: "poll_turn ?env st w = \<lparr>tn_next = Some ?st, tn_handled = log, tn_offered = off, tn_world = w1\<rparr>"
    and log: "map fst log = take ?n (drop p (sequenced ps))" "\<forall>x\<in>set log. snd x \<noteq> recordRetry"
    and h: "held w1" "ShardID (sw_leased w1) = ShardID (sw_leased w)"
    and user: "sw_user w1 = fold (hand_over cfg cmp lib otlp dec next) (take ?n (drop p (sequenced ps))) (sw_user w)"
    by (rule batch_turn [OF ok less.prems refl])
  have step: "poll_loop ?env st w = map_option (\<lambda>r. (log @ fst r, off @ fst (snd r), snd (snd r))) (poll_loop ?env ?st w1)"
    by (subst poll_loop.simps) (simp add: t map_conv_bind_option comp_def)
  show ?case
  proof (cases "length ps \<le> ?q")
    case True
    then have "ps_iter ?st = None" by (simp only: batch_state_def poll_state.simps if_True)
    then obtain w' where "poll_loop ?env ?st w1 = Some ([], [CheckpointShardEnd], w')"
      "map_option Checkpoint (sw_table w' (ShardID (sw_leased w1))) = Some CheckpointShardEnd" "sw_user w' = sw_user w1"
      using end_turn [OF h(1)] by blast
    moreover from True have "take ?n (drop p (sequenced ps)) = drop p (sequenced ps)" by auto
    ultimately show ?thesis using step log h(2) user by auto
  next
    case False
    then have "?q = p + ?n" "p < length ps" by auto
    with n have less': "length ps - ?q < length ps - p" by auto
    have "ps_iter ?st = Some (replicate ?q CHR ''i'')"
      using False by (simp only: batch_state_def poll_state.simps if_False)
    from less.hyps [OF less' h(1) this] obtain log' off' w' where
      rest: "poll_loop ?env ?st w1 = Some (log', off', w')" "map fst log' = drop ?q (sequenced ps)"
        "\<forall>x\<in>set log'. snd x \<noteq> recordRetry"
        "map_option Checkpoint (sw_table w' (ShardID (sw_leased w1))) = Some CheckpointShardEnd"
        "sw_user w' = fold (hand_over cfg cmp lib otlp dec next) (drop ?q (sequenced ps)) (sw_user w1)" by blast
    have parts: "drop p (sequenced ps) = take ?n (drop p (sequenced ps)) @ drop ?q (sequenced ps)"
      using append_take_drop_id [of ?n "drop p (sequenced ps)"] unfolding \<open>?q = p + ?n\<close> by (simp add: add.commute)
    have "map fst (log @ log') = drop p (sequenced ps)" using log rest(2) parts by simp
    moreover have "sw_user w' = fold (hand_over cfg cmp lib otlp dec next) (drop p (sequenced ps)) (sw_user w)"
      by (subst parts) (simp add: rest(5) user)
    ultimately show ?thesis using rest step log h(2) by auto
  qed
qed

lemma poller_drains_shard:
  fixes ps :: "bytes list" and w :: "'c shard_world"
  assumes "\<forall>td c. fst (next td c) = None" "0 < sint (rc_MaxRecords cfg)" "held w"
    and "Checkpoint (sw_leased w) \<noteq> CheckpointShardEnd"
  defines "left \<equiv> drop (ckpt_pos (sequenced ps) (Checkpoint (sw_leased w))) (sequenced ps)"
  shows "\<exists>log off w'. runPoll (shard_env cfg cmp lib otlp dec next ps) w = Some (log, off, w') \<and>
    map fst log = left \<and> (\<forall>x\<in>set log. snd x \<noteq> recordRetry) \<and>
    map_option Checkpoint (sw_table w' (ShardID (sw_leased w))) = Some CheckpointShardEnd \<and>
    sw_user w' = fold (hand_over cfg cmp lib otlp dec next) left (sw_user w)"
proof -
  let ?p = "ckpt_pos (sequenced ps) (Checkpoint (sw_leased w))"
  have o': "openIterator (shard_env cfg cmp lib otlp dec next ps) w = (Inr (Some (replicate ?p CHR ''i'')), w)"
    using assms(4) by (simp add: openIterator_def Let_def shard_env_def ckpt_pos_def)
  from drain_loop [OF assms(1-3), of "\<lparr>ps_iter = Some (replicate ?p CHR ''i''), ps_stuck = 0, ps_lastPoll = None\<rparr>" ?p
      cmp lib otlp dec ps]
  show ?thesis by (simp add: runPoll_def o' left_def)
qed

text \<open>
  C8.  On a closed shard that answers as documented, with a consumer that never rejects and a lease
  that is held, at whatever checkpoint, the poll loop returns: it has handed over every record
  after the checkpoint once and in order, skipping only what cannot be decoded, and leaves the
  row at SHARD_END; the consumer's state is the one it reaches by taking, record by record, the
  decoded batch or its dead letter.
\<close>

theorem poller_reads_shard_to_end:
  assumes "\<forall>td c. fst (next td c) = None" "0 < sint (rc_MaxRecords cfg)" "held w"
    and "Checkpoint (sw_leased w) \<noteq> CheckpointShardEnd"
  shows "\<exists>log off w'. runPoll (shard_env cfg cmp lib otlp dec next ps) w = Some (log, off, w') \<and>
    map fst log = drop (ckpt_pos (sequenced ps) (Checkpoint (sw_leased w))) (sequenced ps) \<and>
    (\<forall>x\<in>set log. snd x \<noteq> recordRetry) \<and>
    map_option Checkpoint (sw_table w' (ShardID (sw_leased w))) = Some CheckpointShardEnd \<and>
    sw_user w' = fold (hand_over cfg cmp lib otlp dec next) (map fst log) (sw_user w)"
proof -
  obtain log off w' where "runPoll (shard_env cfg cmp lib otlp dec next ps) w = Some (log, off, w')"
    and log: "map fst log = drop (ckpt_pos (sequenced ps) (Checkpoint (sw_leased w))) (sequenced ps)"
    and "\<forall>x\<in>set log. snd x \<noteq> recordRetry"
    and "map_option Checkpoint (sw_table w' (ShardID (sw_leased w))) = Some CheckpointShardEnd"
    and "sw_user w' = fold (hand_over cfg cmp lib otlp dec next)
      (drop (ckpt_pos (sequenced ps) (Checkpoint (sw_leased w))) (sequenced ps)) (sw_user w)"
    using poller_drains_shard [OF assms, of cmp lib otlp dec ps] by blast
  then show ?thesis unfolding log [symmetric] by blast
qed

theorem poller_reads_shard_to_end_witness:
  "\<exists>log off w'. runPoll (shard_env sample_receiver noneCodec sample_lib echo_otlp otlpProtoTraces
       (\<lambda>td taken. (None, taken @ map sp_name (leaves td))) [''a'', ''bad'', ''c'']) sample_world = Some (log, off, w') \<and>
     map fst log = drop 0 (sequenced [''a'', ''bad'', ''c'']) \<and>
     map_option Checkpoint (sw_table w' ''s'') = Some CheckpointShardEnd"
proof -
  have n: "0 < sint (rc_MaxRecords sample_receiver)" by code_simp
  have h: "held sample_world" and c: "Checkpoint (sw_leased sample_world) \<noteq> CheckpointShardEnd"
    and z: "ckpt_pos (sequenced [''a'', ''bad'', ''c'']) (Checkpoint (sw_leased sample_world)) = 0"
    and k: "ShardID (sw_leased sample_world) = ''s''"
    by (simp_all add: held_def sample_world_def sample_token_def ckpt_pos_def CheckpointTrimHorizon_def CheckpointShardEnd_def)
  have ok: "\<forall>td c. fst ((\<lambda>td taken. (None :: consumer_error option, taken @ map sp_name (leaves td))) td c) = None" by simp
  from poller_reads_shard_to_end [OF ok n h c, of noneCodec sample_lib echo_otlp otlpProtoTraces "[''a'', ''bad'', ''c'']"] k
  show ?thesis unfolding z by auto
qed


text \<open>The first worker takes one record and crashes after its checkpoint; the second goes on from there.\<close>

abbreviation one_by_one :: "bytes list \<Rightarrow> string list shard_world poller_env" where
  "one_by_one \<equiv> shard_env (sample_receiver\<lparr>rc_MaxRecords := 1\<rparr>) noneCodec sample_lib echo_otlp otlpProtoTraces
     (\<lambda>td taken. (None, taken @ map sp_name (leaves td)))"

definition resumed_world :: "string list shard_world" where
  "resumed_world = (let t = sample_token\<lparr>Owner := ''v'', Counter := 2, Checkpoint := ''4''\<rparr>
     in sample_world\<lparr>sw_table := [''s'' \<mapsto> t], sw_leased := t\<rparr>)"


end
