(* ===== verification/Coordinator.thy ===== *)
theory Coordinator
  imports Poller Taker
begin

section \<open>The coordinator (shard_discovery.go, coordinator.go)\<close>

text \<open>
  \<^verbatim>\<open>receiver/awskinesisreceiver/shard_discovery.go\<close> and \<^verbatim>\<open>coordinator.go\<close>.  The state of the
  coordinator is a record; the lease store and the Kinesis client act on a world \<open>'w\<close>.  A poller
  goroutine is a number: \<open>co_running\<close> holds the pollers started and not yet exited, with the
  lease each started with, \<open>co_active\<close> is the Go map of handles, where the number stands for the
  pointer that tells generations apart.  The theorems: orphan cleanup deletes only what it may,
  a reconcile pass starts pollers only for leases it won, and shutdown drains every poller.
\<close>

record observation =
  ob_counter :: int64
  ob_seenAt :: int64

record coordinator =
  co_active :: "string \<Rightarrow> nat option"
  co_observed :: "string \<Rightarrow> observation option"
  co_stopped :: bool
  co_discovering :: bool
  co_liveShards :: "string list"
  co_absent :: "string \<Rightarrow> nat option"
  co_next :: nat
  co_running :: "(nat \<times> lease) list"
  co_draining :: "nat list"
  co_shardsOwned :: int
  co_tel :: "tel_event list"

record Shard =
  sh_ShardId :: "string option"
  sh_ParentShardId :: "string option"
  sh_AdjacentParentShardId :: "string option"

text \<open>The first page asks for the stream, every later one only for the token.\<close>

datatype ListShardsInput = ByStreamName string | ByNextToken string

record ListShardsOutput =
  lo_Shards :: "Shard list"
  lo_NextToken :: "string option"

record 'w coordinator_env =
  ce_cfg :: ReceiverConfig
  ce_store :: "'w store"
  ce_exit_store :: "'w store"
  ce_workerID :: string
  ce_ListShards :: "ListShardsInput \<Rightarrow> 'w \<Rightarrow> (err + ListShardsOutput) \<times> 'w"
  ce_Now :: "'w \<Rightarrow> int64"

abbreviation leaseAcquire :: string where "leaseAcquire \<equiv> ''acquire''"
abbreviation leaseRelease :: string where "leaseRelease \<equiv> ''release''"
abbreviation leaseSteal :: string where "leaseSteal \<equiv> ''steal''"

definition orphanReapThreshold :: nat where "orphanReapThreshold = 3"

definition newCoordinator :: coordinator where
  "newCoordinator = \<lparr>co_active = Map.empty, co_observed = Map.empty, co_stopped = False, co_discovering = False,
     co_liveShards = [], co_absent = Map.empty, co_next = 0, co_running = [], co_draining = [],
     co_shardsOwned = 0, co_tel = []\<rparr>"

definition count_event :: "tel_event \<Rightarrow> coordinator \<Rightarrow> coordinator" where
  "count_event e c = c\<lparr>co_tel := co_tel c @ [e]\<rparr>"

subsection \<open>Shard discovery\<close>

partial_function (option) list_shard_pages ::
  "'w coordinator_env \<Rightarrow> string option \<Rightarrow> Shard list \<Rightarrow> 'w \<Rightarrow> ((err + Shard list) \<times> 'w) option" where
  "list_shard_pages env token shards w =
     (case ce_ListShards env (case token of None \<Rightarrow> ByStreamName (rc_StreamName (ce_cfg env)) | Some t \<Rightarrow> ByNextToken t) w of
        (Inl e, w') \<Rightarrow> Some (Inl e, w')
      | (Inr out, w') \<Rightarrow>
          (if lo_NextToken out = None \<or> ToString (lo_NextToken out) = []
           then Some (Inr (shards @ lo_Shards out), w')
           else list_shard_pages env (lo_NextToken out) (shards @ lo_Shards out) w'))"

declare list_shard_pages.simps [code]

definition listShards :: "'w coordinator_env \<Rightarrow> 'w \<Rightarrow> ((err + Shard list) \<times> 'w) option" where
  "listShards env w = list_shard_pages env None [] w"

definition parents_of :: "Shard \<Rightarrow> string list" where
  "parents_of s =
     (if ToString (sh_ParentShardId s) \<noteq> [] then [ToString (sh_ParentShardId s)] else []) @
     (if ToString (sh_AdjacentParentShardId s) \<noteq> [] then [ToString (sh_AdjacentParentShardId s)] else [])"

fun ensure_all :: "'w coordinator_env \<Rightarrow> Shard list \<Rightarrow> 'w \<Rightarrow> lease_error option \<times> 'w" where
  "ensure_all env [] w = (None, w)"
| "ensure_all env (s # ss) w =
     (case st_Ensure (ce_store env) (ToString (sh_ShardId s)) (parents_of s) w of
        (Some e, w') \<Rightarrow> (Some e, w')
      | (None, w') \<Rightarrow> ensure_all env ss w')"

datatype discovery_error = ListShardsError err | EnsureError lease_error

definition discoverShards ::
  "'w coordinator_env \<Rightarrow> coordinator \<Rightarrow> 'w \<Rightarrow> (discovery_error option \<times> coordinator \<times> 'w) option" where
  "discoverShards env c w =
     (case listShards env w of
        None \<Rightarrow> None
      | Some (Inl e, w1) \<Rightarrow> Some (Some (ListShardsError e), c, w1)
      | Some (Inr shards, w1) \<Rightarrow>
          (case ensure_all env shards w1 of
             (Some e, w2) \<Rightarrow> Some (Some (EnsureError e), c, w2)
           | (None, w2) \<Rightarrow> Some (None, c\<lparr>co_liveShards := map (\<lambda>s. ToString (sh_ShardId s)) shards\<rparr>, w2)))"

definition indexCheckpoints :: "lease list \<Rightarrow> string \<Rightarrow> string option" where
  "indexCheckpoints leases = fold (\<lambda>l m. m(ShardID l \<mapsto> Checkpoint l)) leases Map.empty"

definition parentsDrained :: "lease \<Rightarrow> (string \<Rightarrow> string option) \<Rightarrow> bool" where
  "parentsDrained l checkpoints =
     list_all (\<lambda>pid. case checkpoints pid of None \<Rightarrow> True | Some cp \<Rightarrow> cp = CheckpointShardEnd) (ParentIDs l)"

definition observe :: "int64 \<Rightarrow> lease \<Rightarrow> (string \<Rightarrow> observation option) \<Rightarrow> string \<Rightarrow> observation option" where
  "observe now l obs =
     (if (case obs (ShardID l) of None \<Rightarrow> True | Some ob \<Rightarrow> ob_counter ob \<noteq> Counter l)
      then obs(ShardID l \<mapsto> \<lparr>ob_counter = Counter l, ob_seenAt = now\<rparr>) else obs)"

definition listed :: "lease list \<Rightarrow> string \<Rightarrow> bool" where
  "listed leases k = list_ex (\<lambda>l. ShardID l = k) leases"

definition refreshObservations :: "lease list \<Rightarrow> int64 \<Rightarrow> coordinator \<Rightarrow> coordinator" where
  "refreshObservations leases now c =
     (let observed = fold (observe now) leases (co_observed c)
      in c\<lparr>co_observed := (\<lambda>k. if listed leases k then observed k else None),
           co_absent := (\<lambda>k. if listed leases k then co_absent c k else None)\<rparr>)"

definition bump_absent :: "string \<Rightarrow> coordinator \<Rightarrow> coordinator" where
  "bump_absent k c = c\<lparr>co_absent := (co_absent c)(k \<mapsto> (case co_absent c k of None \<Rightarrow> 1 | Some n \<Rightarrow> n + 1))\<rparr>"

text \<open>Is the lease still heartbeated by some owner, as far as this worker has seen?\<close>

definition heartbeated :: "'w coordinator_env \<Rightarrow> lease \<Rightarrow> coordinator \<Rightarrow> 'w \<Rightarrow> bool" where
  "heartbeated env l c w \<longleftrightarrow> Owner l \<noteq> [] \<and>
     (case co_observed c (ShardID l) of
        None \<Rightarrow> False
      | Some ob \<Rightarrow> ob_counter ob = Counter l \<and> ce_Now env w - ob_seenAt ob <s rc_LeaseDuration (ce_cfg env))"

definition cleanup_one :: "'w coordinator_env \<Rightarrow> lease \<Rightarrow> coordinator \<times> 'w \<Rightarrow> coordinator \<times> 'w" where
  "cleanup_one env l cw =
     (let c = fst cw; w = snd cw; k = ShardID l
      in if k \<in> set (co_liveShards c) then (c\<lparr>co_absent := (co_absent c)(k := None)\<rparr>, w)
         else if Checkpoint l \<noteq> CheckpointShardEnd then (c, w)
         else (let c1 = bump_absent k c
               in if co_active c1 k \<noteq> None \<or> the (co_absent c1 k) < orphanReapThreshold then (c1, w)
                  else if heartbeated env l c1 w then (c1, w)
                  else (case st_Delete (ce_store env) k (Counter l) w of
                      (Some e, w') \<Rightarrow> (c1, w')
                    | (None, w') \<Rightarrow> (c1\<lparr>co_observed := (co_observed c1)(k := None),
                                      co_absent := (co_absent c1)(k := None)\<rparr>, w'))))"

definition cleanupOrphans :: "'w coordinator_env \<Rightarrow> lease list \<Rightarrow> coordinator \<Rightarrow> 'w \<Rightarrow> coordinator \<times> 'w" where
  "cleanupOrphans env leases c w =
     (if co_liveShards c = [] then (c, w) else fold (cleanup_one env) leases (c, w))"

subsection \<open>Acquiring, releasing, starting pollers\<close>

text \<open>\<open>startPoller\<close>: the exit-path release of a lease won while shutdown began uses the exit store.\<close>

definition startPoller :: "'w coordinator_env \<Rightarrow> lease \<Rightarrow> coordinator \<Rightarrow> 'w \<Rightarrow> coordinator \<times> 'w" where
  "startPoller env l c w =
     (if co_stopped c then (c, snd (st_Release (ce_exit_store env) l w))
      else (c\<lparr>co_active := (co_active c)(ShardID l \<mapsto> co_next c),
              co_next := co_next c + 1,
              co_running := (co_next c, l) # co_running c,
              co_shardsOwned := co_shardsOwned c + 1\<rparr>, w))"

text \<open>The deferred exit of a poller goroutine: only its own generation clears the slot.\<close>

definition poller_exit :: "nat \<Rightarrow> coordinator \<Rightarrow> coordinator" where
  "poller_exit g c =
     (case map_of (co_running c) g of
        None \<Rightarrow> c
      | Some l \<Rightarrow>
          (let c1 = c\<lparr>co_running := filter (\<lambda>x. fst x \<noteq> g) (co_running c)\<rparr>
           in if co_active c (ShardID l) = Some g
              then c1\<lparr>co_active := (co_active c)(ShardID l := None), co_shardsOwned := co_shardsOwned c - 1\<rparr>
              else c1))"

text \<open>The conditional acquire of \<open>tryAcquire\<close>: the lease won, if any, before \<open>startPoller\<close> installs it.\<close>

definition claim ::
  "'w coordinator_env \<Rightarrow> lease \<Rightarrow> string \<Rightarrow> coordinator \<Rightarrow> 'w \<Rightarrow> lease option \<times> coordinator \<times> 'w" where
  "claim env l event c w =
     (if co_active c (ShardID l) \<noteq> None then (None, c, w)
      else (case st_Acquire (ce_store env) (ShardID l) (ce_workerID env) (Counter l) w of
          (Inl e, w') \<Rightarrow>
            (None, (if e = ErrLeaseConflict then count_event (RecordLeaseEvent event resultConflict) c else c), w')
        | (Inr taken, w') \<Rightarrow> (Some taken, count_event (RecordLeaseEvent event resultSuccess) c, w')))"

definition tryAcquire :: "'w coordinator_env \<Rightarrow> lease \<Rightarrow> string \<Rightarrow> coordinator \<Rightarrow> 'w \<Rightarrow> coordinator \<times> 'w" where
  "tryAcquire env l event c w =
     (case claim env l event c w of
        (None, c', w') \<Rightarrow> (c', w')
      | (Some taken, c', w') \<Rightarrow> startPoller env taken c' w')"

definition releasePoller :: "string \<Rightarrow> coordinator \<Rightarrow> coordinator" where
  "releasePoller shardID c =
     (case co_active c shardID of
        None \<Rightarrow> c
      | Some g \<Rightarrow> (count_event (RecordLeaseEvent leaseRelease resultSuccess) c)\<lparr>co_draining := g # co_draining c\<rparr>)"

subsection \<open>The reconcile pass and the lifecycle\<close>

definition freshness :: "'w coordinator_env \<Rightarrow> int64 \<Rightarrow> coordinator \<Rightarrow> lease list \<Rightarrow> string \<Rightarrow> bool" where
  "freshness env now c leases =
     fold (\<lambda>l m. m(ShardID l := (Owner l \<noteq> [] \<and>
         (case co_observed c (ShardID l) of
            None \<Rightarrow> False | Some ob \<Rightarrow> now - ob_seenAt ob <s rc_LeaseDuration (ce_cfg env)))))
       leases (\<lambda>_. False)"

definition drained_map :: "lease list \<Rightarrow> string \<Rightarrow> bool" where
  "drained_map leases = fold (\<lambda>l m. m(ShardID l := parentsDrained l (indexCheckpoints leases))) leases (\<lambda>_. False)"

definition by_id :: "lease list \<Rightarrow> string \<Rightarrow> lease" where
  "by_id leases = fold (\<lambda>l m. m(ShardID l := l)) leases
     (\<lambda>_. \<lparr>ShardID = [], Owner = [], Counter = 0, Checkpoint = [], ParentIDs = []\<rparr>)"

definition reconcile_plan :: "'w coordinator_env \<Rightarrow> int64 \<Rightarrow> coordinator \<Rightarrow> lease list \<Rightarrow> plan_result" where
  "reconcile_plan env now c leases =
     Plan \<lparr>pi_Leases = leases, pi_Self = ce_workerID env, pi_Fresh = freshness env now c leases,
           pi_Drained = drained_map leases, pi_Owned = (\<lambda>k. co_active c k \<noteq> None)\<rparr>"

definition execute_plan ::
  "'w coordinator_env \<Rightarrow> lease list \<Rightarrow> plan_result \<Rightarrow> coordinator \<Rightarrow> 'w \<Rightarrow> coordinator \<times> 'w" where
  "execute_plan env leases plan c w =
     (let released = fold releasePoller (pr_Release plan) c;
          acquired = fold (\<lambda>k cw. tryAcquire env (by_id leases k) leaseAcquire (fst cw) (snd cw)) (pr_Acquire plan) (released, w)
      in if pr_Steal plan \<noteq> []
         then tryAcquire env (by_id leases (pr_Steal plan)) leaseSteal (fst acquired) (snd acquired)
         else acquired)"

definition reconcile :: "'w coordinator_env \<Rightarrow> bool \<Rightarrow> coordinator \<Rightarrow> 'w \<Rightarrow> (coordinator \<times> 'w) option" where
  "reconcile env discoveryOK c w =
     (case st_List (ce_store env) w of
        None \<Rightarrow> None
      | Some (Inl e, w1) \<Rightarrow> Some (c, w1)
      | Some (Inr leases, w1) \<Rightarrow>
          (let now = ce_Now env w1;
               c1 = refreshObservations leases now c;
               cw2 = execute_plan env leases (reconcile_plan env now c1 leases) c1 w1
           in Some (if discoveryOK then cleanupOrphans env leases (fst cw2) (snd cw2) else cw2)))"

text \<open>One tick of \<open>run\<close>: discover, then reconcile whatever discovery said.\<close>

definition run_tick :: "'w coordinator_env \<Rightarrow> coordinator \<Rightarrow> 'w \<Rightarrow> (coordinator \<times> 'w) option" where
  "run_tick env c w =
     (case discoverShards env c w of
        None \<Rightarrow> None
      | Some (e, c1, w1) \<Rightarrow> reconcile env (e = None) c1 w1)"

text \<open>
  \<open>start\<close> publishes the contexts, discovers once and starts \<open>run\<close>; \<open>stopped_late\<close> says whether a
  concurrent \<open>drainAndStop\<close> set \<^verbatim>\<open>stopped\<close> while discovery was on the network.
\<close>

definition coordinator_start ::
  "'w coordinator_env \<Rightarrow> bool \<Rightarrow> coordinator \<Rightarrow> 'w \<Rightarrow> (discovery_error option \<times> coordinator \<times> 'w) option" where
  "coordinator_start env stopped_late c w =
     (if co_stopped c then Some (None, c, w)
      else (case discoverShards env c w of
          None \<Rightarrow> None
        | Some (Some e, c1, w1) \<Rightarrow> Some (Some e, c1, w1)
        | Some (None, c1, w1) \<Rightarrow>
            (let c2 = (if stopped_late then c1\<lparr>co_stopped := True\<rparr> else c1)
             in if co_stopped c2 then Some (None, c2, w1) else Some (None, c2\<lparr>co_discovering := True\<rparr>, w1))))"

text \<open>\<open>drainAndStop\<close> drains the pollers in \<^verbatim>\<open>active\<close>, in whatever order the map yields them.\<close>

definition drainAndStop :: "coordinator \<Rightarrow> coordinator" where
  "drainAndStop c =
     c\<lparr>co_stopped := True, co_discovering := False,
       co_draining := map fst (filter (\<lambda>x. co_active c (ShardID (snd x)) = Some (fst x)) (co_running c)) @ co_draining c\<rparr>"

subsection \<open>Orphan cleanup\<close>

text \<open>When a row may be reaped: what the code knew of it before the pass.\<close>

definition reapable :: "coordinator \<Rightarrow> lease list \<Rightarrow> string \<Rightarrow> lease \<Rightarrow> bool" where
  "reapable c leases k row \<longleftrightarrow>
     k \<notin> set (co_liveShards c) \<and> co_liveShards c \<noteq> [] \<and> co_active c k = None \<and>
     (\<exists>n. co_absent c k = Some n \<and> orphanReapThreshold \<le> n + 1) \<and>
     (\<exists>l\<in>set leases. ShardID l = k \<and> Checkpoint l = CheckpointShardEnd \<and> Counter row = Counter l)"

lemma cleanup_one_frame:
  "cleanup_one env l (c, w) = (c', w') \<Longrightarrow>
     co_liveShards c' = co_liveShards c \<and> co_active c' = co_active c \<and> (k \<noteq> ShardID l \<longrightarrow> co_absent c' k = co_absent c k)"
  by (auto simp: cleanup_one_def bump_absent_def Let_def split: if_splits prod.splits option.splits)

lemma cleanup_one_delete:
  assumes "cleanup_one env l (c, w) = (c', w')"
  shows "w' = w \<or> (\<exists>e. st_Delete (ce_store env) (ShardID l) (Counter l) w = (e, w') \<and>
    ShardID l \<notin> set (co_liveShards c) \<and> co_active c (ShardID l) = None \<and> Checkpoint l = CheckpointShardEnd \<and>
    (\<exists>n. co_absent c (ShardID l) = Some n \<and> orphanReapThreshold \<le> n + 1))"
proof -
  have a: "\<not> the (co_absent (bump_absent j c) j) < orphanReapThreshold \<Longrightarrow>
      \<exists>n. co_absent c j = Some n \<and> orphanReapThreshold \<le> n + 1" for j
    by (auto simp: bump_absent_def orphanReapThreshold_def split: option.splits)
  have act: "co_active (bump_absent j c) = co_active c" for j by (simp add: bump_absent_def)
  obtain e w1 where d: "st_Delete (ce_store env) (ShardID l) (Counter l) w = (e, w1)" by fastforce
  show ?thesis
    using assms a [of "ShardID l"] by (auto simp: cleanup_one_def Let_def act d split: if_splits option.splits)
qed

context lease_store begin

lemma delete_moves:
  assumes "inv w" "st_Delete st j n w = (e, w1)"
  shows "inv w1" and "view w1 k \<noteq> view w k \<Longrightarrow> k = j \<and> view w1 k = None \<and> (\<exists>r. view w k = Some r \<and> Counter r = n)"
proof -
  note law = delete_law [OF assms]
  then show "inv w1" by blast
  have com: "committed (view w) j (\<lambda>r. Counter r = n) (\<lambda>_. None) t' \<Longrightarrow> t' k \<noteq> view w k \<Longrightarrow>
      k = j \<and> t' k = None \<and> (\<exists>r. view w k = Some r \<and> Counter r = n)" for t'
    by (auto simp: committed_def split: if_splits)
  show "k = j \<and> view w1 k = None \<and> (\<exists>r. view w k = Some r \<and> Counter r = n)" if ch: "view w1 k \<noteq> view w k"
  proof (cases e)
    case None
    with law have "view w1 = view w \<or> committed (view w) j (\<lambda>r. Counter r = n) (\<lambda>_. None) (view w1)"
      by (auto simp: delete_result_def Let_def)
    with com ch show ?thesis by metis
  next
    case (Some x)
    with law have "view w1 = view w \<or> committed (view w) j (\<lambda>r. Counter r = n) (\<lambda>_. None) (view w1)"
      by (cases x) (simp_all add: delete_result_def Let_def refused_def)
    with com ch show ?thesis by metis
  qed
qed

lemma cleanup_one_safe:
  assumes "ce_store env = st" "inv w" "cleanup_one env l (c, w) = (c', w')"
  shows "inv w'"
    and "view w' k \<noteq> view w k \<Longrightarrow> k = ShardID l \<and> view w' k = None \<and> ShardID l \<notin> set (co_liveShards c) \<and>
      co_active c k = None \<and> Checkpoint l = CheckpointShardEnd \<and>
      (\<exists>n. co_absent c k = Some n \<and> orphanReapThreshold \<le> n + 1) \<and> (\<exists>r. view w k = Some r \<and> Counter r = Counter l)"
proof -
  note cases = cleanup_one_delete [OF assms(3), unfolded assms(1)]
  show "inv w'" using cases delete_moves(1) [OF assms(2)] assms(2) by blast
  assume ch: "view w' k \<noteq> view w k"
  with cases obtain e where d: "st_Delete st (ShardID l) (Counter l) w = (e, w')"
    and more: "ShardID l \<notin> set (co_liveShards c)" "co_active c (ShardID l) = None" "Checkpoint l = CheckpointShardEnd"
      "\<exists>n. co_absent c (ShardID l) = Some n \<and> orphanReapThreshold \<le> n + 1" by blast
  from delete_moves(2) [OF assms(2) d ch] more
  show "k = ShardID l \<and> view w' k = None \<and> ShardID l \<notin> set (co_liveShards c) \<and>
      co_active c k = None \<and> Checkpoint l = CheckpointShardEnd \<and>
      (\<exists>n. co_absent c k = Some n \<and> orphanReapThreshold \<le> n + 1) \<and> (\<exists>r. view w k = Some r \<and> Counter r = Counter l)"
    by auto
qed

lemma cleanup_fold_safe:
  assumes "ce_store env = st"
  shows "inv w \<Longrightarrow> distinct (map ShardID leases) \<Longrightarrow> fold (cleanup_one env) leases (c, w) = (c', w') \<Longrightarrow>
    inv w' \<and> (\<forall>k. view w' k \<noteq> view w k \<longrightarrow> view w' k = None \<and> k \<notin> set (co_liveShards c) \<and> co_active c k = None \<and>
      (\<exists>n. co_absent c k = Some n \<and> orphanReapThreshold \<le> n + 1) \<and>
      (\<exists>r l. view w k = Some r \<and> l \<in> set leases \<and> ShardID l = k \<and> Checkpoint l = CheckpointShardEnd \<and> Counter r = Counter l))"
proof (induction leases arbitrary: c w)
  case (Cons l leases)
  obtain c1 w1 where one: "cleanup_one env l (c, w) = (c1, w1)" by fastforce
  note safe = cleanup_one_safe [OF assms Cons.prems(1) one]
  note frame = cleanup_one_frame [OF one]
  from Cons.prems one have rest: "fold (cleanup_one env) leases (c1, w1) = (c', w')" by simp
  note IH = Cons.IH [OF safe(1) _ rest]
  from Cons.prems(2) have d: "distinct (map ShardID leases)" and fresh: "ShardID l \<notin> set (map ShardID leases)" by simp_all
  have "inv w'" using IH d by blast
  moreover have each: "view w' k = None \<and> k \<notin> set (co_liveShards c) \<and> co_active c k = None \<and>
      (\<exists>n. co_absent c k = Some n \<and> orphanReapThreshold \<le> n + 1) \<and>
      (\<exists>r la. view w k = Some r \<and> la \<in> set (l # leases) \<and> ShardID la = k \<and> Checkpoint la = CheckpointShardEnd \<and> Counter r = Counter la)"
    if ch: "view w' k \<noteq> view w k" for k
  proof -
    show ?thesis
    proof (cases "view w1 k = view w k")
      case False
      note s = safe(2) [OF False]
      have "view w' k = view w1 k"
      proof (rule ccontr)
        assume "view w' k \<noteq> view w1 k"
        with IH d obtain r where "view w1 k = Some r" by blast
        with s show False by simp
      qed
      with s show ?thesis by auto
    next
      case True
      with ch have "view w' k \<noteq> view w1 k" by simp
      with IH d have s: "view w' k = None \<and> k \<notin> set (co_liveShards c1) \<and> co_active c1 k = None \<and>
        (\<exists>n. co_absent c1 k = Some n \<and> orphanReapThreshold \<le> n + 1) \<and>
        (\<exists>r la. view w1 k = Some r \<and> la \<in> set leases \<and> ShardID la = k \<and> Checkpoint la = CheckpointShardEnd \<and> Counter r = Counter la)"
        by blast
      then obtain la where "la \<in> set leases" "ShardID la = k" by blast
      with fresh have "k \<noteq> ShardID l" by (metis imageI list.set_map)
      with s frame [of k] True show ?thesis by auto
    qed
  qed
  ultimately show ?case by blast
qed simp

end

text \<open>
  C10.  Orphan cleanup deletes only what is safe to delete, on any store that keeps the contract: a row
  that disappears belonged to a shard listed by no recent discovery, absent for two passes before
  this one, closed (SHARD_END) when the pass read it, polled by none of this worker's pollers, and
  unchanged since, its counter being the one read.  An active shard's checkpoint is never deleted.
\<close>

theorem orphan_cleanup_is_safe:
  assumes "lease_store (ce_store env) view ok" "ok w" "distinct (map ShardID leases)"
    and "cleanupOrphans env leases c w = (c', w')" "view w' k \<noteq> view w k"
  shows "\<exists>row. view w k = Some row \<and> view w' k = None \<and> reapable c leases k row"
proof -
  from assms(4,5) have live: "co_liveShards c \<noteq> []" and f: "fold (cleanup_one env) leases (c, w) = (c', w')"
    by (auto simp: cleanupOrphans_def split: if_splits)
  from lease_store.cleanup_fold_safe [OF assms(1) refl assms(2,3) f] assms(5)
  obtain r l where "view w' k = None" "k \<notin> set (co_liveShards c)" "co_active c k = None"
    "\<exists>n. co_absent c k = Some n \<and> orphanReapThreshold \<le> n + 1"
    "view w k = Some r" "l \<in> set leases" "ShardID l = k" "Checkpoint l = CheckpointShardEnd" "Counter r = Counter l"
    by blast
  with live show ?thesis by (auto simp: reapable_def)
qed

definition memory_env :: "ReceiverConfig \<Rightarrow> string \<Rightarrow> lease_table coordinator_env" where
  "memory_env cfg worker = \<lparr>ce_cfg = cfg, ce_store = memory_store (\<lambda>t. []), ce_exit_store = memory_store (\<lambda>t. []),
     ce_workerID = worker, ce_ListShards = (\<lambda>input t. (Inr \<lparr>lo_Shards = [], lo_NextToken = None\<rparr>, t)), ce_Now = (\<lambda>t. 0)\<rparr>"

abbreviation closed_lease :: lease where
  "closed_lease \<equiv> \<lparr>ShardID = ''old'', Owner = [], Counter = 4, Checkpoint = CheckpointShardEnd, ParentIDs = []\<rparr>"

theorem orphan_cleanup_is_safe_witness:
  "\<exists>c'. cleanupOrphans (memory_env sample_receiver ''w'') [closed_lease]
       (newCoordinator\<lparr>co_liveShards := [''new''], co_absent := [''old'' \<mapsto> 2]\<rparr>) [''old'' \<mapsto> closed_lease] = (c', Map.empty) \<and>
     reapable (newCoordinator\<lparr>co_liveShards := [''new''], co_absent := [''old'' \<mapsto> 2]\<rparr>) [closed_lease] ''old'' closed_lease"
proof -
  let ?c = "newCoordinator\<lparr>co_liveShards := [''new''], co_absent := [''old'' \<mapsto> 2]\<rparr>"
  let ?env = "memory_env sample_receiver ''w''"
  have run: "\<exists>c'. cleanupOrphans ?env [closed_lease] ?c [''old'' \<mapsto> closed_lease] = (c', Map.empty)"
    by (simp add: cleanupOrphans_def cleanup_one_def bump_absent_def newCoordinator_def orphanReapThreshold_def
        heartbeated_def memory_env_def memory_store_def MemoryStore_Delete_def Let_def)
  then obtain c' where r: "cleanupOrphans ?env [closed_lease] ?c [''old'' \<mapsto> closed_lease] = (c', Map.empty)" by blast
  have st: "lease_store (ce_store ?env) (\<lambda>s. s) keyed_table"
    unfolding memory_env_def by (simp add: mem.lease_store_axioms)
  have inv: "keyed_table [''old'' \<mapsto> closed_lease]" by (simp add: keyed_table_def)
  from orphan_cleanup_is_safe [OF st inv _ r, of "''old''"] r show ?thesis by auto
qed

subsection \<open>The pollers of one worker\<close>

text \<open>
  The coordinator over time.  Its own goroutine discovers, refreshes, claims and installs, one
  action at a time; \<open>p\<close> is the lease it has won and not yet installed.  Between its actions,
  pollers exit, the receiver may call \<open>drainAndStop\<close>, and the world moves on.
\<close>

inductive coord_reach ::
  "'w coordinator_env \<Rightarrow> ('w \<Rightarrow> bool) \<Rightarrow> coordinator \<Rightarrow> 'w \<Rightarrow> lease option \<Rightarrow> bool"
  for env :: "'w coordinator_env" and ok :: "'w \<Rightarrow> bool" where
  coord_new: "ok w \<Longrightarrow> coord_reach env ok newCoordinator w None"
| coord_discover: "coord_reach env ok c w None \<Longrightarrow> discoverShards env c w = Some (e, c', w') \<Longrightarrow> ok w' \<Longrightarrow>
    coord_reach env ok c' w' None"
| coord_refresh: "coord_reach env ok c w None \<Longrightarrow> coord_reach env ok (refreshObservations leases now c) w None"
| coord_claim: "coord_reach env ok c w None \<Longrightarrow> claim env l event c w = (p, c', w') \<Longrightarrow> ok w' \<Longrightarrow>
    coord_reach env ok c' w' p"
| coord_install: "coord_reach env ok c w (Some l) \<Longrightarrow> startPoller env l c w = (c', w') \<Longrightarrow> ok w' \<Longrightarrow>
    coord_reach env ok c' w' None"
| coord_release: "coord_reach env ok c w None \<Longrightarrow> coord_reach env ok (releasePoller k c) w None"
| coord_cleanup: "coord_reach env ok c w None \<Longrightarrow> cleanup_one env l (c, w) = (c', w') \<Longrightarrow> ok w' \<Longrightarrow>
    coord_reach env ok c' w' None"
| coord_exit: "coord_reach env ok c w p \<Longrightarrow> coord_reach env ok (poller_exit g c) w p"
| coord_stop: "coord_reach env ok c w p \<Longrightarrow> coord_reach env ok (drainAndStop c) w p"
| coord_world: "coord_reach env ok c w p \<Longrightarrow> ok w' \<Longrightarrow> coord_reach env ok c w' p"

definition pollers_inv :: "coordinator \<Rightarrow> lease option \<Rightarrow> bool" where
  "pollers_inv c p \<longleftrightarrow>
     distinct (map fst (co_running c)) \<and> distinct (map (ShardID \<circ> snd) (co_running c)) \<and>
     (\<forall>x\<in>set (co_running c). fst x < co_next c \<and> co_active c (ShardID (snd x)) = Some (fst x)) \<and>
     (\<forall>k g. co_active c k = Some g \<longrightarrow> (\<exists>l. (g, l) \<in> set (co_running c) \<and> ShardID l = k)) \<and>
     co_shardsOwned c = int (length (co_running c)) \<and>
     (co_stopped c \<longrightarrow> fst ` set (co_running c) \<subseteq> set (co_draining c)) \<and>
     (\<forall>l. p = Some l \<longrightarrow> co_active c (ShardID l) = None)"

lemma pollers_invI:
  assumes "distinct (map fst (co_running c))" "distinct (map (ShardID \<circ> snd) (co_running c))"
    and "\<And>x. x \<in> set (co_running c) \<Longrightarrow> fst x < co_next c \<and> co_active c (ShardID (snd x)) = Some (fst x)"
    and "\<And>k g. co_active c k = Some g \<Longrightarrow> \<exists>l. (g, l) \<in> set (co_running c) \<and> ShardID l = k"
    and "co_shardsOwned c = int (length (co_running c))"
    and "co_stopped c \<Longrightarrow> fst ` set (co_running c) \<subseteq> set (co_draining c)"
    and "\<And>l. p = Some l \<Longrightarrow> co_active c (ShardID l) = None"
  shows "pollers_inv c p"
  using assms unfolding pollers_inv_def by blast

lemma pollers_inv_frame:
  "pollers_inv c p \<Longrightarrow> co_running c' = co_running c \<Longrightarrow> co_active c' = co_active c \<Longrightarrow> co_next c' = co_next c \<Longrightarrow>
     co_shardsOwned c' = co_shardsOwned c \<Longrightarrow> co_stopped c' = co_stopped c \<Longrightarrow>
     set (co_draining c) \<subseteq> set (co_draining c') \<Longrightarrow> pollers_inv c' p"
  unfolding pollers_inv_def by (simp, blast)

lemma pollers_discover:
  "discoverShards env c w = Some (e, c', w') \<Longrightarrow> pollers_inv c p \<Longrightarrow> pollers_inv c' p"
  by (auto simp: discoverShards_def split: option.splits sum.splits prod.splits elim: pollers_inv_frame)

lemma pollers_refresh: "pollers_inv c p \<Longrightarrow> pollers_inv (refreshObservations leases now c) p"
  by (auto simp: refreshObservations_def Let_def elim: pollers_inv_frame)

lemma pollers_cleanup: "cleanup_one env l (c, w) = (c', w') \<Longrightarrow> pollers_inv c p \<Longrightarrow> pollers_inv c' p"
  by (auto simp: cleanup_one_def bump_absent_def Let_def split: if_splits prod.splits option.splits
      elim!: pollers_inv_frame)

lemma pollers_release: "pollers_inv c p \<Longrightarrow> pollers_inv (releasePoller k c) p"
  by (auto simp: releasePoller_def count_event_def split: option.splits elim: pollers_inv_frame)

lemma pollers_stop: "pollers_inv c p \<Longrightarrow> pollers_inv (drainAndStop c) p"
  unfolding pollers_inv_def by (auto simp: drainAndStop_def)

lemma pollers_install:
  assumes "pollers_inv c (Some l)" "startPoller env l c w = (c', w')"
  shows "pollers_inv c' None"
proof (cases "co_stopped c")
  case True
  with assms show ?thesis by (auto simp: startPoller_def pollers_inv_def)
next
  case False
  with assms(2) have c': "c' = c\<lparr>co_active := (co_active c)(ShardID l \<mapsto> co_next c), co_next := co_next c + 1,
      co_running := (co_next c, l) # co_running c, co_shardsOwned := co_shardsOwned c + 1\<rparr>"
    by (simp add: startPoller_def)
  from assms(1) have fresh: "\<forall>x\<in>set (co_running c). ShardID (snd x) \<noteq> ShardID l"
    by (auto simp: pollers_inv_def)
  with assms(1) False show ?thesis
    unfolding c' pollers_inv_def by (auto simp: less_Suc_eq image_iff) blast+
qed

lemma drop_key_length:
  assumes "distinct (map fst xs)" "g \<in> fst ` set xs"
  shows "Suc (length (filter (\<lambda>x. fst x \<noteq> g) xs)) = length xs"
  using assms
proof (induction xs)
  case (Cons x xs)
  show ?case
  proof (cases "fst x = g")
    case True
    then have "\<forall>x\<in>set xs. fst x \<noteq> g" using Cons.prems(1) by (simp, metis image_eqI)
    then have "filter (\<lambda>x. fst x \<noteq> g) xs = xs" by (simp add: filter_id_conv)
    with True show ?thesis by simp
  next
    case False
    then have "g \<in> fst ` set xs" using Cons.prems(2) by auto
    with Cons.IH Cons.prems(1) have "Suc (length (filter (\<lambda>x. fst x \<noteq> g) xs)) = length xs" by simp
    with False show ?thesis by simp
  qed
qed simp

lemma pollers_exit:
  assumes "pollers_inv c p"
  shows "pollers_inv (poller_exit g c) p"
proof (cases "map_of (co_running c) g")
  case (Some l)
  then have run: "(g, l) \<in> set (co_running c)" by (rule map_of_SomeD)
  with assms have act: "co_active c (ShardID l) = Some g" by (auto simp: pollers_inv_def)
  have others: "x \<in> set (co_running c) \<Longrightarrow> fst x \<noteq> g \<Longrightarrow> ShardID (snd x) \<noteq> ShardID l" for x
    using assms act by (auto simp: pollers_inv_def)
  have dist: "distinct (map fst (co_running c))" using assms by (simp add: pollers_inv_def)
  moreover have "g \<in> fst ` set (co_running c)" using run by force
  ultimately have "Suc (length (filter (\<lambda>x. fst x \<noteq> g) (co_running c))) = length (co_running c)"
    by (rule drop_key_length)
  then have len: "int (length (filter (\<lambda>x. fst x \<noteq> g) (co_running c))) = int (length (co_running c)) - 1"
    by linarith
  let ?c' = "poller_exit g c"
  have f: "co_running ?c' = filter (\<lambda>x. fst x \<noteq> g) (co_running c)" "co_active ?c' = (co_active c)(ShardID l := None)"
    "co_shardsOwned ?c' = co_shardsOwned c - 1" "co_next ?c' = co_next c" "co_stopped ?c' = co_stopped c"
    "co_draining ?c' = co_draining c"
    using Some act by (simp_all add: poller_exit_def)
  let ?run = "filter (\<lambda>x. fst x \<noteq> g) (co_running c)" and ?act = "(co_active c)(ShardID l := None)"
  have kept: "fst x < co_next c \<and> ?act (ShardID (snd x)) = Some (fst x)" if "x \<in> set ?run" for x
    using assms others that by (auto simp: pollers_inv_def)
  have named: "\<exists>l'. (g', l') \<in> set ?run \<and> ShardID l' = k" if k: "?act k = Some g'" for k g'
  proof -
    from k have "co_active c k = Some g'" "k \<noteq> ShardID l" by (auto split: if_splits)
    with assms obtain l' where l': "(g', l') \<in> set (co_running c)" "ShardID l' = k"
      unfolding pollers_inv_def by blast
    with dist run \<open>k \<noteq> ShardID l\<close> have "g' \<noteq> g" by (auto dest: eq_key_imp_eq_value)
    with l' show ?thesis by auto
  qed
  from assms have rest: "distinct (map (ShardID \<circ> snd) ?run)" "co_shardsOwned c = int (length (co_running c))"
      "co_stopped c \<Longrightarrow> fst ` set ?run \<subseteq> set (co_draining c)" "\<forall>l'. p = Some l' \<longrightarrow> ?act (ShardID l') = None"
    by (auto simp: pollers_inv_def distinct_map_filter simp del: map_map)
  show ?thesis
  proof (rule pollers_invI, unfold f)
    show "fst x < co_next c \<and> ?act (ShardID (snd x)) = Some (fst x)" if "x \<in> set ?run" for x
      using kept [OF that] .
    show "\<exists>l'. (g', l') \<in> set ?run \<and> ShardID l' = k" if "?act k = Some g'" for k g'
      using named [OF that] .
    show "fst ` set ?run \<subseteq> set (co_draining c)" if "co_stopped c" using rest(3) [OF that] .
    show "?act (ShardID l') = None" if "p = Some l'" for l' using rest(4) that by blast
  qed (use rest(1,2) len distinct_map_filter [OF dist] in simp_all)
qed (use assms in \<open>simp add: poller_exit_def\<close>)

context lease_store begin

lemma claim_free:
  assumes "ce_store env = st" "inv w" "claim env l event c w = (Some taken, c', w')"
  shows "co_active c' (ShardID taken) = None"
proof -
  from assms(1,3) have own: "co_active c (ShardID l) = None"
    and acq: "st_Acquire st (ShardID l) (ce_workerID env) (Counter l) w = (Inr taken, w')"
    and c': "c' = count_event (RecordLeaseEvent event resultSuccess) c"
    by (auto simp: claim_def split: if_splits prod.splits sum.splits)
  have "ce_workerID env \<noteq> []" using acq acquire_empty [OF assms(2)] by auto
  from acquire_success(3) [OF assms(2) this acq] own c' show ?thesis by (simp add: count_event_def)
qed

lemma claim_frame:
  "claim env l event c w = (p, c', w') \<Longrightarrow> pollers_inv c None \<Longrightarrow> pollers_inv c' None"
  by (auto simp: claim_def count_event_def split: if_splits prod.splits sum.splits elim: pollers_inv_frame)

lemma coord_pollers:
  assumes "ce_store env = st"
  shows "coord_reach env inv c w p \<Longrightarrow> inv w \<and> pollers_inv c p"
proof (induction rule: coord_reach.induct)
  case (coord_new w)
  then show ?case by (simp add: pollers_inv_def newCoordinator_def)
next
  case (coord_claim c w l event p c' w')
  show ?case
  proof (cases p)
    case None
    have "pollers_inv c' None" using coord_claim.IH by (intro claim_frame [OF coord_claim.hyps(2)]) simp
    with None coord_claim.hyps(3) show ?thesis by simp
  next
    case (Some taken)
    have "pollers_inv c' None" using coord_claim.IH by (intro claim_frame [OF coord_claim.hyps(2)]) simp
    moreover have "co_active c' (ShardID taken) = None"
      by (rule claim_free [OF assms _ coord_claim.hyps(2) [unfolded Some]]) (use coord_claim in blast)
    ultimately show ?thesis using Some coord_claim by (simp add: pollers_inv_def)
  qed
qed (auto intro: pollers_discover pollers_refresh pollers_cleanup pollers_release pollers_stop pollers_install pollers_exit)

end

text \<open>
  C11.  One worker's pollers, in every state its coordinator can reach, whatever pollers exit and
  whenever shutdown comes: no shard is polled twice, the map of handles names exactly the running
  pollers, the owned-shards gauge counts them, and once shutdown has begun every running poller
  has been asked to drain, even one whose lease was won while shutdown began.
\<close>

theorem shutdown_drains_every_poller:
  assumes "lease_store (ce_store env) view ok" "coord_reach env ok c w p"
  shows "distinct (map (ShardID \<circ> snd) (co_running c)) \<and>
    (\<forall>k g. co_active c k = Some g \<longleftrightarrow> (\<exists>l. (g, l) \<in> set (co_running c) \<and> ShardID l = k)) \<and>
    co_shardsOwned c = int (length (co_running c)) \<and>
    (co_stopped c \<longrightarrow> fst ` set (co_running c) \<subseteq> set (co_draining c))"
proof -
  have "pollers_inv c p" using lease_store.coord_pollers [OF assms(1) refl assms(2)] by blast
  then show ?thesis by (force simp: pollers_inv_def)
qed

text \<open>A worker that wins a lease while shutdown begins: no poller starts, and the lease is free again.\<close>

theorem shutdown_drains_every_poller_witness:
  "\<exists>c. coord_reach (memory_env sample_receiver ''w'') keyed_table c [''s'' \<mapsto> sample_lease\<lparr>Owner := [], Counter := 9\<rparr>] None \<and>
     co_stopped c \<and> co_running c = [] \<and> co_shardsOwned c = int (length (co_running c))"
proof -
  let ?env = "memory_env sample_receiver ''w''" and ?t = "[''s'' \<mapsto> sample_lease\<lparr>Owner := []\<rparr>]"
  let ?won = "sample_lease\<lparr>Owner := ''w'', Counter := 8\<rparr>"
  let ?c = "count_event (RecordLeaseEvent leaseAcquire resultSuccess) newCoordinator"
  have k: "keyed_table ?t" "keyed_table [''s'' \<mapsto> ?won]" "keyed_table [''s'' \<mapsto> ?won\<lparr>Owner := [], Counter := 9\<rparr>]"
    by (simp_all add: keyed_table_def sample_lease_def)
  have cl: "claim ?env sample_lease leaseAcquire newCoordinator ?t = (Some ?won, ?c, [''s'' \<mapsto> ?won])"
    by (simp add: claim_def newCoordinator_def memory_env_def memory_store_def MemoryStore_Acquire_def sample_lease_def Let_def)
  have "coord_reach ?env keyed_table ?c [''s'' \<mapsto> ?won] (Some ?won)"
    by (rule coord_claim [where ok = keyed_table, OF coord_new [of keyed_table ?t ?env, OF k(1)] cl k(2)])
  then have r: "coord_reach ?env keyed_table (drainAndStop ?c) [''s'' \<mapsto> ?won] (Some ?won)" by (rule coord_stop)
  have "startPoller ?env ?won (drainAndStop ?c) [''s'' \<mapsto> ?won] =
      (drainAndStop ?c, [''s'' \<mapsto> ?won\<lparr>Owner := [], Counter := 9\<rparr>])"
    by (simp add: startPoller_def drainAndStop_def memory_env_def memory_store_def MemoryStore_Release_def
        MemoryStore_conditionalUpdate_def sample_lease_def)
  from coord_install [where ok = keyed_table, OF r this] k(3)
  have f: "coord_reach ?env keyed_table (drainAndStop ?c) [''s'' \<mapsto> ?won\<lparr>Owner := [], Counter := 9\<rparr>] None" by blast
  have st: "lease_store (ce_store ?env) (\<lambda>s. s) keyed_table"
    unfolding memory_env_def by (simp add: mem.lease_store_axioms)
  have "co_running (drainAndStop ?c) = []" "co_stopped (drainAndStop ?c)"
    by (simp_all add: drainAndStop_def count_event_def newCoordinator_def)
  with shutdown_drains_every_poller [OF st f] f show ?thesis by (auto simp: sample_lease_def)
qed

subsection \<open>A reconcile pass is made of those actions\<close>

context lease_store begin

lemma try_acquire_reach:
  assumes env: "ce_store env = st" "lease_store (ce_exit_store env) view inv"
    and r: "coord_reach env inv c w None" and t: "tryAcquire env l event c w = (c', w')"
  shows "coord_reach env inv c' w' None"
proof -
  have i: "inv w" using coord_pollers [OF env(1) r] by blast
  obtain p c1 w1 where cl: "claim env l event c w = (p, c1, w1)" by (metis prod_cases3)
  have i1: "inv w1"
    using cl i env(1) acquire_empty [OF i] acquire_law [OF i]
    by (cases "ce_workerID env = []") (auto simp: claim_def split: if_splits prod.splits sum.splits)
  note r1 = coord_claim [OF r cl i1]
  show ?thesis
  proof (cases p)
    case None
    with t cl r1 show ?thesis by (simp add: tryAcquire_def)
  next
    case (Some taken)
    with t cl have s: "startPoller env taken c1 w1 = (c', w')" by (simp add: tryAcquire_def)
    have own: "Owner taken \<noteq> []"
    proof -
      from cl Some env(1) have acq: "st_Acquire st (ShardID l) (ce_workerID env) (Counter l) w = (Inr taken, w1)"
        by (auto simp: claim_def split: if_splits prod.splits sum.splits)
      then have "ce_workerID env \<noteq> []" using acquire_empty [OF i] by auto
      with acquire_success(2) [OF i this acq] show ?thesis by simp
    qed
    have "inv w'"
      using s i1 lease_store.release_inv [OF env(2) i1 own] by (auto simp: startPoller_def split: if_splits) (metis prod.collapse)
    with coord_install [OF r1 [unfolded Some] s] show ?thesis by blast
  qed
qed

lemma execute_reach:
  assumes env: "ce_store env = st" "lease_store (ce_exit_store env) view inv" and r: "coord_reach env inv c w None"
    and x: "execute_plan env leases plan c w = (c', w')"
  shows "coord_reach env inv c' w' None"
proof -
  have rel: "coord_reach env inv (fold releasePoller ks c) w None" for ks
    using r by (induction ks arbitrary: c) (auto intro: coord_release)
  have acq: "coord_reach env inv c1 w1 None \<Longrightarrow>
      coord_reach env inv (fst (fold (\<lambda>k cw. tryAcquire env (f k) leaseAcquire (fst cw) (snd cw)) ks (c1, w1)))
        (snd (fold (\<lambda>k cw. tryAcquire env (f k) leaseAcquire (fst cw) (snd cw)) ks (c1, w1))) None" for f ks c1 w1
  proof (induction ks arbitrary: c1 w1)
    case (Cons k ks)
    obtain c2 w2 where t: "tryAcquire env (f k) leaseAcquire c1 w1 = (c2, w2)" by fastforce
    from Cons.IH [OF try_acquire_reach [OF env Cons.prems t]] t show ?case by simp
  qed simp
  let ?cw = "fold (\<lambda>k cw. tryAcquire env (by_id leases k) leaseAcquire (fst cw) (snd cw)) (pr_Acquire plan)
      (fold releasePoller (pr_Release plan) c, w)"
  have mid: "coord_reach env inv (fst ?cw) (snd ?cw) None" by (rule acq [OF rel])
  show ?thesis
  proof (cases "pr_Steal plan = []")
    case True
    with x mid show ?thesis by (simp add: execute_plan_def Let_def)
  next
    case False
    with x have "tryAcquire env (by_id leases (pr_Steal plan)) leaseSteal (fst ?cw) (snd ?cw) = (c', w')"
      by (simp add: execute_plan_def Let_def)
    with try_acquire_reach [OF env mid] show ?thesis by blast
  qed
qed

lemma reconcile_reach:
  assumes env: "ce_store env = st" "lease_store (ce_exit_store env) view inv" and r: "coord_reach env inv c w None"
    and x: "reconcile env ok c w = Some (c', w')"
  shows "coord_reach env inv c' w' None"
proof -
  have i: "inv w" using coord_pollers [OF env(1) r] by blast
  from x obtain res w1 where l: "st_List st w = Some (res, w1)"
    by (auto simp: reconcile_def env(1) split: option.splits)
  have r1: "coord_reach env inv c w1 None"
  proof (cases res)
    case (Inl e)
    with x l have "c' = c" "w' = w1" by (auto simp: reconcile_def env(1))
    with coord_world [OF r] list_law [OF i l] show ?thesis by blast
  next
    case (Inr leases)
    show ?thesis using coord_world [OF r] list_law [OF i l] by blast
  qed
  show ?thesis
  proof (cases res)
    case (Inl e)
    with x l r1 show ?thesis by (auto simp: reconcile_def env(1))
  next
    case (Inr leases)
    let ?c1 = "refreshObservations leases (ce_Now env w1) c"
    obtain c2 w2 where e: "execute_plan env leases (reconcile_plan env (ce_Now env w1) ?c1 leases) ?c1 w1 = (c2, w2)"
      by fastforce
    have r2: "coord_reach env inv c2 w2 None" by (rule execute_reach [OF env coord_refresh [OF r1] e])
    have clean: "coord_reach env inv c2 w2 None \<Longrightarrow> fold (cleanup_one env) ls (c2, w2) = (c3, w3) \<Longrightarrow>
        coord_reach env inv c3 w3 None" for ls c2 w2 c3 w3
    proof (induction ls arbitrary: c2 w2)
      case (Cons a ls)
      obtain c4 w4 where o': "cleanup_one env a (c2, w2) = (c4, w4)" by fastforce
      have "inv w2" using coord_pollers [OF env(1) Cons.prems(1)] by blast
      from cleanup_one_safe(1) [OF env(1) this o'] have "inv w4" .
      from Cons.IH [OF coord_cleanup [OF Cons.prems(1) o' this]] Cons.prems(2) o' show ?case by simp
    qed simp
    from x l Inr e have "(if ok then cleanupOrphans env leases c2 w2 else (c2, w2)) = (c', w')"
      by (cases ok) (simp_all add: reconcile_def env(1) Let_def case_prod_beta)
    with r2 clean [OF r2] show ?thesis by (auto simp: cleanupOrphans_def split: if_splits)
  qed
qed

end

end
