(* ===== verification/Reconcile.thy ===== *)
theory Reconcile
  imports Coordinator
begin

section \<open>The coordinator's loop (coordinator.go, run)\<close>

text \<open>
  The loop of \<^verbatim>\<open>coordinator.run\<close>: one reconcile pass at once, then discovery and a pass per tick.
  The lemmas follow a pass from the lease table it read to the pollers it started; the theorem
  is what keeps the records of a resharded stream in order: no shard is polled before its parents
  have been read to their end.
\<close>

fun run_ticks :: "'w coordinator_env \<Rightarrow> nat \<Rightarrow> coordinator \<Rightarrow> 'w \<Rightarrow> (coordinator \<times> 'w) option" where
  "run_ticks env 0 c w = Some (c, w)"
| "run_ticks env (Suc n) c w = Option.bind (run_tick env c w) (\<lambda>(c', w'). run_ticks env n c' w')"

text \<open>\<open>live\<close>: the discovery context is not cancelled yet; \<open>n\<close> is the number of ticks before it is.\<close>

definition coordinator_run :: "'w coordinator_env \<Rightarrow> bool \<Rightarrow> nat \<Rightarrow> coordinator \<Rightarrow> 'w \<Rightarrow> (coordinator \<times> 'w) option" where
  "coordinator_run env live n c w =
     (if \<not> live then Some (c, w)
      else Option.bind (reconcile env True c w) (\<lambda>(c', w'). run_ticks env n c' w'))"

subsection \<open>The snapshot of a pass\<close>

lemma fold_by_key:
  assumes "distinct (map ShardID ls)" "row \<in> set ls"
  shows "fold (\<lambda>l m. m(ShardID l := f l)) ls m (ShardID row) = f row"
  using assms
proof (induction ls arbitrary: m)
  case (Cons l ls)
  have other: "fold (\<lambda>l m. m(ShardID l := f l)) xs m' (ShardID k) = m' (ShardID k)"
    if "ShardID k \<notin> ShardID ` set xs" for k xs m'
    using that by (induction xs arbitrary: m') auto
  show ?case
  proof (cases "row = l")
    case True
    with Cons.prems(1) other [of l ls] show ?thesis by (simp del: fun_upd_apply add: fun_upd_same)
  next
    case False
    with Cons show ?thesis by (simp del: fun_upd_apply)
  qed
qed simp

lemma by_id_row: "distinct (map ShardID ls) \<Longrightarrow> row \<in> set ls \<Longrightarrow> by_id ls (ShardID row) = row"
  unfolding by_id_def by (rule fold_by_key)

lemma checkpoint_of_row:
  "distinct (map ShardID ls) \<Longrightarrow> row \<in> set ls \<Longrightarrow> indexCheckpoints ls (ShardID row) = Some (Checkpoint row)"
  unfolding indexCheckpoints_def by (rule fold_by_key)

lemma drained_row:
  assumes "distinct (map ShardID ls)" "row \<in> set ls" "drained_map ls (ShardID row)"
    and "p \<in> set (ParentIDs row)" "q \<in> set ls" "ShardID q = p"
  shows "Checkpoint q = CheckpointShardEnd"
proof -
  have "parentsDrained row (indexCheckpoints ls)"
    using assms(3) unfolding drained_map_def fold_by_key [OF assms(1,2)] .
  with checkpoint_of_row [OF assms(1,5)] assms(4,6) show ?thesis
    by (auto simp: parentsDrained_def list_all_iff)
qed

lemma plan_members:
  assumes "s \<in> set (pr_Acquire (Plan inp)) \<or> s = pr_Steal (Plan inp) \<and> s \<noteq> []"
  shows "\<exists>row\<in>set (pi_Leases inp). ShardID row = s \<and> Checkpoint row \<noteq> CheckpointShardEnd \<and> pi_Drained inp s"
proof (cases rule: Plan_cases [of inp])
  case short
  let ?act = "activeShards (pi_Leases inp)"
  from assms consider "s \<in> set (pr_Acquire (Plan inp))" | "pickStealTarget ?act inp (plan_target inp) = s" "s \<noteq> ''''"
    using short by auto
  then show ?thesis
  proof cases
    case 1
    then show ?thesis
      using short acquire_loop_spec [of inp "plan_target inp - int (length (my_shards inp))" ?act]
      by (fastforce simp: activeShards_def acquirable_def)
  next
    case 2
    then show ?thesis
      by (rule steal_spec [OF _ _ plan_target_nonneg]) (auto simp: activeShards_def)
  qed
qed (use assms acquire_loop_spec [of inp "plan_target inp - int (length (my_shards inp))" "activeShards (pi_Leases inp)"]
     in \<open>fastforce simp: activeShards_def acquirable_def\<close>)+

subsection \<open>The pollers a pass starts\<close>

definition started_for :: "'w coordinator_env \<Rightarrow> coordinator \<Rightarrow> coordinator \<Rightarrow> lease \<Rightarrow> bool" where
  "started_for env c c' row \<longleftrightarrow>
     (\<forall>x\<in>set (co_running c') - set (co_running c).
        ShardID (snd x) = ShardID row \<and> Owner (snd x) = ce_workerID env \<and> Counter (snd x) = Counter row + 1 \<and>
        co_active c (ShardID row) = None)"

context lease_store begin

lemma try_running:
  assumes "ce_store env = st" "inv w" "\<not> co_stopped c" "tryAcquire env row event c w = (c', w')"
  shows "inv w' \<and> \<not> co_stopped c' \<and> (\<forall>k. co_active c' k = None \<longrightarrow> co_active c k = None) \<and> started_for env c c' row"
proof -
  obtain p c1 w1 where cl: "claim env row event c w = (p, c1, w1)" by (metis prod_cases3)
  show ?thesis
  proof (cases p)
    case None
    with assms cl have "c' = c1" "w' = w1" by (simp_all add: tryAcquire_def)
    moreover have "inv w1"
      using cl assms(1,2) acquire_empty [OF assms(2)] acquire_law [OF assms(2)]
      by (cases "ce_workerID env = []") (auto simp: claim_def split: if_splits prod.splits sum.splits)
    ultimately show ?thesis
      using cl None assms(3)
      by (auto simp: claim_def started_for_def count_event_def split: if_splits prod.splits sum.splits)
  next
    case (Some taken)
    with cl assms(1) have acq: "st_Acquire st (ShardID row) (ce_workerID env) (Counter row) w = (Inr taken, w1)"
      and own: "co_active c (ShardID row) = None"
      and c1: "c1 = count_event (RecordLeaseEvent event resultSuccess) c"
      by (auto simp: claim_def split: if_splits prod.splits sum.splits)
    have ne: "ce_workerID env \<noteq> []" using acq acquire_empty [OF assms(2)] by auto
    note won = acquire_success [OF assms(2) ne acq]
    from assms(4) cl Some assms(3) c1 show ?thesis
      using own won(2,3,5) acquire_law [OF assms(2) ne acq]
      by (auto simp: tryAcquire_def startPoller_def count_event_def started_for_def split: if_splits)
  qed
qed

lemma acquires_running:
  assumes "ce_store env = st" "inv w" "\<not> co_stopped c"
    and "fold (\<lambda>k cw. tryAcquire env (f k) leaseAcquire (fst cw) (snd cw)) ks (c, w) = (c', w')"
  shows "inv w' \<and> \<not> co_stopped c' \<and> (\<forall>k. co_active c' k = None \<longrightarrow> co_active c k = None) \<and>
    (\<forall>x\<in>set (co_running c') - set (co_running c). \<exists>k\<in>set ks.
       ShardID (snd x) = ShardID (f k) \<and> Owner (snd x) = ce_workerID env \<and> Counter (snd x) = Counter (f k) + 1 \<and>
       co_active c (ShardID (f k)) = None)"
  using assms(2-)
proof (induction ks arbitrary: c w)
  case (Cons k ks)
  obtain c1 w1 where t: "tryAcquire env (f k) leaseAcquire c w = (c1, w1)" by fastforce
  note one = try_running [OF assms(1) Cons.prems(1,2) t]
  from Cons.prems(3) t have rest: "fold (\<lambda>k cw. tryAcquire env (f k) leaseAcquire (fst cw) (snd cw)) ks (c1, w1) = (c', w')"
    by simp
  from one Cons.IH [OF _ _ rest] have ih: "inv w' \<and> \<not> co_stopped c' \<and> (\<forall>k. co_active c' k = None \<longrightarrow> co_active c1 k = None) \<and>
    (\<forall>x\<in>set (co_running c') - set (co_running c1). \<exists>k\<in>set ks.
       ShardID (snd x) = ShardID (f k) \<and> Owner (snd x) = ce_workerID env \<and> Counter (snd x) = Counter (f k) + 1 \<and>
       co_active c1 (ShardID (f k)) = None)" by blast
  show ?case
  proof (intro conjI ballI)
    fix x assume x: "x \<in> set (co_running c') - set (co_running c)"
    show "\<exists>k\<in>set (k # ks). ShardID (snd x) = ShardID (f k) \<and> Owner (snd x) = ce_workerID env \<and>
        Counter (snd x) = Counter (f k) + 1 \<and> co_active c (ShardID (f k)) = None"
    proof (cases "x \<in> set (co_running c1)")
      case True
      with x one show ?thesis by (auto simp: started_for_def)
    next
      case False
      with x ih one show ?thesis by fastforce
    qed
  qed (use ih one in blast)+
qed simp

end

lemma released_frame:
  "co_running (fold releasePoller ks c) = co_running c \<and> co_active (fold releasePoller ks c) = co_active c \<and>
     co_stopped (fold releasePoller ks c) = co_stopped c"
  by (induction ks arbitrary: c) (auto simp: releasePoller_def count_event_def split: option.splits)

lemma cleanup_running: "co_running (fst (cleanupOrphans env leases c w)) = co_running c"
proof -
  have "co_running (fst (fold (cleanup_one env) ls cw)) = co_running (fst cw)" for ls and cw :: "coordinator \<times> 'a"
    by (induction ls arbitrary: cw)
      (auto simp: cleanup_one_def bump_absent_def Let_def split: if_splits prod.splits option.splits)
  from this [of leases "(c, w)"] show ?thesis by (simp add: cleanupOrphans_def)
qed

lemma stopped_starts_nothing:
  "co_stopped c \<Longrightarrow> tryAcquire env row event c w = (c', w') \<Longrightarrow> co_running c' = co_running c \<and> co_stopped c'"
  by (auto simp: tryAcquire_def claim_def startPoller_def count_event_def split: if_splits prod.splits sum.splits)

lemma stopped_acquires_nothing:
  "co_stopped c \<Longrightarrow> fold (\<lambda>k cw. tryAcquire env (f k) leaseAcquire (fst cw) (snd cw)) ks (c, w) = (c', w') \<Longrightarrow>
     co_running c' = co_running c \<and> co_stopped c'"
proof (induction ks arbitrary: c w)
  case (Cons k ks)
  obtain c1 w1 where t: "tryAcquire env (f k) leaseAcquire c w = (c1, w1)" by fastforce
  from stopped_starts_nothing [OF Cons.prems(1) t] Cons.IH [of c1 w1] Cons.prems(2) t show ?case by simp
qed simp

context lease_store begin

lemma execute_running:
  assumes "ce_store env = st" "inv w" "execute_plan env leases plan c w = (c', w')"
    and "x \<in> set (co_running c') - set (co_running c)"
  shows "\<exists>k. (k \<in> set (pr_Acquire plan) \<or> k = pr_Steal plan \<and> k \<noteq> []) \<and>
    ShardID (snd x) = ShardID (by_id leases k) \<and> Owner (snd x) = ce_workerID env \<and>
    Counter (snd x) = Counter (by_id leases k) + 1 \<and> co_active c (ShardID (by_id leases k)) = None"
proof -
  let ?c0 = "fold releasePoller (pr_Release plan) c"
  note c0 = released_frame [of "pr_Release plan" c]
  obtain c1 w1 where a: "fold (\<lambda>k cw. tryAcquire env (by_id leases k) leaseAcquire (fst cw) (snd cw)) (pr_Acquire plan) (?c0, w) = (c1, w1)"
    by fastforce
  from assms(3) a have s: "if pr_Steal plan \<noteq> [] then tryAcquire env (by_id leases (pr_Steal plan)) leaseSteal c1 w1 = (c', w')
      else (c1, w1) = (c', w')"
    by (simp add: execute_plan_def Let_def split: if_splits)
  show ?thesis
  proof (cases "co_stopped c")
    case True
    then have "co_running c1 = co_running c \<and> co_stopped c1" using stopped_acquires_nothing [OF _ a] c0 by simp
    then have "co_running c' = co_running c" using s stopped_starts_nothing [of c1 env "by_id leases (pr_Steal plan)" leaseSteal w1 c' w'] by (auto split: if_splits)
    with assms(4) show ?thesis by simp
  next
    case False
    then have "\<not> co_stopped ?c0" using c0 by simp
    note acq = acquires_running [OF assms(1,2) this a]
    show ?thesis
    proof (cases "x \<in> set (co_running c1)")
      case True
      with assms(4) c0 have "x \<in> set (co_running c1) - set (co_running ?c0)" by simp
      with acq obtain k where "k \<in> set (pr_Acquire plan)" "ShardID (snd x) = ShardID (by_id leases k)"
        "Owner (snd x) = ce_workerID env" "Counter (snd x) = Counter (by_id leases k) + 1"
        "co_active ?c0 (ShardID (by_id leases k)) = None" by blast
      with c0 show ?thesis by auto
    next
      case False
      with s assms(4) have t: "pr_Steal plan \<noteq> []" "tryAcquire env (by_id leases (pr_Steal plan)) leaseSteal c1 w1 = (c', w')"
        by (auto split: if_splits)
      from acq have "inv w1" "\<not> co_stopped c1" by blast+
      from try_running [OF assms(1) this t(2)] have "started_for env c1 c' (by_id leases (pr_Steal plan))" by blast
      with False assms(4) have f: "ShardID (snd x) = ShardID (by_id leases (pr_Steal plan))"
        "Owner (snd x) = ce_workerID env" "Counter (snd x) = Counter (by_id leases (pr_Steal plan)) + 1"
        "co_active c1 (ShardID (by_id leases (pr_Steal plan))) = None"
        unfolding started_for_def by blast+
      with acq c0 have "co_active c (ShardID (by_id leases (pr_Steal plan))) = None" by metis
      with f t(1) show ?thesis by blast
    qed
  qed
qed

end

text \<open>
  C6.  No shard is polled before its parents are done: every poller that a reconcile pass starts is
  for a shard whose row, in the lease table the pass read, was open, with each parent that is in
  the table at SHARD_END; this worker was not polling it, and the poller holds the token of the
  conditional acquire against that very row.
\<close>

theorem reconcile_waits_for_parents:
  assumes "lease_store (ce_store env) view ok" "ok w"
    and "st_List (ce_store env) w = Some (Inr leases, w1)" "distinct (map ShardID leases)"
    and "reconcile env discoveryOK c w = Some (c', w')"
    and "(g, l) \<in> set (co_running c') - set (co_running c)"
  shows "\<exists>row\<in>set leases. ShardID row = ShardID l \<and> Checkpoint row \<noteq> CheckpointShardEnd \<and>
    (\<forall>parent\<in>set leases. ShardID parent \<in> set (ParentIDs row) \<longrightarrow> Checkpoint parent = CheckpointShardEnd) \<and>
    co_active c (ShardID l) = None \<and> Owner l = ce_workerID env \<and> Counter l = Counter row + 1"
proof -
  let ?c1 = "refreshObservations leases (ce_Now env w1) c"
  let ?plan = "reconcile_plan env (ce_Now env w1) ?c1 leases"
  have ok1: "ok w1" using lease_store.list_law [OF assms(1-3)] by blast
  have c1: "co_running ?c1 = co_running c" "co_active ?c1 = co_active c" by (simp_all add: refreshObservations_def Let_def)
  obtain c2 w2 where e: "execute_plan env leases ?plan ?c1 w1 = (c2, w2)" by fastforce
  have "co_running c' = co_running c2"
    using assms(3,5) e cleanup_running [of env leases c2 w2] by (cases discoveryOK) (auto simp: reconcile_def Let_def)
  with assms(6) c1 have new: "(g, l) \<in> set (co_running c2) - set (co_running ?c1)" by simp
  from lease_store.execute_running [OF assms(1) refl ok1 e new] obtain k where
    k: "k \<in> set (pr_Acquire ?plan) \<or> k = pr_Steal ?plan \<and> k \<noteq> []"
      "ShardID l = ShardID (by_id leases k)" "Owner l = ce_workerID env" "Counter l = Counter (by_id leases k) + 1"
      "co_active c (ShardID (by_id leases k)) = None"
    using c1 by auto
  from plan_members [OF k(1) [unfolded reconcile_plan_def]] obtain row where
    row: "row \<in> set leases" "ShardID row = k" "Checkpoint row \<noteq> CheckpointShardEnd" "drained_map leases (ShardID row)"
    by auto
  with by_id_row [OF assms(4) row(1)] have "by_id leases k = row" by simp
  with k row drained_row [OF assms(4) row(1,4)] show ?thesis by (intro bexI [of _ row]) auto
qed

text \<open>A resharded stream: the parent is read to its end, so a pass starts on its child.\<close>

definition resharded :: lease_table where
  "resharded = [''child'' \<mapsto> \<lparr>ShardID = ''child'', Owner = [], Counter = 3, Checkpoint = CheckpointTrimHorizon, ParentIDs = [''old'']\<rparr>,
     ''old'' \<mapsto> closed_lease]"

abbreviation reshard_env :: "lease_table coordinator_env" where
  "reshard_env \<equiv> (memory_env sample_receiver ''w'')\<lparr>ce_store := memory_store (\<lambda>t. [''child'', ''old''])\<rparr>"

theorem reconcile_waits_for_parents_witness:
  "\<exists>c' w' l. reconcile reshard_env True newCoordinator resharded = Some (c', w') \<and> (0, l) \<in> set (co_running c') \<and>
     ShardID l = ''child'' \<and> Owner l = ''w'' \<and> Counter l = 4"
proof -
  let ?leases = "[\<lparr>ShardID = ''child'', Owner = [], Counter = 3, Checkpoint = CheckpointTrimHorizon, ParentIDs = [''old'']\<rparr>, closed_lease]"
  let ?l = "\<lparr>ShardID = ''child'', Owner = ''w'', Counter = 4, Checkpoint = CheckpointTrimHorizon, ParentIDs = [''old'']\<rparr>"
  have "map_option (\<lambda>(c, w). co_running c) (reconcile reshard_env True newCoordinator resharded) = Some [(0, ?l)]"
    by code_simp
  then obtain c' w' where r: "reconcile reshard_env True newCoordinator resharded = Some (c', w')" "co_running c' = [(0, ?l)]"
    by auto
  have st: "lease_store (ce_store reshard_env) (\<lambda>s. s) keyed_table" by (simp add: mem.lease_store_axioms)
  have ok: "keyed_table resharded" by (simp add: keyed_table_def resharded_def)
  have l: "st_List (ce_store reshard_env) resharded = Some (Inr ?leases, resharded)"
    by (simp add: memory_store_def MemoryStore_List_def resharded_def cloneLease_def List.map_filter_def)
  have new: "(0, ?l) \<in> set (co_running c') - set (co_running newCoordinator)" using r(2) by (simp add: newCoordinator_def)
  have "Owner ?l = ce_workerID reshard_env"
    using reconcile_waits_for_parents [OF st ok l _ r(1) new] by auto
  with r show ?thesis by auto
qed

subsection \<open>The loop\<close>

context lease_store begin

lemma pages_inv:
  assumes keeps: "\<forall>input w. inv w \<longrightarrow> inv (snd (ce_ListShards env input w))"
    and l: "list_shard_pages env0 token shards w = Some r"
  shows "env0 = env \<longrightarrow> inv w \<longrightarrow> inv (snd r)"
proof (rule list_shard_pages.raw_induct [where P = "\<lambda>e t s w r. e = env \<longrightarrow> inv w \<longrightarrow> inv (snd r)", OF _ l], intro impI)
  fix pages :: "'s coordinator_env \<Rightarrow> string option \<Rightarrow> Shard list \<Rightarrow> 's \<Rightarrow> ((err + Shard list) \<times> 's) option" and e t ss w r
  assume ih: "\<And>e t ss w r. pages e t ss w = Some r \<Longrightarrow> e = env \<longrightarrow> inv w \<longrightarrow> inv (snd r)" and "e = env" "inv w"
    and step: "(case ce_ListShards e (case t of None \<Rightarrow> ByStreamName (rc_StreamName (ce_cfg e)) | Some t \<Rightarrow> ByNextToken t) w of
        (Inl x, w') \<Rightarrow> Some (Inl x, w')
      | (Inr out, w') \<Rightarrow>
          if lo_NextToken out = None \<or> ToString (lo_NextToken out) = [] then Some (Inr (ss @ lo_Shards out), w')
          else pages e (lo_NextToken out) (ss @ lo_Shards out) w') = Some r"
  from keeps \<open>inv w\<close> have k: "inv (snd (ce_ListShards env input w))" for input by blast
  from step k [of "case t of None \<Rightarrow> ByStreamName (rc_StreamName (ce_cfg e)) | Some t \<Rightarrow> ByNextToken t"] \<open>e = env\<close>
  show "inv (snd r)"
    by (auto split: sum.splits prod.splits if_splits dest: ih)
qed

lemma ensure_all_inv: "ce_store env = st \<Longrightarrow> inv w \<Longrightarrow> ensure_all env ss w = (e, w') \<Longrightarrow> inv w'"
proof (induction ss arbitrary: w)
  case (Cons s ss)
  then show ?case using ensure_law [OF Cons.prems(2)] by (fastforce split: prod.splits option.splits)
qed simp

lemma discover_inv:
  assumes "ce_store env = st" and keeps: "\<forall>input w. inv w \<longrightarrow> inv (snd (ce_ListShards env input w))"
    and "inv w" "discoverShards env c w = Some (e, c', w')"
  shows "inv w'"
proof -
  from assms(4) obtain r w1 where l: "list_shard_pages env None [] w = Some (r, w1)"
    by (auto simp: discoverShards_def listShards_def split: option.splits)
  have "inv w1" using pages_inv [OF keeps l] assms(3) by simp
  with assms(4) l show ?thesis
    using ensure_all_inv [OF assms(1)]
    by (auto simp: discoverShards_def listShards_def split: sum.splits prod.splits option.splits)
qed

lemma tick_reach:
  assumes env: "ce_store env = st" "lease_store (ce_exit_store env) view inv"
    and keeps: "\<forall>input w. inv w \<longrightarrow> inv (snd (ce_ListShards env input w))"
    and r: "coord_reach env inv c w None" and x: "run_tick env c w = Some (c', w')"
  shows "coord_reach env inv c' w' None"
proof -
  from x obtain e c1 w1 where d: "discoverShards env c w = Some (e, c1, w1)" "reconcile env (e = None) c1 w1 = Some (c', w')"
    by (auto simp: run_tick_def split: option.splits)
  have "inv w" using coord_pollers [OF env(1) r] by blast
  then have "inv w1" by (rule discover_inv [OF env(1) keeps _ d(1)])
  from reconcile_reach [OF env coord_discover [OF r d(1) this] d(2)] show ?thesis .
qed

lemma ticks_reach:
  assumes env: "ce_store env = st" "lease_store (ce_exit_store env) view inv"
    and keeps: "\<forall>input w. inv w \<longrightarrow> inv (snd (ce_ListShards env input w))"
  shows "coord_reach env inv c w None \<Longrightarrow> run_ticks env n c w = Some (c', w') \<Longrightarrow> coord_reach env inv c' w' None"
proof (induction n arbitrary: c w)
  case (Suc n)
  from Suc.prems(2) obtain c1 w1 where "run_tick env c w = Some (c1, w1)" "run_ticks env n c1 w1 = Some (c', w')"
    by (auto simp: bind_eq_Some_conv)
  with tick_reach [OF env keeps Suc.prems(1)] Suc.IH show ?case by blast
qed simp

end



end
