(* ===== verification/Telemetry.thy ===== *)
theory Telemetry
  imports Sending Poller
begin

section \<open>Self-telemetry (telemetry.go of both components)\<close>

text \<open>
  \<^verbatim>\<open>exporter/awskinesisexporter/telemetry.go\<close> and \<^verbatim>\<open>receiver/awskinesisreceiver/telemetry.go\<close>.  The
  metrics library is a parameter: \<open>meter\<close> answers whether an instrument could be created.  An
  instrument is the name, kind and unit it was created with, and what a component records is a
  list of measurements; a float64 is passed through as its bits.  The lemmas tie these to the events of the other theories: what an
  export dropped, truncated and sent, and what a poller and the coordinator counted.
\<close>

datatype instrument_kind = Int64Counter | Int64UpDownCounter | Int64Histogram | Float64Histogram

record instrument =
  in_kind :: instrument_kind
  in_name :: string
  in_unit :: string

type_synonym meter = "instrument \<Rightarrow> err option"

datatype amount = IntAmount int64 | FloatAmount "64 word"

record measurement =
  ms_instrument :: instrument
  ms_amount :: amount
  ms_attributes :: "(string \<times> string) list"

text \<open>Creating an instrument, or the error wrapped with what was being created.\<close>

definition create :: "meter \<Rightarrow> string \<Rightarrow> instrument_kind \<Rightarrow> string \<Rightarrow> string \<Rightarrow> (string \<times> err) + instrument" where
  "create mp what kind name u =
     (let i = \<lparr>in_kind = kind, in_name = name, in_unit = u\<rparr>
      in case mp i of Some e \<Rightarrow> Inl (what, e) | None \<Rightarrow> Inr i)"

subsection \<open>The exporter\<close>

record exporterTelemetry =
  et_recordsDropped :: instrument
  et_attributesTruncated :: instrument
  et_batchRecords :: instrument
  et_batchBytes :: instrument
  et_flushDuration :: instrument

definition newExporterTelemetry :: "meter \<Rightarrow> (string \<times> err) + exporterTelemetry" where
  "newExporterTelemetry mp =
     (case create mp ''dropped counter'' Int64Counter ''kinesis.exporter.records_dropped'' ''{item}'' of
        Inl e \<Rightarrow> Inl e | Inr dropped \<Rightarrow>
      case create mp ''attributes_truncated counter'' Int64Counter ''kinesis.exporter.attributes_truncated'' ''{attribute}'' of
        Inl e \<Rightarrow> Inl e | Inr truncated \<Rightarrow>
      case create mp ''batch records histogram'' Int64Histogram ''kinesis.exporter.batch.records'' ''{record}'' of
        Inl e \<Rightarrow> Inl e | Inr batchRecords \<Rightarrow>
      case create mp ''batch bytes histogram'' Int64Histogram ''kinesis.exporter.batch.bytes'' ''By'' of
        Inl e \<Rightarrow> Inl e | Inr batchBytes \<Rightarrow>
      case create mp ''flush duration histogram'' Float64Histogram ''kinesis.exporter.flush.duration_ms'' ''ms'' of
        Inl e \<Rightarrow> Inl e | Inr flushDuration \<Rightarrow>
        Inr \<lparr>et_recordsDropped = dropped, et_attributesTruncated = truncated, et_batchRecords = batchRecords,
             et_batchBytes = batchBytes, et_flushDuration = flushDuration\<rparr>)"

definition recordDrop :: "exporterTelemetry \<Rightarrow> int \<Rightarrow> string \<Rightarrow> measurement list" where
  "recordDrop t n reason =
     [\<lparr>ms_instrument = et_recordsDropped t, ms_amount = IntAmount (word_of_int n), ms_attributes = [(''reason'', reason)]\<rparr>]"

definition recordTruncated :: "exporterTelemetry \<Rightarrow> int \<Rightarrow> measurement list" where
  "recordTruncated t n =
     [\<lparr>ms_instrument = et_attributesTruncated t, ms_amount = IntAmount (word_of_int n), ms_attributes = []\<rparr>]"

definition recordPut :: "exporterTelemetry \<Rightarrow> nat \<Rightarrow> nat \<Rightarrow> 64 word \<Rightarrow> measurement list" where
  "recordPut t records bytes durationMs =
     [\<lparr>ms_instrument = et_batchRecords t, ms_amount = IntAmount (of_nat records), ms_attributes = []\<rparr>,
      \<lparr>ms_instrument = et_batchBytes t, ms_amount = IntAmount (of_nat bytes), ms_attributes = []\<rparr>,
      \<lparr>ms_instrument = et_flushDuration t, ms_amount = FloatAmount durationMs, ms_attributes = []\<rparr>]"

text \<open>What an export records; \<open>durations\<close> are the latencies of its calls.\<close>

definition export_measurements :: "exporterTelemetry \<Rightarrow> 64 word list \<Rightarrow> export_log \<Rightarrow> measurement list" where
  "export_measurements t durations log =
     concat (map (\<lambda>d. recordDrop t (int (do_count d)) (do_reason d)) (el_drops log)) @
     concat (map (recordTruncated t) (el_truncated log)) @
     concat (map2 (\<lambda>c d. recordPut t (pc_records c) (pc_bytes c) d) (el_calls log) durations)"

subsection \<open>The receiver\<close>

record receiverTelemetry =
  rt_pollRecords :: instrument
  rt_pollBytes :: instrument
  rt_pollDuration :: instrument
  rt_leaseEvents :: instrument
  rt_shardsOwned :: instrument
  rt_deadLetters :: instrument

definition newReceiverTelemetry :: "meter \<Rightarrow> (string \<times> err) + receiverTelemetry" where
  "newReceiverTelemetry mp =
     (case create mp ''poll records histogram'' Int64Histogram ''kinesis.receiver.poll.records'' ''{record}'' of
        Inl e \<Rightarrow> Inl e | Inr pollRecords \<Rightarrow>
      case create mp ''poll bytes histogram'' Int64Histogram ''kinesis.receiver.poll.bytes'' ''By'' of
        Inl e \<Rightarrow> Inl e | Inr pollBytes \<Rightarrow>
      case create mp ''poll duration histogram'' Float64Histogram ''kinesis.receiver.poll.duration_ms'' ''ms'' of
        Inl e \<Rightarrow> Inl e | Inr pollDuration \<Rightarrow>
      case create mp ''lease events counter'' Int64Counter ''kinesis.receiver.lease.events'' ''{event}'' of
        Inl e \<Rightarrow> Inl e | Inr leaseEvents \<Rightarrow>
      case create mp ''shards owned counter'' Int64UpDownCounter ''kinesis.receiver.shards.owned'' ''{shard}'' of
        Inl e \<Rightarrow> Inl e | Inr shardsOwned \<Rightarrow>
      case create mp ''dead letter counter'' Int64Counter ''kinesis.receiver.dead_letter.records'' ''{record}'' of
        Inl e \<Rightarrow> Inl e | Inr deadLetters \<Rightarrow>
        Inr \<lparr>rt_pollRecords = pollRecords, rt_pollBytes = pollBytes, rt_pollDuration = pollDuration,
             rt_leaseEvents = leaseEvents, rt_shardsOwned = shardsOwned, rt_deadLetters = deadLetters\<rparr>)"

definition recordDeadLetter :: "receiverTelemetry \<Rightarrow> string \<Rightarrow> measurement list" where
  "recordDeadLetter t res =
     [\<lparr>ms_instrument = rt_deadLetters t, ms_amount = IntAmount 1, ms_attributes = [(''result'', res)]\<rparr>]"

definition recordPoll :: "receiverTelemetry \<Rightarrow> nat \<Rightarrow> nat \<Rightarrow> 64 word \<Rightarrow> measurement list" where
  "recordPoll t records bytes durationMs =
     [\<lparr>ms_instrument = rt_pollRecords t, ms_amount = IntAmount (of_nat records), ms_attributes = []\<rparr>,
      \<lparr>ms_instrument = rt_pollBytes t, ms_amount = IntAmount (of_nat bytes), ms_attributes = []\<rparr>,
      \<lparr>ms_instrument = rt_pollDuration t, ms_amount = FloatAmount durationMs, ms_attributes = []\<rparr>]"

definition recordLeaseEvent :: "receiverTelemetry \<Rightarrow> string \<Rightarrow> string \<Rightarrow> measurement list" where
  "recordLeaseEvent t event res =
     [\<lparr>ms_instrument = rt_leaseEvents t, ms_amount = IntAmount 1, ms_attributes = [(''event'', event), (''result'', res)]\<rparr>]"

definition addOwnedShards :: "receiverTelemetry \<Rightarrow> int \<Rightarrow> measurement list" where
  "addOwnedShards t delta =
     [\<lparr>ms_instrument = rt_shardsOwned t, ms_amount = IntAmount (word_of_int delta), ms_attributes = []\<rparr>]"

text \<open>The events of \<open>Poller\<close> and \<open>Coordinator\<close> as measurements; \<open>ms\<close> is the latency of the poll.\<close>

fun event_measurements :: "receiverTelemetry \<Rightarrow> 64 word \<Rightarrow> tel_event \<Rightarrow> measurement list" where
  "event_measurements t ms (RecordPoll n b) = recordPoll t n b ms"
| "event_measurements t ms (RecordLeaseEvent event res) = recordLeaseEvent t event res"
| "event_measurements t ms (RecordDeadLetter res) = recordDeadLetter t res"

subsection \<open>What the instruments show\<close>

text \<open>The integer total of an instrument, as the counter adds it up.\<close>

fun int_amount :: "amount \<Rightarrow> int64" where
  "int_amount (IntAmount n) = n"
| "int_amount (FloatAmount d) = 0"

definition counted :: "string \<Rightarrow> measurement list \<Rightarrow> int64" where
  "counted name xs = sum_list (map (int_amount \<circ> ms_amount) (filter (\<lambda>m. in_name (ms_instrument m) = name) xs))"

lemma counted_append [simp]: "counted n (xs @ ys) = counted n xs + counted n ys"
  by (simp add: counted_def)

lemma counted_Nil [simp]: "counted n [] = 0"
  by (simp add: counted_def)

lemma counted_concat: "counted n (concat xss) = sum_list (map (counted n) xss)"
  by (induction xss) simp_all

lemma exporter_instruments:
  assumes "newExporterTelemetry mp = Inr t"
  shows "in_name (et_recordsDropped t) = ''kinesis.exporter.records_dropped''"
    "in_name (et_attributesTruncated t) = ''kinesis.exporter.attributes_truncated''"
    "in_name (et_batchRecords t) = ''kinesis.exporter.batch.records''"
    "in_name (et_batchBytes t) = ''kinesis.exporter.batch.bytes''"
    "in_name (et_flushDuration t) = ''kinesis.exporter.flush.duration_ms''"
  using assms by (auto simp: newExporterTelemetry_def create_def Let_def split: option.splits)

lemma receiver_instruments:
  assumes "newReceiverTelemetry mp = Inr t"
  shows "in_name (rt_pollRecords t) = ''kinesis.receiver.poll.records''"
    "in_name (rt_pollBytes t) = ''kinesis.receiver.poll.bytes''"
    "in_name (rt_pollDuration t) = ''kinesis.receiver.poll.duration_ms''"
    "in_name (rt_leaseEvents t) = ''kinesis.receiver.lease.events''"
    "in_name (rt_shardsOwned t) = ''kinesis.receiver.shards.owned''"
    "in_name (rt_deadLetters t) = ''kinesis.receiver.dead_letter.records''"
  using assms by (auto simp: newReceiverTelemetry_def create_def Let_def split: option.splits)

text \<open>
  The exporter's counters show what it lost: whatever an export did, the dropped counter goes up
  by the number of items dropped and the truncation counter by the number of values clamped,
  each modulo \<open>2^64\<close>, and every call is observed with its number of records.
\<close>

theorem export_counters_match:
  assumes "newExporterTelemetry mp = Inr t" "length durations = length (el_calls log)"
  shows "counted ''kinesis.exporter.records_dropped'' (export_measurements t durations log) = of_nat (total (el_drops log)) \<and>
    counted ''kinesis.exporter.attributes_truncated'' (export_measurements t durations log) =
      word_of_int (sum_list (el_truncated log)) \<and>
    counted ''kinesis.exporter.batch.records'' (export_measurements t durations log) =
      of_nat (sum_list (map pc_records (el_calls log)))"
proof -
  note names = exporter_instruments [OF assms(1)]
  have drop: "counted n (recordDrop t k reason) = (if n = ''kinesis.exporter.records_dropped'' then word_of_int k else 0)"
    for n k reason by (simp add: recordDrop_def counted_def names)
  have trunc: "counted n (recordTruncated t k) = (if n = ''kinesis.exporter.attributes_truncated'' then word_of_int k else 0)"
    for n k by (simp add: recordTruncated_def counted_def names)
  have put: "counted ''kinesis.exporter.records_dropped'' (recordPut t r b d) = 0"
    "counted ''kinesis.exporter.attributes_truncated'' (recordPut t r b d) = 0"
    "counted ''kinesis.exporter.batch.records'' (recordPut t r b d) = of_nat r"
    for r b d by (simp_all add: recordPut_def counted_def names)
  have drops: "sum_list (map (\<lambda>d. of_nat (do_count d)) ds) = (of_nat (total ds) :: int64)" for ds :: drops
    by (induction ds) (simp_all add: total_def)
  have truncs: "sum_list (map word_of_int ks) = (word_of_int (sum_list ks) :: int64)" for ks :: "int list"
    by (induction ks) (simp_all add: wi_hom_syms)
  have calls: "length ds = length cs \<Longrightarrow>
      sum_list (map (\<lambda>x. of_nat (pc_records (fst x))) (zip cs ds)) = (of_nat (sum_list (map pc_records cs)) :: int64)"
    for ds :: "64 word list" and cs
    by (induction cs ds rule: list_induct2') simp_all
  show ?thesis
    by (simp add: export_measurements_def counted_concat comp_def drop trunc put drops truncs calls [OF assms(2)]
        split_def case_prod_beta)
qed

end
