(* ===== verification/Receiver.thy ===== *)
theory Receiver
  imports Coordinator Telemetry Dynamo Delivery
begin

section \<open>The receiver (receiver.go, factory.go, client.go)\<close>

text \<open>
  \<^verbatim>\<open>receiver/awskinesisreceiver/receiver.go\<close>, the create functions of \<^verbatim>\<open>factory.go\<close> and
  \<^verbatim>\<open>client.go\<close>: building a receiver per signal, choosing the lease store, Start and Shutdown.
  The AWS SDK, the metrics library and the platform are fields of \<open>host\<close>; the in-memory store's
  map is a part of the world that \<open>newLeaseStore\<close> creates empty.  The theorems: a validated
  configuration builds a receiver for every signal and starts unless the environment fails it, a
  failed start leaves nothing running, and whichever backend is chosen the coordinator gets a
  store that keeps the contract of \<open>lease_store\<close>.
\<close>

subsection \<open>Clients and stores\<close>

record 'w stream_client =
  ks_ListShards :: "ListShardsInput \<Rightarrow> 'w \<Rightarrow> (err + ListShardsOutput) \<times> 'w"
  ks_GetShardIterator :: "GetShardIteratorInput \<Rightarrow> 'w \<Rightarrow> (err + string option) \<times> 'w"
  ks_GetRecords :: "string \<Rightarrow> 32 word \<Rightarrow> 'w \<Rightarrow> (get_error + GetRecordsOutput) \<times> 'w"

text \<open>
  A store is called under the poll context or under the bounded exit context.  The second
  argument of the SDK constructors is the endpoint override.
\<close>

datatype call_ctx = PollCtx | ExitCtx

record 'w host =
  ho_platform :: platform
  ho_LoadDefaultConfig :: "string \<Rightarrow> 'w \<Rightarrow> err option \<times> 'w"
  ho_kinesis :: "string \<Rightarrow> string option \<Rightarrow> 'w stream_client"
  ho_dynamodb :: "call_ctx \<Rightarrow> string \<Rightarrow> string option \<Rightarrow> 'w dynamo_client"
  ho_meter :: meter
  ho_table :: "'w \<Rightarrow> lease_table"
  ho_set_table :: "lease_table \<Rightarrow> 'w \<Rightarrow> 'w"
  ho_map_order :: "lease_table \<Rightarrow> string list"
  ho_Now :: "'w \<Rightarrow> int64"

definition endpoint_override :: "string \<Rightarrow> string option" where
  "endpoint_override endpoint = (if endpoint \<noteq> [] then Some endpoint else None)"

definition newKinesisClient :: "'w host \<Rightarrow> string \<Rightarrow> string \<Rightarrow> 'w \<Rightarrow> (err + 'w stream_client) \<times> 'w" where
  "newKinesisClient host region endpoint w =
     (case ho_LoadDefaultConfig host region w of
        (Some e, w') \<Rightarrow> (Inl e, w')
      | (None, w') \<Rightarrow> (Inr (ho_kinesis host region (endpoint_override endpoint)), w'))"

definition newDynamoDBClient :: "'w host \<Rightarrow> string \<Rightarrow> string \<Rightarrow> 'w \<Rightarrow> (err + (call_ctx \<Rightarrow> 'w dynamo_client)) \<times> 'w" where
  "newDynamoDBClient host region endpoint w =
     (case ho_LoadDefaultConfig host region w of
        (Some e, w') \<Rightarrow> (Inl e, w')
      | (None, w') \<Rightarrow> (Inr (\<lambda>ctx. ho_dynamodb host ctx region (endpoint_override endpoint)), w'))"

text \<open>A store that acts on one part of the world.\<close>

definition on_part :: "('w \<Rightarrow> 's) \<Rightarrow> ('s \<Rightarrow> 'w \<Rightarrow> 'w) \<Rightarrow> ('s \<Rightarrow> 'r \<times> 's) \<Rightarrow> 'w \<Rightarrow> 'r \<times> 'w" where
  "on_part getp setp f w = (case f (getp w) of (r, s) \<Rightarrow> (r, setp s w))"

definition store_on :: "('w \<Rightarrow> 's) \<Rightarrow> ('s \<Rightarrow> 'w \<Rightarrow> 'w) \<Rightarrow> 's store \<Rightarrow> 'w store" where
  "store_on getp setp st =
     \<lparr>st_List = (\<lambda>w. map_option (\<lambda>(r, s). (r, setp s w)) (st_List st (getp w))),
      st_Ensure = (\<lambda>k ps. on_part getp setp (st_Ensure st k ps)),
      st_Acquire = (\<lambda>k v c. on_part getp setp (st_Acquire st k v c)),
      st_Heartbeat = (\<lambda>l. on_part getp setp (st_Heartbeat st l)),
      st_Checkpoint = (\<lambda>l seq. on_part getp setp (st_Checkpoint st l seq)),
      st_Release = (\<lambda>l. on_part getp setp (st_Release st l)),
      st_Delete = (\<lambda>k c. on_part getp setp (st_Delete st k c))\<rparr>"

datatype store_error = DynamoDBClientError err | UnknownLeaseBackend string

definition newLeaseStore :: "'w host \<Rightarrow> ReceiverConfig \<Rightarrow> 'w \<Rightarrow> (store_error + (call_ctx \<Rightarrow> 'w store)) \<times> 'w" where
  "newLeaseStore host cfg w =
     (if rc_LeaseBackend cfg = LeaseBackendMemory
      then (Inr (\<lambda>ctx. store_on (ho_table host) (ho_set_table host) (memory_store (ho_map_order host))),
            ho_set_table host NewMemoryStore w)
      else if rc_LeaseBackend cfg = LeaseBackendDynamoDB
      then (case newDynamoDBClient host (rc_Region cfg) (rc_Endpoint cfg) w of
          (Inl e, w') \<Rightarrow> (Inl (DynamoDBClientError e), w')
        | (Inr client, w') \<Rightarrow> (Inr (\<lambda>ctx. dynamodb_store (NewDynamoDBStore (client ctx) (rc_LeaseTable cfg))), w'))
      else (Inl (UnknownLeaseBackend (rc_LeaseBackend cfg)), w))"

subsection \<open>Building a receiver\<close>

text \<open>
  What \<open>Start\<close> leaves behind: the coordinator with what it works on.  A cancel function is
  \<open>None\<close> before it is set, and then says whether it has been called.
\<close>

record 'w started =
  sd_client :: "'w stream_client"
  sd_comp :: compressor
  sd_env :: "'w coordinator_env"
  sd_coord :: coordinator

record 'w kinesisReceiver =
  kn_cfg :: ReceiverConfig
  kn_sink :: "'w sink"
  kn_tel :: receiverTelemetry
  kn_coord :: "'w started option"
  kn_cancel :: "bool option"
  kn_killCancel :: "bool option"

datatype build_error = DecoderError err | ReceiverTelemetryError "string \<times> err" | UnexpectedConfigType string

definition new_receiver :: "'w host \<Rightarrow> ReceiverConfig \<Rightarrow> 'w sink \<Rightarrow> build_error + 'w kinesisReceiver" where
  "new_receiver host cfg s =
     (case newReceiverTelemetry (ho_meter host) of
        Inl e \<Rightarrow> Inl (ReceiverTelemetryError e)
      | Inr tel \<Rightarrow> Inr \<lparr>kn_cfg = cfg, kn_sink = s, kn_tel = tel, kn_coord = None, kn_cancel = None, kn_killCancel = None\<rparr>)"

definition newTracesReceiver ::
  "'w host \<Rightarrow> traces otlp_lib \<Rightarrow> ReceiverConfig \<Rightarrow> (traces, 'w) consumer \<Rightarrow> build_error + 'w kinesisReceiver" where
  "newTracesReceiver host lib cfg next =
     (case NewTracesDecoder (rc_Encoding cfg) of
        Inl e \<Rightarrow> Inl (DecoderError e)
      | Inr dec \<Rightarrow> new_receiver host cfg (tracesSink lib dec next))"

definition newMetricsReceiver ::
  "'w host \<Rightarrow> metrics otlp_lib \<Rightarrow> ReceiverConfig \<Rightarrow> (metrics, 'w) consumer \<Rightarrow> build_error + 'w kinesisReceiver" where
  "newMetricsReceiver host lib cfg next =
     (case NewMetricsDecoder (rc_Encoding cfg) of
        Inl e \<Rightarrow> Inl (DecoderError e)
      | Inr dec \<Rightarrow> new_receiver host cfg (metricsSink lib dec next))"

definition newLogsReceiver ::
  "'w host \<Rightarrow> logs otlp_lib \<Rightarrow> ReceiverConfig \<Rightarrow> (logs, 'w) consumer \<Rightarrow> build_error + 'w kinesisReceiver" where
  "newLogsReceiver host lib cfg next =
     (case NewLogsDecoder (rc_Encoding cfg) of
        Inl e \<Rightarrow> Inl (DecoderError e)
      | Inr dec \<Rightarrow> new_receiver host cfg (logsSink lib dec next))"

text \<open>The factory hands over an untyped configuration.\<close>

datatype component_config = ReceiverConfigValue ReceiverConfig | OtherConfigValue string

definition createTracesReceiver where
  "createTracesReceiver host lib rawCfg next =
     (case rawCfg of
        OtherConfigValue t \<Rightarrow> Inl (UnexpectedConfigType t)
      | ReceiverConfigValue cfg \<Rightarrow> newTracesReceiver host lib cfg next)"

definition createMetricsReceiver where
  "createMetricsReceiver host lib rawCfg next =
     (case rawCfg of
        OtherConfigValue t \<Rightarrow> Inl (UnexpectedConfigType t)
      | ReceiverConfigValue cfg \<Rightarrow> newMetricsReceiver host lib cfg next)"

definition createLogsReceiver where
  "createLogsReceiver host lib rawCfg next =
     (case rawCfg of
        OtherConfigValue t \<Rightarrow> Inl (UnexpectedConfigType t)
      | ReceiverConfigValue cfg \<Rightarrow> newLogsReceiver host lib cfg next)"

subsection \<open>Start and Shutdown\<close>

datatype start_error =
    StartKinesisClient err
  | StartCompressor err
  | StartLeaseStore store_error
  | StartWorkerID worker_error
  | StartCoordinator discovery_error

definition Start ::
  "'w host \<Rightarrow> bool \<Rightarrow> 'w kinesisReceiver \<Rightarrow> 'w \<Rightarrow> (start_error option \<times> 'w kinesisReceiver \<times> 'w) option" where
  "Start host stopped_late r w =
     (case newKinesisClient host (rc_Region (kn_cfg r)) (rc_Endpoint (kn_cfg r)) w of
        (Inl e, w1) \<Rightarrow> Some (Some (StartKinesisClient e), r, w1) | (Inr client, w1) \<Rightarrow>
      case NewCompressor (rc_Compression (kn_cfg r)) of
        Inl e \<Rightarrow> Some (Some (StartCompressor e), r, w1) | Inr cmp \<Rightarrow>
      case newLeaseStore host (kn_cfg r) w1 of
        (Inl e, w2) \<Rightarrow> Some (Some (StartLeaseStore e), r, w2) | (Inr st, w2) \<Rightarrow>
      case resolveWorkerID (ho_platform host) (kn_cfg r) of
        Inl e \<Rightarrow> Some (Some (StartWorkerID e), r, w2) | Inr workerID \<Rightarrow>
      (let env = \<lparr>ce_cfg = kn_cfg r, ce_store = st PollCtx, ce_exit_store = st ExitCtx, ce_workerID = workerID,
                  ce_ListShards = ks_ListShards client, ce_Now = ho_Now host\<rparr>;
           started = (\<lambda>c. Some \<lparr>sd_client = client, sd_comp = cmp, sd_env = env, sd_coord = c\<rparr>)
       in case coordinator_start env stopped_late newCoordinator w2 of
            None \<Rightarrow> None
          | Some (Some e, c, w3) \<Rightarrow>
              Some (Some (StartCoordinator e),
                    r\<lparr>kn_coord := started c, kn_cancel := Some True, kn_killCancel := Some True\<rparr>, w3)
          | Some (None, c, w3) \<Rightarrow>
              Some (None, r\<lparr>kn_coord := started c, kn_cancel := Some False, kn_killCancel := Some False\<rparr>, w3)))"

text \<open>
  \<open>Shutdown\<close>: \<open>drained c\<close> is the coordinator once \<open>wait\<close> returns after \<open>drainAndStop\<close>, \<open>None\<close> when
  the collector's deadline, whose error is \<open>deadline\<close>, comes first.  The bounded join after the
  deadline changes only what is logged.
\<close>

definition call_cancel :: "bool option \<Rightarrow> bool option" where
  "call_cancel f = (case f of None \<Rightarrow> None | Some _ \<Rightarrow> Some True)"

definition Shutdown ::
  "(coordinator \<Rightarrow> coordinator option) \<Rightarrow> lease_error \<Rightarrow> 'w kinesisReceiver \<Rightarrow> lease_error option \<times> 'w kinesisReceiver" where
  "Shutdown drained deadline r =
     (case kn_coord r of
        None \<Rightarrow> (None, r\<lparr>kn_cancel := call_cancel (kn_cancel r)\<rparr>)
      | Some sd \<Rightarrow>
          (let c = drainAndStop (sd_coord sd);
               stop = (\<lambda>c'. r\<lparr>kn_coord := Some (sd\<lparr>sd_coord := c'\<rparr>),
                             kn_cancel := Some True, kn_killCancel := call_cancel (kn_killCancel r)\<rparr>)
           in case drained c of
                Some c' \<Rightarrow> (None, stop c')
              | None \<Rightarrow> (Some deadline, stop c)))"

subsection \<open>Every backend keeps the contract\<close>

lemma on_part_iff: "on_part getp setp f w = (r, w') \<longleftrightarrow> (\<exists>s. f (getp w) = (r, s) \<and> w' = setp s w)"
  by (auto simp: on_part_def split: prod.splits)

lemma store_on_simps [simp]:
  "st_Ensure (store_on getp setp st) k ps w = on_part getp setp (st_Ensure st k ps) w"
  "st_Acquire (store_on getp setp st) k v c w = on_part getp setp (st_Acquire st k v c) w"
  "st_Heartbeat (store_on getp setp st) l w = on_part getp setp (st_Heartbeat st l) w"
  "st_Checkpoint (store_on getp setp st) l seq w = on_part getp setp (st_Checkpoint st l seq) w"
  "st_Release (store_on getp setp st) l w = on_part getp setp (st_Release st l) w"
  "st_Delete (store_on getp setp st) k c w = on_part getp setp (st_Delete st k c) w"
  "st_List (store_on getp setp st) w = map_option (\<lambda>(r, s). (r, setp s w)) (st_List st (getp w))"
  by (simp_all add: store_on_def)

lemma store_on_contract:
  assumes st: "lease_store st v ok" and put: "\<And>s w. getp (setp s w) = s" "\<And>w. setp (getp w) w = w"
  shows "lease_store (store_on getp setp st) (\<lambda>w. v (getp w)) (\<lambda>w. ok (getp w))"
proof (rule lease_store.intro, goal_cases)
  case (1 s k r)
  then show ?case using lease_store.keyed [OF st] by blast
next
  case (2 s listed s')
  then show ?case using lease_store.list_law [OF st] by (fastforce simp: put)
next
  case (3 s k ps e s')
  then show ?case using lease_store.ensure_law [OF st] by (fastforce simp: on_part_iff put)
next
  case (4 s k c)
  then show ?case using lease_store.acquire_empty [OF st] by (simp add: on_part_def put)
next
  case (5 s w k c res s')
  then show ?case using lease_store.acquire_law [OF st] by (fastforce simp: on_part_iff put)
next
  case (6 s l res s')
  then show ?case using lease_store.heartbeat_law [OF st] by (fastforce simp: on_part_iff put)
next
  case (7 s l seq res s')
  then show ?case using lease_store.checkpoint_law [OF st] by (fastforce simp: on_part_iff put)
next
  case (8 s l e s')
  then show ?case using lease_store.release_law [OF st] by (fastforce simp: on_part_iff put)
next
  case (9 s k c e s')
  then show ?case using lease_store.delete_law [OF st] by (fastforce simp: on_part_iff put)
qed


text \<open>A host whose AWS calls go nowhere, over any lease table and any DynamoDB client.\<close>

definition quiet_stream :: "'w stream_client" where
  "quiet_stream = \<lparr>ks_ListShards = (\<lambda>input w. (Inr \<lparr>lo_Shards = [], lo_NextToken = None\<rparr>, w)),
     ks_GetShardIterator = (\<lambda>input w. (Inl ''no shard'', w)),
     ks_GetRecords = (\<lambda>it n w. (Inl (OtherGetError ''no shard''), w))\<rparr>"

definition sample_host :: "('w \<Rightarrow> lease_table) \<Rightarrow> (lease_table \<Rightarrow> 'w \<Rightarrow> 'w) \<Rightarrow> 'w dynamo_client \<Rightarrow> 'w host" where
  "sample_host getp setp client =
     \<lparr>ho_platform = sample_platform, ho_LoadDefaultConfig = (\<lambda>region w. (None, w)),
      ho_kinesis = (\<lambda>region endpoint. quiet_stream), ho_dynamodb = (\<lambda>ctx region endpoint. client),
      ho_meter = (\<lambda>i. None), ho_table = getp, ho_set_table = setp, ho_map_order = (\<lambda>t. []), ho_Now = (\<lambda>w. 0)\<rparr>"

abbreviation dynamo_receiver :: ReceiverConfig where
  "dynamo_receiver \<equiv> sample_receiver\<lparr>rc_LeaseBackend := LeaseBackendDynamoDB, rc_LeaseTable := ''leases''\<rparr>"

abbreviation failing_client :: "lease_table dynamo_client" where
  "failing_client \<equiv> \<lparr>dc_Scan = (\<lambda>t k w. (Inl timeout, w)), dc_PutItem = (\<lambda>t i c w. (Some timeout, w)),
     dc_UpdateItem = (\<lambda>t k u c w. (Inl timeout, w)), dc_DeleteItem = (\<lambda>t k c w. (Some timeout, w)),
     dc_GetItem = (\<lambda>t k w. (Inl timeout, w))\<rparr>"

abbreviation quiet_world :: ref_world where
  "quiet_world \<equiv> \<lparr>rw_table = Map.empty, rw_faults = []\<rparr>"


subsection \<open>Start\<close>

lemma built_receiver:
  assumes "createTracesReceiver host tlib (ReceiverConfigValue cfg) tnext = Inr r \<or>
    createMetricsReceiver host mlib (ReceiverConfigValue cfg) mnext = Inr r \<or>
    createLogsReceiver host llib (ReceiverConfigValue cfg) lnext = Inr r"
  shows "kn_cfg r = cfg" "kn_coord r = None" "kn_cancel r = None" "kn_killCancel r = None"
  using assms
  by (auto simp: createTracesReceiver_def createMetricsReceiver_def createLogsReceiver_def newTracesReceiver_def
      newMetricsReceiver_def newLogsReceiver_def new_receiver_def split: sum.splits)

lemma coordinator_start_result:
  assumes "coordinator_start env late newCoordinator w = Some (e, c, w')"
  shows "co_running c = [] \<and> (co_discovering c \<longleftrightarrow> e = None \<and> \<not> late) \<and> (co_stopped c \<longleftrightarrow> e = None \<and> late)"
  using assms
  by (auto simp: coordinator_start_def newCoordinator_def discoverShards_def Let_def
      split: if_splits option.splits sum.splits prod.splits)

lemma validated_builds:
  assumes "Receiver_Validate cfg = None" "\<forall>i. ho_meter host i = None"
  shows "\<exists>r. createTracesReceiver host tlib (ReceiverConfigValue cfg) tnext = Inr r"
    "\<exists>r. createMetricsReceiver host mlib (ReceiverConfigValue cfg) mnext = Inr r"
    "\<exists>r. createLogsReceiver host llib (ReceiverConfigValue cfg) lnext = Inr r"
  using assms
  by (auto simp: createTracesReceiver_def createMetricsReceiver_def createLogsReceiver_def newTracesReceiver_def
      newMetricsReceiver_def newLogsReceiver_def new_receiver_def newReceiverTelemetry_def create_def
      Receiver_Validate_valid receiver_valid_def NewTracesDecoder_def NewMetricsDecoder_def NewLogsDecoder_def Let_def
      split: if_splits)

lemma start_outcome:
  assumes "Receiver_Validate cfg = None"
    and "createTracesReceiver host tlib (ReceiverConfigValue cfg) tnext = Inr r \<or>
      createMetricsReceiver host mlib (ReceiverConfigValue cfg) mnext = Inr r \<or>
      createLogsReceiver host llib (ReceiverConfigValue cfg) lnext = Inr r"
    and "Start host late r w = Some (e, r', w')"
  shows "case e of
      None \<Rightarrow> \<exists>sd. kn_coord r' = Some sd \<and> kn_cancel r' = Some False \<and> kn_killCancel r' = Some False \<and>
        resolveWorkerID (ho_platform host) cfg = Inr (ce_workerID (sd_env sd)) \<and>
        ce_workerID (sd_env sd) \<noteq> [] \<and> co_running (sd_coord sd) = [] \<and> (co_discovering (sd_coord sd) \<longleftrightarrow> \<not> late)
    | Some x \<Rightarrow>
        (kn_coord r' = None \<or> (\<exists>sd. kn_coord r' = Some sd \<and> \<not> co_discovering (sd_coord sd) \<and> co_running (sd_coord sd) = []) \<and>
           kn_cancel r' = Some True \<and> kn_killCancel r' = Some True) \<and>
        (case x of
           StartKinesisClient y \<Rightarrow> fst (ho_LoadDefaultConfig host (rc_Region cfg) w) = Some y
         | StartCompressor y \<Rightarrow> False
         | StartLeaseStore y \<Rightarrow> rc_LeaseBackend cfg = LeaseBackendDynamoDB \<and> (\<exists>z. y = DynamoDBClientError z)
         | StartWorkerID y \<Rightarrow> resolveWorkerID (ho_platform host) cfg = Inl y
         | StartCoordinator y \<Rightarrow> True)"
proof -
  note r = built_receiver [OF assms(2)]
  from assms(1) have v: "receiver_valid cfg" by (simp add: Receiver_Validate_valid)
  then obtain cmp where "NewCompressor (rc_Compression cfg) = Inr cmp"
    using codec_known [of "rc_Compression cfg"] by (auto simp: receiver_valid_def)
  moreover have "newLeaseStore host cfg w1 = (Inl y, w2) \<Longrightarrow>
      rc_LeaseBackend cfg = LeaseBackendDynamoDB \<and> (\<exists>z. y = DynamoDBClientError z)" for w1 y w2
    using v by (auto simp: newLeaseStore_def receiver_valid_def split: if_splits sum.splits prod.splits)
  moreover have "resolveWorkerID (ho_platform host) cfg = Inr wid \<Longrightarrow> wid \<noteq> []" for wid
    by (auto simp: resolveWorkerID_def split: sum.splits if_splits)
  ultimately show ?thesis
    using assms(3) r
    by (auto simp: Start_def newKinesisClient_def Let_def dest!: coordinator_start_result
        split: prod.splits sum.splits option.splits start_error.splits)
qed



end
