(* ===== verification/Pipeline.thy ===== *)
theory Pipeline
  imports Sending Delivery
begin

section \<open>From the exporter to the consumer\<close>

text \<open>
  The two ends composed: \<^verbatim>\<open>exporter/awskinesisexporter\<close> packs a batch into records, Kinesis keeps
  what it accepted on the shards of the stream, and a poller of \<^verbatim>\<open>receiver/awskinesisreceiver\<close> per
  shard decodes the records for the next consumer.  \<^verbatim>\<open>internal/encoding\<close> is the contract between
  them.  The locale \<open>moving\<close> adds to \<open>signal\<close> what grouping does to an item; inside it an export that
  truncated nothing is accounted for item by item, not only in numbers.
\<close>

subsection \<open>What an export ships\<close>

lemma subseq_mset: "subseq xs ys \<Longrightarrow> mset xs \<subseteq># mset ys"
  by (induction rule: list_emb.induct) (auto intro: subset_mset.order_trans)

context signal begin

lemma pack_groups_untouched:
  assumes "pack_groups kl e sc gs u = (es, ds, [], u')"
  shows "\<exists>bs. list_all2 (\<lambda>b x. encodes e sc b (re_Data x)) bs es \<and>
    mset (concat (map its bs)) \<subseteq># mset (concat (map (its \<circ> tb_batch) gs)) \<and>
    length (concat (map its bs)) + total ds = length (concat (map (its \<circ> tb_batch) gs))"
  using assms
proof (induction gs arbitrary: u es ds u')
  case (Cons g gs)
  obtain ps ds1 tr1 where p: "packChain e (tb_batch g) sc = (ps, ds1, tr1)" by (metis prod_cases3)
  obtain es1 u1 where n: "entries_of kl e (tb_key g) ps u = (es1, u1)" by fastforce
  obtain es2 ds2 tr2 u2 where r: "pack_groups kl e sc gs u1 = (es2, ds2, tr2, u2)" by (metis prod_cases4)
  from Cons.prems p n r have eq: "es = es1 @ es2" "ds = ds1 @ ds2" and none: "tr1 = []" "tr2 = []" by auto
  from packChain_untouched [OF p [unfolded none]] obtain bs1 where
    enc: "list_all2 (encodes e sc) bs1 ps" and sub: "subseq (concat (map its bs1)) (its (tb_batch g))"
    and len: "length (concat (map its bs1)) + total ds1 = length (its (tb_batch g))" by (auto simp: accounts_def)
  have data: "ps = map re_Data es1" using entries_of_data [OF n] by simp
  from enc have enc1: "list_all2 (\<lambda>b x. encodes e sc b (re_Data x)) bs1 es1" by (simp add: data list_all2_map2)
  from Cons.IH [OF r [unfolded none]] obtain bs2 where
    bs2: "list_all2 (\<lambda>b x. encodes e sc b (re_Data x)) bs2 es2"
      "mset (concat (map its bs2)) \<subseteq># mset (concat (map (its \<circ> tb_batch) gs))"
      "length (concat (map its bs2)) + total ds2 = length (concat (map (its \<circ> tb_batch) gs))" by blast
  have "mset (concat (map its (bs1 @ bs2))) \<subseteq># mset (concat (map (its \<circ> tb_batch) (g # gs)))"
    using subset_mset.add_mono [OF subseq_mset [OF sub] bs2(2)] by simp
  with list_all2_appendI [OF enc1 bs2(1)] len bs2(3) show ?case
    unfolding eq by (intro exI [of _ "bs1 @ bs2"]) (simp add: comp_def)
qed simp

end

locale moving = signal its sc for its :: "'b \<Rightarrow> 'i list" and sc :: "('b, 're) signalCodec" +
  fixes mv :: "'re keyPlan \<Rightarrow> 'i \<Rightarrow> 'i"
  assumes group_content: "mset (concat (map (its \<circ> tb_batch) (groupByTags sc b plan))) = image_mset (mv plan) (mset (its b))"
begin

lemma emit_content:
  assumes "0 < pr_MaxRecords (cfg_PutRecords (ke_cfg e))" "emit cl kl e b sc u w = Some (r, log, w')"
    and "el_truncated log = []" "list_all honest (el_calls log)"
  shows "\<exists>bs es unsent dropped. list_all2 (\<lambda>b x. encodes e sc b (re_Data x)) bs es \<and>
    mset (concat (map its bs)) + dropped = image_mset (mv (ke_keyPlan e)) (mset (its b)) \<and>
    size dropped = total (el_drops log) \<and>
    mset es = mset (concat (map accepted (el_calls log))) + mset unsent \<and> (r = None \<longrightarrow> unsent = [])"
proof -
  let ?gs = "groupByTags sc b (ke_keyPlan e)"
  obtain es ds tr u' where p: "pack_groups kl e sc ?gs u = (es, ds, tr, u')" by (metis prod_cases4)
  obtain calls where f: "put_chunks cl e (chunks (cfg_PutRecords (ke_cfg e)) es) w = (r, calls, w')"
    and log: "log = \<lparr>el_drops = ds, el_truncated = tr, el_calls = calls, el_uuids = u'\<rparr>"
    using assms(2) by (auto simp: emit_def p flush_chunks [OF assms(1)] split: prod.splits)
  with assms(3) p have "pack_groups kl e sc ?gs u = (es, ds, [], u')" by simp
  from pack_groups_untouched [OF this] obtain bs where
    enc: "list_all2 (\<lambda>b x. encodes e sc b (re_Data x)) bs es"
    and sub: "mset (concat (map its bs)) \<subseteq># image_mset (mv (ke_keyPlan e)) (mset (its b))"
    and len: "length (concat (map its bs)) + total ds = length (its b)"
    unfolding group_content [of b "ke_keyPlan e"]
    by (metis group_content size_image_mset size_mset)
  obtain dropped where d: "mset (concat (map its bs)) + dropped = image_mset (mv (ke_keyPlan e)) (mset (its b))"
    using sub by (metis subset_mset.add_diff_inverse)
  then have "size (mset (concat (map its bs))) + size dropped = length (its b)"
    by (metis size_union size_image_mset size_mset)
  with len have "size dropped = total ds" by simp
  moreover obtain unsent where "mset (concat (map accepted calls)) + mset unsent = mset es" "r = None \<longrightarrow> unsent = []"
    using put_chunks_spec [OF f] assms(4) by (auto simp: log concat_chunks [OF assms(1)])
  ultimately show ?thesis using enc d by (intro exI [of _ bs] exI [of _ es] exI [of _ unsent] exI [of _ dropped]) (simp add: log)
qed

end

interpretation traces_moving: moving items "tracesCodec plib lib enc" "promote_item plib sp_attrs (\<lambda>a sp. sp\<lparr>sp_attrs := a\<rparr>)"
  for plib lib enc
  by unfold_locales (simp add: tracesCodec_def group_traces_items)

interpretation logs_moving: moving items "logsCodec plib lib enc" "promote_item plib lr_attrs (\<lambda>a lr. lr\<lparr>lr_attrs := a\<rparr>)"
  for plib lib enc
  by unfold_locales (simp add: logsCodec_def group_logs_items)

interpretation metrics_moving: moving dp_items "metricsCodec plib lib enc" "promote_point plib"
  for plib lib enc
  by unfold_locales (simp add: metricsCodec_def group_metrics_items)

subsection \<open>What a poller makes of it\<close>

text \<open>The receiver reads what the exporter wrote when both name the same encoding and codec.\<close>

lemma encoded_record_decodes:
  assumes "encodes e (tracesCodec plib otlp enc) b p" "otlp_laws otlp" "codec_laws (ke_lib e)" "kr_Data rec = p"
  shows "hand_over cfg (ke_comp e) (ke_lib e) otlp enc next rec c = snd (next b c)"
proof -
  from assms(1) obtain raw where raw: "Traces_Marshal otlp enc b = Inr raw" "Compress (ke_lib e) (ke_comp e) raw = Inr p"
    by (auto simp: encodes_def tracesCodec_def)
  have "Traces_Unmarshal otlp enc raw = Inr b"
    using raw(1) assms(2) by (cases enc) (auto simp: otlp_laws_def)
  with Decompress_Compress [OF assms(3) raw(2)] assms(4) show ?thesis by (simp add: hand_over_def)
qed

lemma shard_is_taken:
  assumes "list_all2 (encodes e (tracesCodec plib otlp enc)) bs ps" "otlp_laws otlp" "codec_laws (ke_lib e)"
  shows "fold (hand_over cfg (ke_comp e) (ke_lib e) otlp enc next) (sequenced ps) c = fold (\<lambda>b c. snd (next b c)) bs c"
proof -
  have "list_all2 (\<lambda>b rec. encodes e (tracesCodec plib otlp enc) b (kr_Data rec)) bs (sequenced ps)"
    using assms(1) by (simp add: list_all2_conv_all_nth sequenced_nth)
  then show ?thesis
    by (induction arbitrary: c rule: list_all2_induct) (simp_all add: encoded_record_decodes [OF _ assms(2,3) refl])
qed

lemma list_all2_concat_split:
  "list_all2 R xs (concat yss) \<Longrightarrow> \<exists>xss. xs = concat xss \<and> list_all2 (list_all2 R) xss yss"
proof (induction yss arbitrary: xs)
  case (Cons ys yss)
  then obtain us vs where "xs = us @ vs" "list_all2 R us ys" "list_all2 R vs (concat yss)"
    by (auto simp: list_all2_append2)
  with Cons.IH show ?case by (metis concat.simps(2) list_all2_Cons)
qed simp

text \<open>However the accepted records are spread over shards and ordered there, the batches go along.\<close>

lemma spread_over_shards:
  assumes "list_all2 (\<lambda>b x. R b (re_Data x)) bs es" "mset (concat shards) = mset (map re_Data es)"
  obtains bss where "list_all2 (list_all2 R) bss shards" "mset (concat bss) = mset bs"
proof -
  have "list_all2 (\<lambda>p b. R b p) (map re_Data es) bs"
    using assms(1) by (simp add: list_all2_map1) (simp add: list_all2_conv_all_nth)
  from list_all2_reorder_left_invariance [OF this assms(2)] obtain bs' where
    bs': "list_all2 (\<lambda>p b. R b p) (concat shards) bs'" "mset bs' = mset bs" by blast
  from bs'(1) have "list_all2 R bs' (concat shards)" by (simp add: list_all2_conv_all_nth)
  with list_all2_concat_split bs'(2) that show thesis by blast
qed

subsection \<open>End to end\<close>

text \<open>What a poller leaves of a shard: its row drained, and the batches in the consumer's hands.\<close>

definition drains_into ::
  "'c shard_world poller_env \<Rightarrow> (traces, 'c) consumer \<Rightarrow> traces list \<Rightarrow> 'c shard_world \<Rightarrow> bool" where
  "drains_into env next bs v \<longleftrightarrow> (\<exists>log off v'. runPoll env v = Some (log, off, v') \<and>
     map_option Checkpoint (sw_table v' (ShardID (sw_leased v))) = Some CheckpointShardEnd \<and>
     sw_user v' = fold (\<lambda>b c. snd (next b c)) bs (sw_user v))"

lemma newExporter_parts:
  assumes "newExporter xl None None cfg = Inr e"
  shows "ke_cfg e = cfg \<and> ke_lib e = xl_codec xl \<and> NewTracesEncoder (cfg_Encoding cfg) = Inr (ke_tracesEnc e) \<and>
    NewCompressor (cfg_Compression cfg) = Inr (ke_comp e)"
  using assms by (auto simp: newExporter_def split: sum.splits)


text \<open>A lawful marshaler for the witness: batches of spans with one-letter names.\<close>

definition letters_otlp :: "traces otlp_lib" where
  "letters_otlp = \<lparr>
     MarshalProto = (\<lambda>td. let b = concat (map sp_name (leaves td))
       in if td = sample_traces ''h'' (map (\<lambda>c. [c]) b) then Inr b else Inl ''shape''),
     UnmarshalProto = (\<lambda>b. Inr (sample_traces ''h'' (map (\<lambda>c. [c]) b))),
     MarshalJSON = (\<lambda>td. Inl ''no''), UnmarshalJSON = (\<lambda>b. Inl ''no'')\<rparr>"

lemma letters_otlp_laws: "otlp_laws letters_otlp"
  by (auto simp: otlp_laws_def letters_otlp_def Let_def split: if_splits)

definition letters_lib :: "string export_lib" where
  "letters_lib = sample_export_lib\<lparr>xl_traces := letters_otlp\<rparr>"

abbreviation collect :: "(traces, string list) consumer" where
  "collect \<equiv> (\<lambda>td taken. (None, taken @ map sp_name (leaves td)))"


end
