(* ===== verification/ExporterFactory.thy ===== *)
theory ExporterFactory
  imports Sending Telemetry
begin

section \<open>The exporter's factory (factory.go, client.go, exporter.go)\<close>

text \<open>
  \<^verbatim>\<open>exporter/awskinesisexporter/factory.go\<close> and \<^verbatim>\<open>client.go\<close>: from an untyped configuration to the
  exporter the collector runs.  The AWS SDK, the metrics library and \<^verbatim>\<open>exporterhelper\<close> are
  parameters: the helper's constructor is given the push function and the options and answers
  with an exporter of its own, of type \<open>'x\<close>.  The collector's queue and retry sections, of types
  \<open>'q\<close> and \<open>'t\<close>, pass through unread.  The theorems: every signal of a validated configuration gets
  an exporter, its push function keeps the limits of the configuration, and one bad answer of the
  environment is the error reported.
\<close>

record 'w exporter_host =
  xh_LoadDefaultConfig :: "string \<Rightarrow> err option"
  xh_NewFromConfig :: "string \<Rightarrow> string option \<Rightarrow> 'w kinesis_client"
  xh_MeterProvider :: meter

text \<open>The second argument of \<^verbatim>\<open>NewFromConfig\<close> is the base endpoint, when one is set.\<close>

definition Exporter_newKinesisClient :: "'w exporter_host \<Rightarrow> string \<Rightarrow> string \<Rightarrow> err + 'w kinesis_client" where
  "Exporter_newKinesisClient host region endpoint =
     (case xh_LoadDefaultConfig host region of
        Some e \<Rightarrow> Inl e
      | None \<Rightarrow> Inr (xh_NewFromConfig host region (if endpoint \<noteq> [] then Some endpoint else None)))"

text \<open>\<^verbatim>\<open>Start\<close>, \<^verbatim>\<open>Shutdown\<close> and \<^verbatim>\<open>Capabilities\<close>, the methods the helper calls.\<close>

definition Exporter_Start :: "'re kinesisExporter \<Rightarrow> err option" where
  "Exporter_Start e = None"

definition Exporter_Shutdown :: "'re kinesisExporter \<Rightarrow> err option" where
  "Exporter_Shutdown e = None"

definition MutatesData :: "'re kinesisExporter \<Rightarrow> bool" where
  "MutatesData e = False"

datatype ('q, 't) helper_option =
    WithCapabilities bool
  | WithStart "err option"
  | WithShutdown "err option"
  | WithTimeout int64
  | WithRetry 't
  | WithQueue 'q

record ('q, 't) FullConfig =
  fc_config :: Config
  fc_QueueConfig :: 'q
  fc_RetryConfig :: 't

definition helperOptions :: "'re kinesisExporter \<Rightarrow> ('q, 't) FullConfig \<Rightarrow> ('q, 't) helper_option list" where
  "helperOptions e cfg =
     [WithCapabilities False, WithStart (Exporter_Start e), WithShutdown (Exporter_Shutdown e),
      WithTimeout (cfg_Timeout (fc_config cfg)), WithRetry (fc_RetryConfig cfg), WithQueue (fc_QueueConfig cfg)]"

datatype ('q, 't) raw_config = ConfigValue "('q, 't) FullConfig" | OtherValue string

datatype create_error = UnexpectedConfig string | NewExporterError new_error | HelperError err

text \<open>A push function: the batch, the UUIDs drawn so far and the world.\<close>

type_synonym ('b, 'w) push = "'b \<Rightarrow> nat \<Rightarrow> 'w \<Rightarrow> (export_error option \<times> export_log \<times> 'w) option"

record ('q, 't, 'w, 'x) exporterhelper =
  eh_NewTraces :: "(traces, 'w) push \<Rightarrow> ('q, 't) helper_option list \<Rightarrow> err + 'x"
  eh_NewMetrics :: "(metrics, 'w) push \<Rightarrow> ('q, 't) helper_option list \<Rightarrow> err + 'x"
  eh_NewLogs :: "(logs, 'w) push \<Rightarrow> ('q, 't) helper_option list \<Rightarrow> err + 'x"

text \<open>\<^verbatim>\<open>newExporter\<close> on the clients and instruments of the host.\<close>

definition build_exporter ::
  "'w exporter_host \<Rightarrow> 're export_lib \<Rightarrow> Config \<Rightarrow> new_error + ('re kinesisExporter \<times> 'w kinesis_client)" where
  "build_exporter host xl cfg =
     (let client = Exporter_newKinesisClient host (cfg_Region cfg) (cfg_Endpoint cfg);
          client_err = (case client of Inl e \<Rightarrow> Some e | Inr _ \<Rightarrow> None);
          tel_err = (case newExporterTelemetry (xh_MeterProvider host) of Inl (what, e) \<Rightarrow> Some (what @ '': '' @ e) | Inr _ \<Rightarrow> None)
      in case newExporter xl client_err tel_err cfg of
           Inl e \<Rightarrow> Inl e
         | Inr x \<Rightarrow> (case client of Inl e \<Rightarrow> Inl (KinesisClientError e) | Inr cl \<Rightarrow> Inr (x, cl)))"

definition lift_helper :: "err + 'x \<Rightarrow> create_error + 'x" where
  "lift_helper r = (case r of Inl e \<Rightarrow> Inl (HelperError e) | Inr x \<Rightarrow> Inr x)"

definition createTracesExporter ::
  "'w exporter_host \<Rightarrow> ('q, 't, 'w, 'x) exporterhelper \<Rightarrow> 're export_lib \<Rightarrow> key_lib \<Rightarrow> ('q, 't) raw_config \<Rightarrow> create_error + 'x" where
  "createTracesExporter host eh xl kl rawCfg =
     (case rawCfg of
        OtherValue t \<Rightarrow> Inl (UnexpectedConfig t)
      | ConfigValue cfg \<Rightarrow>
          (case build_exporter host xl (fc_config cfg) of
             Inl e \<Rightarrow> Inl (NewExporterError e)
           | Inr (e, cl) \<Rightarrow> lift_helper (eh_NewTraces eh (ConsumeTraces cl kl xl e) (helperOptions e cfg))))"

definition createMetricsExporter ::
  "'w exporter_host \<Rightarrow> ('q, 't, 'w, 'x) exporterhelper \<Rightarrow> 're export_lib \<Rightarrow> key_lib \<Rightarrow> ('q, 't) raw_config \<Rightarrow> create_error + 'x" where
  "createMetricsExporter host eh xl kl rawCfg =
     (case rawCfg of
        OtherValue t \<Rightarrow> Inl (UnexpectedConfig t)
      | ConfigValue cfg \<Rightarrow>
          (case build_exporter host xl (fc_config cfg) of
             Inl e \<Rightarrow> Inl (NewExporterError e)
           | Inr (e, cl) \<Rightarrow> lift_helper (eh_NewMetrics eh (ConsumeMetrics cl kl xl e) (helperOptions e cfg))))"

definition createLogsExporter ::
  "'w exporter_host \<Rightarrow> ('q, 't, 'w, 'x) exporterhelper \<Rightarrow> 're export_lib \<Rightarrow> key_lib \<Rightarrow> ('q, 't) raw_config \<Rightarrow> create_error + 'x" where
  "createLogsExporter host eh xl kl rawCfg =
     (case rawCfg of
        OtherValue t \<Rightarrow> Inl (UnexpectedConfig t)
      | ConfigValue cfg \<Rightarrow>
          (case build_exporter host xl (fc_config cfg) of
             Inl e \<Rightarrow> Inl (NewExporterError e)
           | Inr (e, cl) \<Rightarrow> lift_helper (eh_NewLogs eh (ConsumeLogs cl kl xl e) (helperOptions e cfg))))"

text \<open>The factory: the type name, the default configuration and a constructor per signal.\<close>

definition componentType :: string where
  "componentType = ''awskinesis''"

record ('q, 't, 'x) factory =
  fa_type :: string
  fa_default :: "('q, 't) FullConfig"
  fa_traces :: "('q, 't) raw_config \<Rightarrow> create_error + 'x"
  fa_metrics :: "('q, 't) raw_config \<Rightarrow> create_error + 'x"
  fa_logs :: "('q, 't) raw_config \<Rightarrow> create_error + 'x"

text \<open>\<^verbatim>\<open>q\<close> and \<^verbatim>\<open>t\<close> are the defaults of the collector's own sections.\<close>

definition NewFactory ::
  "'q \<Rightarrow> 't \<Rightarrow> 'w exporter_host \<Rightarrow> ('q, 't, 'w, 'x) exporterhelper \<Rightarrow> 're export_lib \<Rightarrow> key_lib \<Rightarrow> ('q, 't, 'x) factory" where
  "NewFactory q t host eh xl kl =
     \<lparr>fa_type = componentType,
      fa_default = \<lparr>fc_config = createDefaultConfig, fc_QueueConfig = q, fc_RetryConfig = t\<rparr>,
      fa_traces = createTracesExporter host eh xl kl,
      fa_metrics = createMetricsExporter host eh xl kl,
      fa_logs = createLogsExporter host eh xl kl\<rparr>"

subsection \<open>Theorems\<close>

lemma build_exporter_validated:
  assumes "Validate (pl_regexp (xl_plan xl)) cfg = None"
  shows "case xh_LoadDefaultConfig host (cfg_Region cfg) of
      Some e \<Rightarrow> build_exporter host xl cfg = Inl (KinesisClientError e)
    | None \<Rightarrow>
        (case newExporterTelemetry (xh_MeterProvider host) of
           Inl (what, e) \<Rightarrow> build_exporter host xl cfg = Inl (TelemetryError (what @ '': '' @ e))
         | Inr _ \<Rightarrow> \<exists>e. build_exporter host xl cfg = Inr (e, xh_NewFromConfig host (cfg_Region cfg)
             (if cfg_Endpoint cfg \<noteq> [] then Some (cfg_Endpoint cfg) else None)) \<and> ke_cfg e = cfg)"
proof -
  from validated_config_builds_exporter [OF assms] obtain e where
    ok: "newExporter xl None None cfg = Inr e" "ke_cfg e = cfg" by auto
  then have "newExporter xl (Some x) tel cfg = Inl (KinesisClientError x)"
    "newExporter xl None (Some x) cfg = Inl (TelemetryError x)" for x tel
    by (auto simp: newExporter_def split: sum.splits)
  with ok show ?thesis
    by (auto simp: build_exporter_def Exporter_newKinesisClient_def Let_def split: option.splits sum.splits)
qed

text \<open>
  The factory, for all three signals alike: a configuration of another type is refused; with a
  validated one the first of the AWS configuration, the instruments and the helper that fails is
  the error reported, and otherwise the helper is given a push function that returns on every
  batch, whatever the client answers, and keeps the configured limits in every call, under
  options that name the configured timeout and say that batches are not mutated.
\<close>

definition push_within :: "Config \<Rightarrow> ('b, 'w) push \<Rightarrow> bool" where
  "push_within cfg push \<longleftrightarrow>
     (\<forall>b u w. \<exists>r log w'. push b u w = Some (r, log, w') \<and> list_all (call_within cfg) (el_calls log))"

definition factory_result ::
  "'w exporter_host \<Rightarrow> Config \<Rightarrow> (('b, 'w) push \<Rightarrow> ('q, 't) helper_option list \<Rightarrow> err + 'x) \<Rightarrow> ('q, 't) FullConfig \<Rightarrow>
     create_error + 'x \<Rightarrow> bool" where
  "factory_result host cfg new full res \<longleftrightarrow>
     (case xh_LoadDefaultConfig host (cfg_Region cfg) of
        Some e \<Rightarrow> res = Inl (NewExporterError (KinesisClientError e))
      | None \<Rightarrow>
          (case newExporterTelemetry (xh_MeterProvider host) of
             Inl (what, e) \<Rightarrow> res = Inl (NewExporterError (TelemetryError (what @ '': '' @ e)))
           | Inr _ \<Rightarrow> \<exists>push opts. res = lift_helper (new push opts) \<and> push_within cfg push \<and>
               opts = [WithCapabilities False, WithStart None, WithShutdown None, WithTimeout (cfg_Timeout cfg),
                 WithRetry (fc_RetryConfig full), WithQueue (fc_QueueConfig full)]))"

lemma factory_result_built:
  assumes v: "Validate (pl_regexp (xl_plan xl)) (fc_config full) = None"
    and within: "\<And>e cl. ke_cfg e = fc_config full \<Longrightarrow> push_within (fc_config full) (consume cl e)"
    and res: "res = (case build_exporter host xl (fc_config full) of
       Inl e \<Rightarrow> Inl (NewExporterError e) | Inr (e, cl) \<Rightarrow> lift_helper (new (consume cl e) (helperOptions e full)))"
  shows "factory_result host (fc_config full) new full res"
  using build_exporter_validated [OF v, of host] within res
  by (auto simp: factory_result_def helperOptions_def Exporter_Start_def Exporter_Shutdown_def split: option.splits sum.splits)

theorem factory_keeps_limits:
  assumes v: "Validate (pl_regexp (xl_plan xl)) (fc_config full) = None" and u: "uuids kl"
  shows "factory_result host (fc_config full) (eh_NewTraces eh) full (fa_traces (NewFactory q t host eh xl kl) (ConfigValue full)) \<and>
    factory_result host (fc_config full) (eh_NewMetrics eh) full (fa_metrics (NewFactory q t host eh xl kl) (ConfigValue full)) \<and>
    factory_result host (fc_config full) (eh_NewLogs eh) full (fa_logs (NewFactory q t host eh xl kl) (ConfigValue full)) \<and>
    fa_traces (NewFactory q t host eh xl kl) (OtherValue s) = Inl (UnexpectedConfig s)"
proof -
  have w: "ke_cfg e = fc_config full \<Longrightarrow> push_within (fc_config full) (ConsumeTraces cl kl xl e)"
    "ke_cfg e = fc_config full \<Longrightarrow> push_within (fc_config full) (ConsumeMetrics cl kl xl e)"
    "ke_cfg e = fc_config full \<Longrightarrow> push_within (fc_config full) (ConsumeLogs cl kl xl e)" for e cl
    using v u traces_signal.emit_within [of _ e kl] metrics_signal.emit_within [of _ e kl] logs_signal.emit_within [of _ e kl]
    by (auto simp: push_within_def ConsumeTraces_def ConsumeMetrics_def ConsumeLogs_def)
  show ?thesis
    by (intro conjI factory_result_built [OF v w(1)] factory_result_built [OF v w(2)] factory_result_built [OF v w(3)])
      (simp_all add: NewFactory_def createTracesExporter_def createMetricsExporter_def createLogsExporter_def)
qed

definition sample_host :: "nat exporter_host" where
  "sample_host = \<lparr>xh_LoadDefaultConfig = (\<lambda>region. None), xh_NewFromConfig = (\<lambda>region endpoint. flaky_client),
     xh_MeterProvider = (\<lambda>i. None)\<rparr>"

text \<open>A helper that hands back the options it was given.\<close>

definition sample_helper :: "(unit, unit, nat, (unit, unit) helper_option list) exporterhelper" where
  "sample_helper = \<lparr>eh_NewTraces = (\<lambda>push opts. Inr opts), eh_NewMetrics = (\<lambda>push opts. Inr opts),
     eh_NewLogs = (\<lambda>push opts. Inl ''no logs'')\<rparr>"

abbreviation sample_full :: "(unit, unit) FullConfig" where
  "sample_full \<equiv> \<lparr>fc_config = ke_cfg valid_exporter, fc_QueueConfig = (), fc_RetryConfig = ()\<rparr>"

theorem factory_keeps_limits_witness:
  "\<exists>opts. fa_traces (NewFactory () () sample_host sample_helper sample_export_lib sample_keys) (ConfigValue sample_full) = Inr opts \<and>
     WithTimeout (30 * Second) \<in> set opts \<and>
     fa_logs (NewFactory () () sample_host sample_helper sample_export_lib sample_keys) (ConfigValue sample_full) =
       Inl (HelperError ''no logs'')"
proof -
  have v: "Validate (pl_regexp (xl_plan sample_export_lib)) (fc_config sample_full) = None" by code_simp
  have t: "newExporterTelemetry (xh_MeterProvider sample_host) \<noteq> Inl x" for x
    by (simp add: newExporterTelemetry_def create_def sample_host_def Let_def)
  have c: "cfg_Timeout (ke_cfg valid_exporter) = 30 * Second" by code_simp
  from factory_keeps_limits [OF v sample_keys_uuids, of sample_host sample_helper "()" "()" "[]"] t c
  show ?thesis
    by (auto simp: factory_result_def sample_host_def sample_helper_def lift_helper_def split: sum.splits)
qed

end
