(* ===== verification/Linegen.thy ===== *)
theory Linegen
  imports Prelude
begin

section \<open>The load generator (cmd/linegen)\<close>

text \<open>
  \<^verbatim>\<open>cmd/linegen/main.go\<close>: reading the settings from the environment, the generation loop with
  its batches, and the exit.  The environment is a function, \<^verbatim>\<open>http.Client.Post\<close> one over a world
  \<open>'w\<close> that returns an error or a status code; each body posted is kept in a log.  \<open>i\<close>, \<open>total\<close> and
  the counts are Go \<^verbatim>\<open>int\<close>s that stay within \<^verbatim>\<open>total\<close>, so they are \<open>nat\<close>; timestamps are 64 bits
  wide.  The lemmas: the bodies posted are the lines in order, cut into full batches, each line
  once, and the counts printed are those of the lines.
\<close>

definition measurements :: "string list" where
  "measurements = [''http_requests'', ''http_latency'', ''system_cpu'']"

definition regionNames :: "string list" where
  "regionNames = [''us-east'', ''us-west'', ''eu-west'', ''eu-central'', ''ap-south'']"

subsection \<open>Settings\<close>

text \<open>\<^verbatim>\<open>os.Getenv\<close> answers with the empty string for an unset variable.\<close>

definition env :: "(string \<Rightarrow> string) \<Rightarrow> string \<Rightarrow> string \<Rightarrow> string" where
  "env getenv key def = (let v = getenv key in if v \<noteq> [] then v else def)"

definition envInt :: "(string \<Rightarrow> string) \<Rightarrow> string \<Rightarrow> int \<Rightarrow> int" where
  "envInt getenv key def =
     (let v = getenv key
      in if v \<noteq> [] then (case ParseInt v of Some n \<Rightarrow> sint n | None \<Rightarrow> def) else def)"

text \<open>\<^verbatim>\<open>strings.TrimRight(s, "/")\<close>.\<close>

definition trim_right_slash :: "string \<Rightarrow> string" where
  "trim_right_slash s = rev (dropWhile (\<lambda>c. c = CHR ''/'') (rev s))"

text \<open>\<^verbatim>\<open>strings.IndexByte(name, '_') > 0\<close> is a separator that is not the first character.\<close>

definition namespaceOf :: "string \<Rightarrow> string" where
  "namespaceOf name =
     (let pre = takeWhile (\<lambda>c. c \<noteq> CHR ''_'') name
      in if pre \<noteq> [] \<and> pre \<noteq> name then pre else name)"

subsection \<open>Lines\<close>

text \<open>
  \<^verbatim>\<open>strconv.FormatFloat(v, 'f', 2, 64)\<close> of \<^verbatim>\<open>float64(k) / 100.0\<close> for a \<open>k\<close> below 100: the two digits of \<open>k\<close>.
\<close>

definition hundredths :: "nat \<Rightarrow> string" where
  "hundredths k = ''0.'' @ [digit_char (k div 10), digit_char (k mod 10)]"

definition line :: "int64 \<Rightarrow> nat \<Rightarrow> nat \<Rightarrow> nat \<Rightarrow> nat \<Rightarrow> string" where
  "line base hosts regions instances i =
     (let h = i mod hosts; r = (i div hosts) mod regions; d = i mod instances;
          measurement = measurements ! (i mod length measurements);
          region = regionNames ! (r mod length regionNames);
          ts = base + word_of_nat i * Millisecond
      in measurement @ '',host=h'' @ format_nat h @ '',region='' @ region @ '',instance=inst'' @ format_nat d @
         '' value='' @ hundredths (i mod 100) @ '' '' @ FormatInt ts @ [CHR 0x0A])"

subsection \<open>The run\<close>

datatype post_result = Transport string | Status int

datatype linegen_error = NotPositive | PostFailed string | BadStatus string int

record 'w linegen_io =
  li_Getenv :: "string \<Rightarrow> string"
  li_UnixNano :: int64
  li_Post :: "string \<Rightarrow> string \<Rightarrow> 'w \<Rightarrow> post_result \<times> 'w"

definition post :: "'w linegen_io \<Rightarrow> string \<Rightarrow> string \<Rightarrow> 'w \<Rightarrow> linegen_error option \<times> 'w" where
  "post io url body w =
     (case li_Post io url body w of
        (Transport e, w') \<Rightarrow> (Some (PostFailed e), w')
      | (Status code, w') \<Rightarrow> (if go_div code 100 \<noteq> 2 then (Some (BadStatus url code), w') else (None, w')))"

record 'w gen =
  gn_buf :: string
  gn_inBatch :: nat
  gn_instances :: "nat set"
  gn_namespaces :: "string set"
  gn_posted :: "string list"
  gn_world :: 'w

definition flush_lines :: "'w linegen_io \<Rightarrow> string \<Rightarrow> 'w gen \<Rightarrow> linegen_error option \<times> 'w gen" where
  "flush_lines io url g =
     (if gn_inBatch g = 0 then (None, g)
      else (case post io url (gn_buf g) (gn_world g) of
          (Some e, w') \<Rightarrow> (Some e, g\<lparr>gn_posted := gn_posted g @ [gn_buf g], gn_world := w'\<rparr>)
        | (None, w') \<Rightarrow> (None, g\<lparr>gn_buf := [], gn_inBatch := 0, gn_posted := gn_posted g @ [gn_buf g], gn_world := w'\<rparr>)))"

text \<open>One pass of the loop, for the index \<open>i\<close>.\<close>

definition add_line :: "int64 \<Rightarrow> nat \<Rightarrow> nat \<Rightarrow> nat \<Rightarrow> nat \<Rightarrow> 'w gen \<Rightarrow> 'w gen" where
  "add_line base hosts regions instances i g =
     g\<lparr>gn_instances := insert (i mod instances) (gn_instances g),
       gn_namespaces := insert (namespaceOf (measurements ! (i mod length measurements))) (gn_namespaces g),
       gn_buf := gn_buf g @ line base hosts regions instances i,
       gn_inBatch := gn_inBatch g + 1\<rparr>"

fun gen_lines ::
  "'w linegen_io \<Rightarrow> string \<Rightarrow> nat \<Rightarrow> nat \<Rightarrow> nat \<Rightarrow> nat \<Rightarrow> nat list \<Rightarrow> 'w gen \<Rightarrow> linegen_error option \<times> 'w gen" where
  "gen_lines io url hosts regions instances batch [] g = (None, g)"
| "gen_lines io url hosts regions instances batch (i # rest) g =
     (let g1 = add_line (li_UnixNano io) hosts regions instances i g
      in if gn_inBatch g1 \<ge> batch
         then (case flush_lines io url g1 of
             (Some e, g2) \<Rightarrow> (Some e, g2)
           | (None, g2) \<Rightarrow> gen_lines io url hosts regions instances batch rest g2)
         else gen_lines io url hosts regions instances batch rest g1)"

text \<open>The three lines of stdout, as numbers.\<close>

record report =
  LINEGEN_SENT :: nat
  LINEGEN_DISTINCT_INSTANCES :: nat
  LINEGEN_DISTINCT_NAMESPACES :: nat

definition linegen_run :: "'w linegen_io \<Rightarrow> 'w \<Rightarrow> (linegen_error + report) \<times> string list \<times> 'w" where
  "linegen_run io w =
     (let endpoint = env (li_Getenv io) ''INFLUX_ENDPOINT'' ''http://producer-metrics:8086'';
          total = envInt (li_Getenv io) ''TOTAL'' 2000;
          hosts = envInt (li_Getenv io) ''HOSTS'' 8;
          regions = envInt (li_Getenv io) ''REGIONS'' 3;
          instances = envInt (li_Getenv io) ''INSTANCES'' 4;
          batch = envInt (li_Getenv io) ''BATCH'' 200
      in if total \<le> 0 \<or> hosts \<le> 0 \<or> regions \<le> 0 \<or> instances \<le> 0 \<or> batch \<le> 0 then (Inl NotPositive, [], w)
         else (let writeURL = trim_right_slash endpoint @ ''/write'';
                   g0 = \<lparr>gn_buf = [], gn_inBatch = 0, gn_instances = {}, gn_namespaces = {}, gn_posted = [], gn_world = w\<rparr>
               in case gen_lines io writeURL (nat hosts) (nat regions) (nat instances) (nat batch) [0..<nat total] g0 of
                    (Some e, g) \<Rightarrow> (Inl e, gn_posted g, gn_world g)
                  | (None, g) \<Rightarrow>
                      (case flush_lines io writeURL g of
                         (Some e, g') \<Rightarrow> (Inl e, gn_posted g', gn_world g')
                       | (None, g') \<Rightarrow>
                           (Inr \<lparr>LINEGEN_SENT = nat total, LINEGEN_DISTINCT_INSTANCES = card (gn_instances g'),
                              LINEGEN_DISTINCT_NAMESPACES = card (gn_namespaces g')\<rparr>, gn_posted g', gn_world g'))))"

text \<open>\<^verbatim>\<open>main\<close>: the exit code.\<close>

definition main :: "'w linegen_io \<Rightarrow> 'w \<Rightarrow> nat \<times> 'w" where
  "main io w = (case linegen_run io w of (Inl _, _, w') \<Rightarrow> (1, w') | (Inr _, _, w') \<Rightarrow> (0, w'))"

subsection \<open>What a run posts\<close>

lemma gen_lines_spec:
  assumes "gen_lines io url hosts regions instances batch is g = (r, g')" "0 < batch"
    and "gn_buf g = concat pre" "gn_inBatch g = length pre" "length pre < batch"
  shows "\<exists>lss rest. gn_posted g' = gn_posted g @ map concat lss \<and> list_all (\<lambda>ls. length ls = batch) lss \<and>
    pre @ map (line (li_UnixNano io) hosts regions instances) is = concat lss @ rest \<and>
    (r = None \<longrightarrow> gn_buf g' = concat rest \<and> gn_inBatch g' = length rest \<and> length rest < batch \<and>
       gn_instances g' = gn_instances g \<union> (\<lambda>i. i mod instances) ` set is \<and>
       gn_namespaces g' = gn_namespaces g \<union> (\<lambda>i. namespaceOf (measurements ! (i mod length measurements))) ` set is)"
  using assms
proof (induction "is" arbitrary: g pre)
  case Nil
  then show ?case by (intro exI [of _ "[]"] exI [of _ pre]) auto
next
  case (Cons i rest)
  let ?l = "line (li_UnixNano io) hosts regions instances i"
  let ?g1 = "add_line (li_UnixNano io) hosts regions instances i g"
  have g1: "gn_buf ?g1 = concat (pre @ [?l])" "gn_inBatch ?g1 = length (pre @ [?l])" "gn_posted ?g1 = gn_posted g"
    "gn_instances ?g1 = insert (i mod instances) (gn_instances g)"
    "gn_namespaces ?g1 = insert (namespaceOf (measurements ! (i mod length measurements))) (gn_namespaces g)"
    using Cons.prems by (simp_all add: add_line_def)
  show ?case
  proof (cases "length (pre @ [?l]) \<ge> batch")
    case False
    with Cons.prems(1) g1(2) have "gen_lines io url hosts regions instances batch rest ?g1 = (r, g')"
      by (simp add: Let_def)
    from Cons.IH [OF this Cons.prems(2) g1(1,2)] False show ?thesis by (auto simp: g1)
  next
    case True
    then have full: "length (pre @ [?l]) = batch" using Cons.prems(5) by simp
    obtain e g2 where fl: "flush_lines io url ?g1 = (e, g2)" by fastforce
    have posted: "gn_posted g2 = gn_posted g @ [concat (pre @ [?l])]" using fl g1
      by (auto simp: flush_lines_def split: prod.splits option.splits)
    show ?thesis
    proof (cases e)
      case (Some x)
      with Cons.prems(1) True fl g1(2) have "r = Some x" "g' = g2" by (simp_all add: Let_def)
      with posted full show ?thesis by (intro exI [of _ "[pre @ [?l]]"]) simp
    next
      case None
      with fl g1 have g2: "gn_buf g2 = concat []" "gn_inBatch g2 = length []"
        "gn_instances g2 = gn_instances ?g1" "gn_namespaces g2 = gn_namespaces ?g1"
        by (auto simp: flush_lines_def split: prod.splits option.splits)
      from None Cons.prems(1) True fl g1(2) have "gen_lines io url hosts regions instances batch rest g2 = (r, g')"
        by (simp add: Let_def)
      from Cons.IH [OF this Cons.prems(2) g2(1,2)] Cons.prems(2) obtain lss left where
        ih: "gn_posted g' = gn_posted g2 @ map concat lss" "list_all (\<lambda>ls. length ls = batch) lss"
          "map (line (li_UnixNano io) hosts regions instances) rest = concat lss @ left"
          "r = None \<longrightarrow> gn_buf g' = concat left \<and> gn_inBatch g' = length left \<and> length left < batch \<and>
             gn_instances g' = gn_instances g2 \<union> (\<lambda>i. i mod instances) ` set rest \<and>
             gn_namespaces g' = gn_namespaces g2 \<union> (\<lambda>i. namespaceOf (measurements ! (i mod length measurements))) ` set rest"
        by auto
      then show ?thesis
        using full posted
        by (intro exI [of _ "(pre @ [?l]) # lss"] exI [of _ left]) (auto simp: g2(3,4) g1(4,5))
    qed
  qed
qed

lemma mod_image: "0 < k \<Longrightarrow> (\<lambda>i. i mod k) ` {0..<n} = {0..<min n k}" for n k :: nat
proof (intro set_eqI iffI)
  fix x assume "0 < k" "x \<in> {0..<min n k}"
  then show "x \<in> (\<lambda>i. i mod k) ` {0..<n}" by (intro image_eqI [of _ _ x]) auto
qed (auto intro: le_less_trans [OF mod_less_eq_dividend])

lemma namespaces_of_lines:
  assumes "0 < n"
  shows "card ((\<lambda>i. namespaceOf (measurements ! (i mod length measurements))) ` {0..<n}) = (if n < 3 then 1 else 2)"
proof -
  have "(\<lambda>i. namespaceOf (measurements ! (i mod length measurements))) ` {0..<n} =
      (\<lambda>j. namespaceOf (measurements ! j)) ` ((\<lambda>i. i mod 3) ` {0..<n})"
    by (simp add: image_image measurements_def)
  also have "\<dots> = (\<lambda>j. namespaceOf (measurements ! j)) ` {0..<min n 3}" by (simp only: mod_image [OF zero_less_numeral])
  also have "card \<dots> = (if n < 3 then 1 else 2)"
  proof -
    have v: "namespaceOf (measurements ! 0) = ''http''" "namespaceOf (measurements ! 1) = ''http''"
      "namespaceOf (measurements ! 2) = ''system''" by code_simp+
    consider "n = 1" | "n = 2" | "3 \<le> n" using assms by linarith
    then show ?thesis
    proof cases
      case 2
      then have "{0..<min n 3} = {0, 1}" by auto
      with 2 v show ?thesis by simp
    next
      case 3
      then have "{0..<min n 3} = {0, 1, 2}" by auto
      with 3 v show ?thesis by simp
    qed (use v in \<open>simp add: atLeast0_lessThan_Suc\<close>)
  qed
  finally show ?thesis .
qed

text \<open>The settings of a run, and its lines.\<close>

definition total_of :: "'w linegen_io \<Rightarrow> nat" where
  "total_of io = nat (envInt (li_Getenv io) ''TOTAL'' 2000)"

definition lines_of :: "'w linegen_io \<Rightarrow> string list" where
  "lines_of io =
     map (line (li_UnixNano io) (nat (envInt (li_Getenv io) ''HOSTS'' 8)) (nat (envInt (li_Getenv io) ''REGIONS'' 3))
       (nat (envInt (li_Getenv io) ''INSTANCES'' 4))) [0..<total_of io]"

definition batches :: "'w linegen_io \<Rightarrow> string list \<Rightarrow> string list list \<Rightarrow> bool" where
  "batches io posted lss \<longleftrightarrow> posted = map concat lss \<and>
     (\<forall>ls\<in>set (butlast lss). length ls = nat (envInt (li_Getenv io) ''BATCH'' 200)) \<and>
     (\<forall>ls\<in>set lss. 0 < length ls \<and> length ls \<le> nat (envInt (li_Getenv io) ''BATCH'' 200))"

text \<open>
  What a run posts: the generated lines in order, each once, in bodies of \<^verbatim>\<open>BATCH\<close> lines but for the
  last; a run that fails has posted a part of them from the start.  The numbers on stdout are the
  lines sent, the distinct instances and the distinct namespaces among them.
\<close>

theorem linegen_posts_every_line:
  assumes "linegen_run io w = (res, posted, w')"
  shows "\<exists>lss rest. batches io posted lss \<and> lines_of io = concat lss @ rest \<and>
    (\<forall>rep. res = Inr rep \<longrightarrow> rest = [] \<and> LINEGEN_SENT rep = length (lines_of io) \<and>
       int (LINEGEN_DISTINCT_INSTANCES rep) = min (int (total_of io)) (envInt (li_Getenv io) ''INSTANCES'' 4) \<and>
       LINEGEN_DISTINCT_NAMESPACES rep = (if total_of io < 3 then 1 else 2))"
proof -
  define url where "url = trim_right_slash (env (li_Getenv io) ''INFLUX_ENDPOINT'' ''http://producer-metrics:8086'') @ ''/write''"
  define total where "total = envInt (li_Getenv io) ''TOTAL'' 2000"
  define hosts where "hosts = envInt (li_Getenv io) ''HOSTS'' 8"
  define regions where "regions = envInt (li_Getenv io) ''REGIONS'' 3"
  define instances where "instances = envInt (li_Getenv io) ''INSTANCES'' 4"
  define batch where "batch = envInt (li_Getenv io) ''BATCH'' 200"
  note sets = total_def [symmetric] hosts_def [symmetric] regions_def [symmetric] instances_def [symmetric]
    batch_def [symmetric] url_def [symmetric]
  define g0 where "g0 = \<lparr>gn_buf = [], gn_inBatch = 0, gn_instances = {}, gn_namespaces = {}, gn_posted = [], gn_world = w\<rparr>"
  have lines: "lines_of io = map (line (li_UnixNano io) (nat hosts) (nat regions) (nat instances)) [0..<nat total]"
    by (simp add: lines_of_def total_of_def sets)
  show ?thesis
  proof (cases "total \<le> 0 \<or> hosts \<le> 0 \<or> regions \<le> 0 \<or> instances \<le> 0 \<or> batch \<le> 0")
    case True
    with assms have "res = Inl NotPositive" "posted = []" by (auto simp: linegen_run_def Let_def sets)
    then show ?thesis by (intro exI [of _ "[]"] exI [of _ "lines_of io"]) (simp add: batches_def)
  next
    case False
    then have pos: "0 < nat batch" "0 < nat instances" "0 < nat total" by auto
    obtain r g where gen: "gen_lines io url (nat hosts) (nat regions) (nat instances) (nat batch) [0..<nat total] g0 = (r, g)"
      by fastforce
    from gen_lines_spec [OF gen pos(1), of "[]"] pos(1) obtain lss rest where
      spec: "gn_posted g = map concat lss" "list_all (\<lambda>ls. length ls = nat batch) lss" "lines_of io = concat lss @ rest"
        "r = None \<longrightarrow> gn_buf g = concat rest \<and> gn_inBatch g = length rest \<and> length rest < nat batch \<and>
           gn_instances g = (\<lambda>i. i mod nat instances) ` {0..<nat total} \<and>
           gn_namespaces g = (\<lambda>i. namespaceOf (measurements ! (i mod length measurements))) ` {0..<nat total}"
      by (auto simp: g0_def lines)
    have full: "batches io (map concat lss) lss"
      using spec(2) pos(1) by (auto simp: batches_def list_all_iff sets dest: in_set_butlastD)
    have longer: "batches io (map concat lss @ [concat rest]) (lss @ [rest])" if "rest \<noteq> []" "length rest < nat batch"
      using spec(2) pos(1) that by (auto simp: batches_def list_all_iff sets)
    show ?thesis
    proof (cases r)
      case (Some e)
      with assms False gen have "res = Inl e" "posted = gn_posted g" by (auto simp: linegen_run_def Let_def sets g0_def)
      with spec full show ?thesis by (intro exI [of _ lss] exI [of _ rest]) simp
    next
      case None
      obtain r' g' where fl: "flush_lines io url g = (r', g')" by fastforce
      with assms False gen None have posted: "posted = gn_posted g'"
        and fail: "r' = Some e \<Longrightarrow> res = Inl e" for e
        by (auto simp: linegen_run_def Let_def sets g0_def split: option.splits)
      have cards: "r' = None \<Longrightarrow> res = Inr \<lparr>LINEGEN_SENT = nat total,
          LINEGEN_DISTINCT_INSTANCES = card (gn_instances g'), LINEGEN_DISTINCT_NAMESPACES = card (gn_namespaces g')\<rparr>"
        using assms False gen None fl by (auto simp: linegen_run_def Let_def sets g0_def)
      have keep: "gn_instances g' = gn_instances g" "gn_namespaces g' = gn_namespaces g"
        and out: "gn_posted g' = (if rest = [] then gn_posted g else gn_posted g @ [concat rest])"
        using fl spec(4) None by (auto simp: flush_lines_def split: prod.splits option.splits if_splits)
      have n: "int (card (gn_instances g')) = min (int (nat total)) instances"
        "card (gn_namespaces g') = (if nat total < 3 then 1 else 2)"
        using spec(4) None pos by (simp_all add: keep mod_image namespaces_of_lines min_def nat_le_eq_zle)
      have len: "length (lines_of io) = nat total" by (simp add: lines)
      let ?lss = "if rest = [] then lss else lss @ [rest]"
      have "batches io posted ?lss" using full longer spec None by (simp add: posted out)
      moreover have "lines_of io = concat ?lss @ []" using spec(3) by simp
      ultimately show ?thesis
        using cards fail n len by (intro exI [of _ ?lss] exI [of _ "[]"], cases r') (auto simp: total_of_def sets)
    qed
  qed
qed

definition sample_io :: "nat linegen_io" where
  "sample_io = \<lparr>li_Getenv = (\<lambda>k. if k = ''TOTAL'' then ''5'' else if k = ''BATCH'' then ''2'' else
       if k = ''HOSTS'' then ''many'' else ''''),
     li_UnixNano = 0, li_Post = (\<lambda>url body w. (Status 204, w + 1))\<rparr>"

lemma sample_settings:
  "envInt (li_Getenv sample_io) ''TOTAL'' 2000 = 5" "envInt (li_Getenv sample_io) ''HOSTS'' 8 = 8"
  "envInt (li_Getenv sample_io) ''REGIONS'' 3 = 3" "envInt (li_Getenv sample_io) ''INSTANCES'' 4 = 4"
  "envInt (li_Getenv sample_io) ''BATCH'' 200 = 2"
proof -
  have p: "ParseInt ''5'' = Some 5" "ParseInt ''2'' = Some 2"
    by (simp_all add: ParseInt_def parse_uint_def char_digit_def)
  have q: "ParseInt ''many'' = None" by (simp add: ParseInt_def parse_uint_def char_digit_def)
  show "envInt (li_Getenv sample_io) ''TOTAL'' 2000 = 5" "envInt (li_Getenv sample_io) ''HOSTS'' 8 = 8"
    "envInt (li_Getenv sample_io) ''REGIONS'' 3 = 3" "envInt (li_Getenv sample_io) ''INSTANCES'' 4 = 4"
    "envInt (li_Getenv sample_io) ''BATCH'' 200 = 2"
    by (simp_all add: envInt_def sample_io_def p q)
qed

theorem linegen_posts_every_line_witness:
  "\<exists>res posted lss rest w'. linegen_run sample_io 0 = (res, posted, w') \<and> batches sample_io posted lss \<and>
     lines_of sample_io = concat lss @ rest \<and>
     res = Inr \<lparr>LINEGEN_SENT = 5, LINEGEN_DISTINCT_INSTANCES = 4, LINEGEN_DISTINCT_NAMESPACES = 2\<rparr> \<and> rest = []"
proof -
  obtain res posted w' where r: "linegen_run sample_io 0 = (res, posted, w')" by (metis prod_cases3)
  have post: "post sample_io url body w = (None, w + 1)" for url body w
    by (simp add: post_def sample_io_def go_div_nonneg)
  have fl: "flush_lines sample_io url g = (e, g') \<Longrightarrow> e = None" for url g e g'
    by (auto simp: flush_lines_def post split: if_splits)
  have gen: "gen_lines sample_io url h k d b is g = (e, g') \<Longrightarrow> e = None" for url h k d b "is" g e g'
    by (induction "is" arbitrary: g) (auto simp: Let_def dest: fl split: prod.splits option.splits if_splits)
  have t: "total_of sample_io = 5" by (simp add: total_of_def sample_settings)
  have "\<exists>rep. res = Inr rep"
    using r by (auto simp: linegen_run_def sample_settings Let_def dest: gen fl split: prod.splits option.splits)
  then obtain rep where rep: "res = Inr rep" by blast
  from linegen_posts_every_line [OF r] rep obtain lss rest where
    s: "batches sample_io posted lss" "lines_of sample_io = concat lss @ rest" "rest = []"
    "LINEGEN_SENT rep = length (lines_of sample_io)" "int (LINEGEN_DISTINCT_INSTANCES rep) = 4"
    "LINEGEN_DISTINCT_NAMESPACES rep = 2" by (auto simp: t sample_settings)
  have "rep = \<lparr>LINEGEN_SENT = 5, LINEGEN_DISTINCT_INSTANCES = 4, LINEGEN_DISTINCT_NAMESPACES = 2\<rparr>"
    using s(4-6) by (simp add: lines_of_def t)
  with r rep s show ?thesis by blast
qed

text \<open>
  The prefix that \<^verbatim>\<open>namespaceOf\<close> counts is what the exporter's \<open>^([a-z]+)_\<close> captures from a
  measurement: lower-case letters up to the first underscore.
\<close>

theorem namespace_of_prefix:
  assumes "pre \<noteq> []" "\<forall>c\<in>set pre. CHR ''a'' \<le> c \<and> c \<le> CHR ''z''"
  shows "namespaceOf (pre @ CHR ''_'' # rest) = pre"
proof -
  have "CHR ''_'' \<notin> set pre" using assms(2) by (auto simp: less_eq_char_def)
  then have "takeWhile (\<lambda>c. c \<noteq> CHR ''_'') (pre @ CHR ''_'' # rest) = pre"
    by (subst takeWhile_append2) auto
  with assms(1) show ?thesis by (simp add: namespaceOf_def Let_def)
qed

theorem namespace_of_prefix_witness: "namespaceOf ''http_requests'' = ''http''"
proof -
  have "\<forall>c\<in>set ''http''. CHR ''a'' \<le> c \<and> c \<le> CHR ''z''" by (simp add: less_eq_char_def)
  from namespace_of_prefix [OF _ this, of "''requests''"] show ?thesis by simp
qed

end
