(* ===== verification/Datasets.thy ===== *)
theory Datasets
  imports Batch
begin

section \<open>Benchmark data (perf/datasets.go, perf/stats.go)\<close>

text \<open>
  \<^verbatim>\<open>perf/datasets.go\<close> and \<^verbatim>\<open>perf/stats.go\<close>: the synthetic batches the encoding benchmarks run on, and
  the percentiles they report.  The random source of \<^verbatim>\<open>math/rand/v2\<close> is a record of functions over
  its state \<open>'g\<close>, threaded through in the order of the calls.  Timestamps, identifiers and the
  parts of a histogram that \<open>Batch\<close> keeps opaque, and the bits of the three floating-point
  results, are built by the functions of \<open>perf_lib\<close>.  The lemmas: a batch has exactly the size
  asked for, the high-cardinality profile gives every datapoint an attribute set of its own,
  the high-frequency one at most 24 in all, and the profiles draw from different streams.
\<close>

subsection \<open>Profiles and vocabularies\<close>

definition PerfSeed :: "64 word" where "PerfSeed = 0xC0FFEEBABE"

abbreviation MetricsHighCardinality :: string where "MetricsHighCardinality \<equiv> ''metrics-high-cardinality''"
abbreviation MetricsHighFrequency :: string where "MetricsHighFrequency \<equiv> ''metrics-high-frequency''"
abbreviation MetricsBalanced :: string where "MetricsBalanced \<equiv> ''metrics-balanced''"
abbreviation TracesTypical :: string where "TracesTypical \<equiv> ''traces-typical''"

definition MetricsProfiles :: "string list" where
  "MetricsProfiles = [MetricsHighCardinality, MetricsHighFrequency, MetricsBalanced]"

definition BatchSizes :: "int list" where
  "BatchSizes = [1, 10, 100, 1000, 10000, 100000]"

definition hosts :: "string list" where
  "hosts = [''alpha'', ''bravo'', ''charlie'', ''delta'', ''echo'', ''foxtrot'', ''golf'', ''hotel'']"
definition regions :: "string list" where
  "regions = [''us-east-1'', ''us-west-2'', ''eu-west-1'', ''ap-southeast-2'']"
definition services :: "string list" where
  "services = [''checkout'', ''search'', ''catalog'', ''payments'', ''auth'', ''shipping'']"
definition envs :: "string list" where
  "envs = [''prod'', ''stage'', ''dev'']"
definition versions :: "string list" where
  "versions = [''v1.0.0'', ''v1.1.3'', ''v2.0.0'', ''v2.1.0'']"
definition endpoints :: "string list" where
  "endpoints = [''/v1/cart'', ''/v1/items'', ''/v1/users'', ''/v1/search'', ''/healthz'', ''/metrics'']"

subsection \<open>Libraries\<close>

text \<open>\<^verbatim>\<open>IntN\<close> and \<^verbatim>\<open>UintN\<close> answer below their argument.\<close>

record 'g rand =
  rd_NewPCG :: "64 word \<Rightarrow> 64 word \<Rightarrow> 'g"
  rd_IntN :: "nat \<Rightarrow> 'g \<Rightarrow> nat \<times> 'g"
  rd_Uint32 :: "'g \<Rightarrow> 32 word \<times> 'g"
  rd_UintN :: "nat \<Rightarrow> 'g \<Rightarrow> nat \<times> 'g"

definition rand_law :: "'g rand \<Rightarrow> bool" where
  "rand_law r \<longleftrightarrow> (\<forall>n g. 0 < n \<longrightarrow> fst (rd_IntN r n g) < n \<and> fst (rd_UintN r n g) < n)"

record perf_lib =
  pf_span :: "string \<Rightarrow> string \<Rightarrow> 64 word \<Rightarrow> 64 word \<Rightarrow> nat"
  pf_point :: "64 word option \<Rightarrow> 64 word \<Rightarrow> nat"
  pf_histogram :: "64 word \<Rightarrow> nat \<Rightarrow> nat"
  pf_half3 :: "nat \<Rightarrow> nat"
  pf_thousandth :: "nat \<Rightarrow> nat"

definition PutInt :: "string \<Rightarrow> int64 \<Rightarrow> attrs \<Rightarrow> attrs" where
  "PutInt k v m = AList.update k (ValueTypeInt v) m"

definition pick :: "'g rand \<Rightarrow> string list \<Rightarrow> 'g \<Rightarrow> string \<times> 'g" where
  "pick r v g = (case rd_IntN r (length v) g of (i, g') \<Rightarrow> (v ! i, g'))"

fun fillBytes :: "'g rand \<Rightarrow> nat \<Rightarrow> 'g \<Rightarrow> string \<times> 'g" where
  "fillBytes r 0 g = ([], g)"
| "fillBytes r (Suc n) g =
     (case rd_UintN r 256 g of (b, g1) \<Rightarrow> case fillBytes r n g1 of (out, g2) \<Rightarrow> (char_of b # out, g2))"

definition hash32 :: "string \<Rightarrow> 32 word" where
  "hash32 s = fold (\<lambda>c h. (xor h (of_char c)) * 16777619) s 2166136261"

text \<open>\<^verbatim>\<open>%0nd\<close> and \<^verbatim>\<open>%0nx\<close>.\<close>

definition zero_padded :: "nat \<Rightarrow> nat \<Rightarrow> string" where
  "zero_padded w n = replicate (w - length (format_nat n)) CHR ''0'' @ format_nat n"

definition hex_padded :: "nat \<Rightarrow> nat \<Rightarrow> string" where
  "hex_padded w n = map (\<lambda>i. hex_digit (n div 16 ^ i mod 16)) (rev [0..<w])"

subsection \<open>Generators\<close>

text \<open>A batch of one resource with one scope.\<close>

definition one_scope :: "attrs \<Rightarrow> string \<Rightarrow> 'l list \<Rightarrow> 'l batch" where
  "one_scope a name ls =
     [\<lparr>rg_resource = \<lparr>res_attrs = a, res_rest = 0\<rparr>, rg_schema = [],
       rg_scopes = [\<lparr>sg_scope = \<lparr>sc_name = name, sc_version = [], sc_attrs = [], sc_rest = 0\<rparr>, sg_schema = [], sg_leaves = ls\<rparr>]\<rparr>]"

text \<open>The loop \<^verbatim>\<open>for i := 0; i < batchSize; i++\<close>, from \<open>i\<close> on for \<open>n\<close> passes.\<close>

fun gen_loop :: "(nat \<Rightarrow> 'g \<Rightarrow> 'a \<times> 'g) \<Rightarrow> nat \<Rightarrow> nat \<Rightarrow> 'g \<Rightarrow> 'a list \<times> 'g" where
  "gen_loop f i 0 g = ([], g)"
| "gen_loop f i (Suc n) g = (case f i g of (x, g1) \<Rightarrow> case gen_loop f (i + 1) n g1 of (xs, g2) \<Rightarrow> (x # xs, g2))"

definition status_code :: "nat \<Rightarrow> int64" where
  "status_code i = word_of_nat (200 + (i mod 5) * 100)"

definition trace_span :: "'g rand \<Rightarrow> perf_lib \<Rightarrow> nat \<Rightarrow> 'g \<Rightarrow> span \<times> 'g" where
  "trace_span r pf i g =
     (case pick r [''GET'', ''POST'', ''PUT''] g of (method, g) \<Rightarrow>
      case pick r endpoints g of (path, g) \<Rightarrow>
      case fillBytes r 16 g of (tid, g) \<Rightarrow>
      case fillBytes r 8 g of (sid, g) \<Rightarrow>
      case pick r endpoints g of (route, g) \<Rightarrow>
      case pick r hosts g of (peer, g) \<Rightarrow>
        (let start = word_of_nat i * 1000000
         in (\<lparr>sp_name = method @ '' '' @ path,
              sp_attrs = PutStr ''net.peer.name'' peer (PutInt ''http.status_code'' (status_code i) (PutStr ''http.route'' route [])),
              sp_events = [], sp_links = [], sp_rest = pf_span pf tid sid start (start + 500000)\<rparr>, g)))"

definition generateTraces :: "'g rand \<Rightarrow> perf_lib \<Rightarrow> nat \<Rightarrow> 'g \<Rightarrow> traces" where
  "generateTraces r pf batchSize g =
     (case pick r services g of (service, g) \<Rightarrow>
      case pick r envs g of (env, g) \<Rightarrow>
      case pick r versions g of (version, g) \<Rightarrow>
        one_scope (PutStr ''service.version'' version (PutStr ''deployment.environment'' env (PutStr ''service.name'' service [])))
          ''perf.tracer'' (fst (gen_loop (trace_span r pf) 0 batchSize g)))"

definition one_metric :: "string \<Rightarrow> string \<Rightarrow> metric_data \<Rightarrow> metric" where
  "one_metric name u d = \<lparr>m_name = name, m_description = [], m_unit = u, m_metadata = [], m_data = d\<rparr>"

definition highCardinality_point :: "'g rand \<Rightarrow> perf_lib \<Rightarrow> nat \<Rightarrow> 'g \<Rightarrow> datapoint \<times> 'g" where
  "highCardinality_point r pf i g =
     (case rd_Uint32 r g of (a, g) \<Rightarrow>
      case rd_Uint32 r g of (b, g) \<Rightarrow>
      case pick r endpoints g of (route, g) \<Rightarrow>
      case pick r [''GET'', ''POST'', ''PUT'', ''DELETE''] g of (method, g) \<Rightarrow>
      case pick r hosts g of (host, g) \<Rightarrow>
        (\<lparr>dp_attrs = PutStr ''host.name'' host (PutInt ''http.status_code'' (status_code i)
            (PutStr ''http.method'' method (PutStr ''http.route'' route
            (PutStr ''user.id'' (''u-'' @ hex_padded 8 (unat b))
            (PutStr ''request.id'' (''req-'' @ zero_padded 10 i @ ''-'' @ hex_padded 4 (unat (and a 0xFFFF))) []))))),
          dp_exemplars = [],
          dp_value = OtherValue (pf_histogram pf (word_of_nat (1 + i mod 17)) (pf_half3 pf i)),
          dp_rest = pf_point pf (Some (word_of_nat i * 1000000)) (word_of_nat i * 1000000 + 500000)\<rparr>, g))"

definition generateHighCardinality :: "'g rand \<Rightarrow> perf_lib \<Rightarrow> nat \<Rightarrow> 'g \<Rightarrow> metrics" where
  "generateHighCardinality r pf batchSize g =
     (case pick r services g of (service, g) \<Rightarrow>
      case pick r envs g of (env, g) \<Rightarrow>
        one_scope (PutStr ''deployment.environment'' env (PutStr ''service.name'' service [])) ''perf.high-cardinality''
          [one_metric ''http.server.request.duration'' ''ms''
             (MetricTypeHistogram 0 (fst (gen_loop (highCardinality_point r pf) 0 batchSize g)))])"

definition highFrequency_point :: "'g rand \<Rightarrow> perf_lib \<Rightarrow> nat \<Rightarrow> 'g \<Rightarrow> datapoint \<times> 'g" where
  "highFrequency_point r pf i g =
     (case rd_IntN r 1000 g of (k, g) \<Rightarrow>
        (\<lparr>dp_attrs = PutStr ''state'' ([''user'', ''system'', ''idle''] ! (i mod 3))
            (PutStr ''cloud.region'' (regions ! (i mod length regions))
            (PutStr ''host.name'' (hosts ! (i mod length hosts)) [])),
          dp_exemplars = [], dp_value = DoubleValue (pf_thousandth pf k),
          dp_rest = pf_point pf None (word_of_nat i * 100000)\<rparr>, g))"

definition generateHighFrequency :: "'g rand \<Rightarrow> perf_lib \<Rightarrow> nat \<Rightarrow> 'g \<Rightarrow> metrics" where
  "generateHighFrequency r pf batchSize g =
     (case pick r services g of (service, g) \<Rightarrow>
        one_scope (PutStr ''service.name'' service []) ''perf.high-frequency''
          [one_metric ''system.cpu.utilization'' ''1''
             (MetricTypeGauge (fst (gen_loop (highFrequency_point r pf) 0 batchSize g)))])"

definition balanced_point :: "'g rand \<Rightarrow> perf_lib \<Rightarrow> nat \<Rightarrow> 'g \<Rightarrow> datapoint \<times> 'g" where
  "balanced_point r pf i g =
     (case rd_IntN r 1000 g of (k, g) \<Rightarrow>
        (\<lparr>dp_attrs = PutStr ''tenant'' (''t-'' @ zero_padded 3 (i mod 50))
            (PutStr ''event.kind'' ([''created'', ''updated'', ''deleted'', ''queried''] ! (i mod 4))
            (PutStr ''endpoint'' (endpoints ! (i mod length endpoints))
            (PutStr ''host.name'' (hosts ! (i mod length hosts)) []))),
          dp_exemplars = [], dp_value = IntValue (word_of_nat (1 + k)),
          dp_rest = pf_point pf None (word_of_nat i * 500000)\<rparr>, g))"

definition generateBalanced :: "'g rand \<Rightarrow> perf_lib \<Rightarrow> nat \<Rightarrow> 'g \<Rightarrow> metrics" where
  "generateBalanced r pf batchSize g =
     (case pick r services g of (service, g) \<Rightarrow>
      case pick r envs g of (env, g) \<Rightarrow>
      case pick r versions g of (version, g) \<Rightarrow>
        one_scope (PutStr ''service.version'' version (PutStr ''deployment.environment'' env (PutStr ''service.name'' service [])))
          ''perf.balanced''
          [one_metric ''app.events.count'' [] (MetricTypeSum 0 False (fst (gen_loop (balanced_point r pf) 0 batchSize g)))])"

datatype perf_panic = InvalidBatchSize int | UnknownProfile string

definition GenerateMetrics :: "'g rand \<Rightarrow> perf_lib \<Rightarrow> string \<Rightarrow> int \<Rightarrow> perf_panic + metrics" where
  "GenerateMetrics r pf profile batchSize =
     (if batchSize \<le> 0 then Inl (InvalidBatchSize batchSize)
      else (let g = rd_NewPCG r PerfSeed (ucast (hash32 profile))
            in if profile = MetricsHighCardinality then Inr (generateHighCardinality r pf (nat batchSize) g)
               else if profile = MetricsHighFrequency then Inr (generateHighFrequency r pf (nat batchSize) g)
               else if profile = MetricsBalanced then Inr (generateBalanced r pf (nat batchSize) g)
               else Inl (UnknownProfile profile)))"

definition GenerateTraces :: "'g rand \<Rightarrow> perf_lib \<Rightarrow> int \<Rightarrow> perf_panic + traces" where
  "GenerateTraces r pf batchSize =
     (if batchSize \<le> 0 then Inl (InvalidBatchSize batchSize)
      else Inr (generateTraces r pf (nat batchSize) (rd_NewPCG r PerfSeed (ucast (hash32 TracesTypical)))))"

subsection \<open>Statistics\<close>

text \<open>\<open>trunc_mul f n\<close> is \<^verbatim>\<open>int(f * float64(n))\<close>.\<close>

definition percentile :: "('f \<Rightarrow> nat \<Rightarrow> int) \<Rightarrow> int64 list \<Rightarrow> 'f \<Rightarrow> int64" where
  "percentile trunc_mul samples f =
     (if samples = [] then 0
      else (let idx = trunc_mul f (length samples - 1);
                idx = (if idx < 0 then 0 else idx);
                idx = (if idx \<ge> int (length samples) then int (length samples) - 1 else idx)
            in samples ! nat idx))"

datatype fraction = P50 | P90

datatype reported = Nanoseconds int64 | Count nat

definition reportLatencyStats :: "(fraction \<Rightarrow> nat \<Rightarrow> int) \<Rightarrow> int64 list \<Rightarrow> (string \<times> reported) list" where
  "reportLatencyStats trunc_mul samples =
     (if samples = [] then []
      else (let samples = sort_key sint samples
            in [(''min_ns'', Nanoseconds (samples ! 0)),
                (''p50_ns'', Nanoseconds (percentile trunc_mul samples P50)),
                (''p90_ns'', Nanoseconds (percentile trunc_mul samples P90)),
                (''max_ns'', Nanoseconds (samples ! (length samples - 1))),
                (''samples'', Count (length samples))]))"

subsection \<open>Sizes\<close>

lemma length_gen_loop [simp]: "length (fst (gen_loop f i n g)) = n"
  by (induction n arbitrary: i g) (auto split: prod.splits, metis fst_conv)

lemma gen_loop_nth: "k < n \<Longrightarrow> \<exists>g'. fst (gen_loop f i n g) ! k = fst (f (i + k) g')"
proof (induction n arbitrary: i k g)
  case (Suc n)
  obtain x g1 where x: "f i g = (x, g1)" by fastforce
  then have eq: "fst (gen_loop f i (Suc n) g) = x # fst (gen_loop f (i + 1) n g1)" by (auto split: prod.splits)
  show ?case
  proof (cases k)
    case 0
    with x show ?thesis by (auto simp only: eq nth_Cons_0 add_0_right intro: exI [of _ g]) (metis fst_conv)
  next
    case (Suc m)
    with Suc.prems Suc.IH [of m "i + 1" g1] show ?thesis by (simp only: eq nth_Cons_Suc) simp
  qed
qed simp

lemma count_one_metric: "DataPointCount (one_scope a s [one_metric m u d]) = length (data_points d)"
  by (simp add: DataPointCount_def leaves_def group_leaves_def one_scope_def one_metric_def)

lemma count_one_scope: "leaf_count (one_scope a s ls) = length ls"
  by (simp add: leaf_count_def leaves_def group_leaves_def one_scope_def)

lemmas generator_defs = generateTraces_def generateHighCardinality_def generateHighFrequency_def generateBalanced_def

text \<open>
  A dataset has exactly the number of datapoints, or spans, asked for, whatever the random source
  answers; a size that is not positive and an unknown profile panic.
\<close>

theorem datasets_have_the_size_asked_for:
  "case GenerateMetrics r pf profile n of
     Inl e \<Rightarrow> e = (if n \<le> 0 then InvalidBatchSize n else UnknownProfile profile) \<and> (n \<le> 0 \<or> profile \<notin> set MetricsProfiles)
   | Inr md \<Rightarrow> profile \<in> set MetricsProfiles \<and> int (DataPointCount md) = n"
  "case GenerateTraces r pf n of
     Inl e \<Rightarrow> e = InvalidBatchSize n \<and> n \<le> 0
   | Inr td \<Rightarrow> int (leaf_count td) = n"
  by (auto simp: GenerateMetrics_def GenerateTraces_def MetricsProfiles_def generator_defs count_one_metric count_one_scope
      Let_def split: prod.splits)

subsection \<open>Cardinality\<close>

lemma parse_zeros: "parse_digits 0 (replicate k CHR ''0'' @ s) = parse_digits 0 s"
  by (induction k) (simp_all add: char_digit_def)

lemma zero_padded_inj: "zero_padded w m = zero_padded w n \<longleftrightarrow> m = n"
  using parse_digits_format by (metis option.inject parse_zeros zero_padded_def)

lemma length_hex_padded [simp]: "length (hex_padded w n) = w"
  by (simp add: hex_padded_def)

lemma Get_PutInt: "Get (PutInt k v m) k' = (if k' = k then Some (ValueTypeInt v) else Get m k')"
  by (simp add: Get_def PutInt_def update_conv')

lemma request_id:
  "Get (dp_attrs (fst (highCardinality_point r pf i g))) ''request.id'' =
     Some (ValueTypeStr (''req-'' @ zero_padded 10 i @ ''-'' @ hex_padded 4 (unat (and (fst (rd_Uint32 r g)) 0xFFFF))))"
  by (simp add: highCardinality_point_def Get_PutStr Get_PutInt split: prod.splits)

text \<open>The high-cardinality profile: no two datapoints of a batch have the same attributes.\<close>

theorem high_cardinality_is_unique:
  "distinct (map dp_attrs (fst (gen_loop (highCardinality_point r pf) 0 n g)))"
proof (clarsimp simp: distinct_conv_nth)
  fix i j
  let ?dps = "fst (gen_loop (highCardinality_point r pf) 0 n g)"
  assume ij: "i < n" "j < n" "i \<noteq> j" and eq: "dp_attrs (?dps ! i) = dp_attrs (?dps ! j)"
  from gen_loop_nth [OF ij(1), of "highCardinality_point r pf" 0 g] obtain g1 where
    i: "?dps ! i = fst (highCardinality_point r pf i g1)" by auto
  from gen_loop_nth [OF ij(2), of "highCardinality_point r pf" 0 g] obtain g2 where
    j: "?dps ! j = fst (highCardinality_point r pf j g2)" by auto
  have "zero_padded 10 i @ ''-'' @ hex_padded 4 (unat (and (fst (rd_Uint32 r g1)) 0xFFFF)) =
      zero_padded 10 j @ ''-'' @ hex_padded 4 (unat (and (fst (rd_Uint32 r g2)) 0xFFFF))"
    using request_id [of r pf i g1] request_id [of r pf j g2] eq unfolding i j by simp
  then have "zero_padded 10 i = zero_padded 10 j" by (simp add: append_eq_append_conv)
  with ij(3) show False by (simp add: zero_padded_inj)
qed

text \<open>The high-frequency profile: at most 24 attribute sets, whatever the size.\<close>

theorem high_frequency_is_narrow:
  "card (dp_attrs ` set (fst (gen_loop (highFrequency_point r pf) 0 n g))) \<le> 24"
proof -
  let ?a = "\<lambda>i. PutStr ''state'' ([''user'', ''system'', ''idle''] ! (i mod 3)) (PutStr ''cloud.region'' (regions ! (i mod 4))
      (PutStr ''host.name'' (hosts ! (i mod 8)) []))"
  have a: "dp_attrs (fst (highFrequency_point r pf i g')) = ?a (i mod 24)" for i g'
    by (simp add: highFrequency_point_def mod_mod_cancel regions_def hosts_def split: prod.splits)
  have "dp_attrs ` set (fst (gen_loop (highFrequency_point r pf) 0 n g)) \<subseteq> ?a ` {0..<24}"
  proof
    fix x assume "x \<in> dp_attrs ` set (fst (gen_loop (highFrequency_point r pf) 0 n g))"
    then obtain k where "k < n" "x = dp_attrs (fst (gen_loop (highFrequency_point r pf) 0 n g) ! k)"
      by (auto simp: in_set_conv_nth)
    with gen_loop_nth [of k n "highFrequency_point r pf" 0 g] a have "x = ?a (k mod 24)" by auto
    then show "x \<in> ?a ` {0..<24}" by (rule image_eqI) simp
  qed
  then have "card (dp_attrs ` set (fst (gen_loop (highFrequency_point r pf) 0 n g))) \<le> card (?a ` {0..<24})"
    by (intro card_mono) auto
  also have "\<dots> \<le> card {0..<24::nat}" by (rule card_image_le) simp
  finally show ?thesis by simp
qed

text \<open>The four profiles seed different streams.\<close>

theorem profiles_have_their_own_stream:
  "distinct (map hash32 (MetricsProfiles @ [TracesTypical]))"
  by (simp add: MetricsProfiles_def hash32_def)

subsection \<open>Percentiles\<close>

text \<open>For fractions within the unit interval the truncated index is monotone and within the samples.\<close>

definition trunc_law :: "(fraction \<Rightarrow> nat \<Rightarrow> int) \<Rightarrow> bool" where
  "trunc_law trunc_mul \<longleftrightarrow> (\<forall>n. 0 \<le> trunc_mul P50 n \<and> trunc_mul P50 n \<le> trunc_mul P90 n \<and> trunc_mul P90 n \<le> int n)"

lemma percentile_nth:
  assumes "xs \<noteq> []" "0 \<le> t f (length xs - 1)" "t f (length xs - 1) \<le> int (length xs - 1)"
  shows "percentile t xs f = xs ! nat (t f (length xs - 1))"
proof -
  have "t f (length xs - 1) < int (length xs)" using assms(1,3) by (cases xs) auto
  with assms show ?thesis by (simp add: percentile_def Let_def)
qed

text \<open>
  What is reported depends only on which durations were measured, not on their order, and the
  four of them come in order: minimum, median, ninetieth percentile, maximum.
\<close>

theorem latency_stats_ordered:
  assumes "trunc_law t" "samples \<noteq> []"
  shows "\<exists>a b c d. reportLatencyStats t samples =
      [(''min_ns'', Nanoseconds a), (''p50_ns'', Nanoseconds b), (''p90_ns'', Nanoseconds c), (''max_ns'', Nanoseconds d),
       (''samples'', Count (length samples))] \<and>
    sint a = Min (sint ` set samples) \<and> sint a \<le> sint b \<and> sint b \<le> sint c \<and> sint c \<le> sint d \<and>
    sint d = Max (sint ` set samples) \<and>
    (\<forall>other. mset other = mset samples \<longrightarrow> reportLatencyStats t other = reportLatencyStats t samples)"
proof -
  define xs where "xs = sort_key sint samples"
  have len: "length xs = length samples" and set: "set xs = set samples" by (simp_all add: xs_def)
  have ne: "xs \<noteq> []" using assms(2) len by (metis length_0_conv)
  have ord: "i \<le> j \<Longrightarrow> j < length xs \<Longrightarrow> sint (xs ! i) \<le> sint (xs ! j)" for i j
    using sorted_nth_mono [of "map sint xs" i j] by (simp add: xs_def)
  define i where "i = nat (t P50 (length xs - 1))"
  define j where "j = nat (t P90 (length xs - 1))"
  have law: "0 \<le> t P50 (length xs - 1)" "t P50 (length xs - 1) \<le> t P90 (length xs - 1)" "t P90 (length xs - 1) \<le> int (length xs - 1)"
    using assms(1) by (simp_all add: trunc_law_def)
  have ij: "i \<le> j" "j \<le> length xs - 1" "length xs - 1 < length xs" using law ne by (auto simp: i_def j_def)
  have pct: "percentile t xs P50 = xs ! i" "percentile t xs P90 = xs ! j"
    using percentile_nth [of xs t P50] percentile_nth [of xs t P90] ne law by (auto simp: i_def j_def)
  have rep: "reportLatencyStats t samples =
      [(''min_ns'', Nanoseconds (xs ! 0)), (''p50_ns'', Nanoseconds (xs ! i)), (''p90_ns'', Nanoseconds (xs ! j)),
       (''max_ns'', Nanoseconds (xs ! (length xs - 1))), (''samples'', Count (length samples))]"
    using assms(2) pct
    by (simp only: reportLatencyStats_def Let_def xs_def [symmetric] len if_False)
  have lo: "sint (xs ! 0) = Min (sint ` set samples)"
  proof (rule Min_eqI [symmetric])
    show "sint (xs ! 0) \<le> y" if "y \<in> sint ` set samples" for y
      using that ord [of 0] unfolding set [symmetric] by (auto simp: in_set_conv_nth)
    show "sint (xs ! 0) \<in> sint ` set samples" unfolding set [symmetric] using ne by (intro imageI nth_mem) simp
  qed simp
  have hi: "sint (xs ! (length xs - 1)) = Max (sint ` set samples)"
  proof (rule Max_eqI [symmetric])
    show "y \<le> sint (xs ! (length xs - 1))" if "y \<in> sint ` set samples" for y
      using that ord [of _ "length xs - 1"] ij(3) unfolding set [symmetric] by (fastforce simp: in_set_conv_nth)
    show "sint (xs ! (length xs - 1)) \<in> sint ` set samples"
      unfolding set [symmetric] using ij(3) by (intro imageI nth_mem)
  qed simp
  have same: "reportLatencyStats t other = reportLatencyStats t samples" if "mset other = mset samples" for other
  proof -
    have "sort (map sint other) = map sint (sort_key sint other)"
      "sort (map sint samples) = map sint (sort_key sint samples)"
      by (rule properties_for_sort; simp)+
    moreover have "sort (map sint other) = sort (map sint samples)"
      using that by (intro properties_for_sort) simp_all
    ultimately have "map sint (sort_key sint other) = map sint (sort_key sint samples)" by metis
    then have "sort_key sint other = sort_key sint samples"
      by (rule map_injective) (auto intro: injI signed_word_eqI)
    moreover have "other = [] \<longleftrightarrow> samples = []" using that by auto
    ultimately show ?thesis by (simp add: reportLatencyStats_def Let_def)
  qed
  have chain: "sint (xs ! 0) \<le> sint (xs ! i)" "sint (xs ! i) \<le> sint (xs ! j)" "sint (xs ! j) \<le> sint (xs ! (length xs - 1))"
    using ij by (intro ord; linarith)+
  show ?thesis by (intro exI conjI allI impI, rule rep, fact lo, fact chain, fact chain, fact chain, fact hi, rule same)
qed

text \<open>Index arithmetic in whole percents, for the witness.\<close>

definition percents :: "fraction \<Rightarrow> nat \<Rightarrow> int" where
  "percents f n = int (case f of P50 \<Rightarrow> 50 * n div 100 | P90 \<Rightarrow> 90 * n div 100)"

theorem latency_stats_ordered_witness:
  "\<exists>a b c d. reportLatencyStats percents [30, 10, 20] =
      [(''min_ns'', Nanoseconds a), (''p50_ns'', Nanoseconds b), (''p90_ns'', Nanoseconds c), (''max_ns'', Nanoseconds d),
       (''samples'', Count 3)] \<and> sint a = 10 \<and> sint d = 30"
proof -
  have l: "trunc_law percents" by (auto simp: trunc_law_def percents_def intro: div_le_mono)
  from latency_stats_ordered [OF l, of "[30, 10, 20]"] show ?thesis by (simp add: numeral_3_eq_3) blast
qed

end
