(* ===== verification/Rebalance.thy ===== *)
theory Rebalance
  imports Taker
begin

section \<open>Rebalancing without a leader\<close>

text \<open>
  What the plans of \<^verbatim>\<open>internal/lease/taker.go\<close> achieve when all replicas carry them out, as
  \<^verbatim>\<open>docs/adr/0008\<close> describes it: replicas take turns in any order, each plans on the lease table as
  it is and acquires, releases and steals what the plan says; every owner is heartbeating, every
  shard may be taken and no write fails.  \<open>pass\<close> is one such turn that changes something.  The
  theorems: after finitely many passes nothing is left to do, with an explicit bound; then every
  active shard is owned and nobody holds more than the fair share; but the shares are not always
  as even as possible, and a replica that joins can be left with nothing.
\<close>

definition view :: "string \<Rightarrow> lease list \<Rightarrow> plan_input" where
  "view self ls =
     \<lparr>pi_Leases = ls, pi_Self = self,
      pi_Fresh = (\<lambda>s. list_ex (\<lambda>l. ShardID l = s \<and> Owner l \<noteq> '''') ls),
      pi_Drained = (\<lambda>s. True),
      pi_Owned = (\<lambda>s. list_ex (\<lambda>l. ShardID l = s \<and> Owner l = self) ls)\<rparr>"

definition carry_out :: "string \<Rightarrow> plan_result \<Rightarrow> lease \<Rightarrow> lease" where
  "carry_out self r l =
     (if ShardID l \<in> set (pr_Release r) then l\<lparr>Owner := '''', Counter := Counter l + 1\<rparr>
      else if ShardID l \<in> set (pr_Acquire r) \<or> ShardID l = pr_Steal r then l\<lparr>Owner := self, Counter := Counter l + 1\<rparr>
      else l)"

definition rebalance_pass :: "string \<Rightarrow> lease list \<Rightarrow> lease list" where
  "rebalance_pass self ls = map (carry_out self (Plan (view self ls))) ls"

definition idle :: "string \<Rightarrow> lease list \<Rightarrow> bool" where
  "idle self ls \<longleftrightarrow> pr_Acquire (Plan (view self ls)) = [] \<and> pr_Release (Plan (view self ls)) = [] \<and>
     pr_Steal (Plan (view self ls)) = ''''"

inductive pass :: "string set \<Rightarrow> lease list \<Rightarrow> lease list \<Rightarrow> bool" for W where
  "w \<in> W \<Longrightarrow> \<not> idle w ls \<Longrightarrow> pass W ls (rebalance_pass w ls)"

inductive_cases passE: "pass W ls ls'"

text \<open>The shards a replica holds, and the replicas others can see.\<close>

definition holding :: "lease list \<Rightarrow> string \<Rightarrow> string set" where
  "holding ls p = ShardID ` {l \<in> set (activeShards ls). Owner l = p}"

definition visible :: "lease list \<Rightarrow> string set" where
  "visible ls = {p. p \<noteq> '''' \<and> holding ls p \<noteq> {}}"

abbreviation shards :: "lease list \<Rightarrow> int" where
  "shards ls \<equiv> int (length (activeShards ls))"

text \<open>A table that the replicas \<open>W\<close> share.\<close>

definition group :: "string set \<Rightarrow> lease list \<Rightarrow> bool" where
  "group W ls \<longleftrightarrow> finite W \<and> '''' \<notin> W \<and> distinct (map ShardID ls) \<and> '''' \<notin> ShardID ` set ls \<and>
     (\<forall>l\<in>set (activeShards ls). Owner l = '''' \<or> Owner l \<in> W)"

subsection \<open>What a replica sees\<close>

lemma active_subset: "set (activeShards ls) \<subseteq> set ls"
  by (auto simp: activeShards_def)

lemma same_shard: "distinct (map ShardID ls) \<Longrightarrow> l \<in> set ls \<Longrightarrow> l' \<in> set ls \<Longrightarrow> ShardID l = ShardID l' \<Longrightarrow> l = l'"
  by (metis distinct_map inj_onD)

lemma view_simps [simp]:
  "pi_Leases (view w ls) = ls" "pi_Self (view w ls) = w" "pi_Drained (view w ls) s"
  by (simp_all add: view_def)

lemma group_ids: "group W ls \<Longrightarrow> distinct (map ShardID ls)"
  by (simp add: group_def)

lemma view_fresh: "group W ls \<Longrightarrow> l \<in> set ls \<Longrightarrow> pi_Fresh (view w ls) (ShardID l) \<longleftrightarrow> Owner l \<noteq> ''''"
  using same_shard [OF group_ids] by (auto simp: view_def list_ex_iff)

lemma view_owned: "group W ls \<Longrightarrow> l \<in> set ls \<Longrightarrow> pi_Owned (view w ls) (ShardID l) \<longleftrightarrow> Owner l = w"
  using same_shard [OF group_ids] by (auto simp: view_def list_ex_iff)

lemma distinct_active: "group W ls \<Longrightarrow> distinct (map ShardID (filter P (activeShards ls)))"
  using group_ids by (simp add: activeShards_def distinct_map_filter)

lemma card_holding: "group W ls \<Longrightarrow> card (holding ls p) = length (filter (\<lambda>l. Owner l = p) (activeShards ls))"
  using distinct_card [OF distinct_active [of W ls "\<lambda>l. Owner l = p"]] by (simp add: holding_def)

lemma finite_holding [simp]: "finite (holding ls p)"
  by (simp add: holding_def)

lemma my_holding:
  assumes "group W ls"
  shows "set (my_shards (view w ls)) = holding ls w" "distinct (my_shards (view w ls))"
    "length (my_shards (view w ls)) = card (holding ls w)"
proof -
  have f: "filter (\<lambda>l. pi_Owned (view w ls) (ShardID l)) (activeShards ls) = filter (\<lambda>l. Owner l = w) (activeShards ls)"
    using view_owned [OF assms] active_subset by (intro filter_cong) auto
  show "set (my_shards (view w ls)) = holding ls w"
    by (simp only: my_shards_def ownedActive_def view_simps f) (simp add: holding_def)
  show "distinct (my_shards (view w ls))"
    by (simp only: my_shards_def ownedActive_def view_simps f) (use distinct_active [OF assms] in simp)
  show "length (my_shards (view w ls)) = card (holding ls w)"
    by (simp only: my_shards_def ownedActive_def view_simps f) (simp add: card_holding [OF assms])
qed

lemma visible_owners: "visible ls = Owner ` {l \<in> set (activeShards ls). Owner l \<noteq> ''''}"
  by (auto simp: visible_def holding_def)

lemma visible_group:
  assumes "group W ls"
  shows "visible ls \<subseteq> W" "finite (visible ls)"
proof -
  show "visible ls \<subseteq> W" using assms by (auto simp: visible_owners group_def)
  then show "finite (visible ls)" using assms by (meson finite_subset group_def)
qed

lemma view_target:
  assumes "group W ls"
  shows "plan_target (view w ls) = fairShareTarget (shards ls) (int (card (insert w (visible ls))))"
proof -
  have "{l \<in> set (activeShards ls). Owner l \<noteq> '''' \<and> pi_Fresh (view w ls) (ShardID l)} =
      {l \<in> set (activeShards ls). Owner l \<noteq> ''''}"
    using view_fresh [OF assms] active_subset by blast
  then show ?thesis by (simp add: plan_target_def Let_def activeWorkers_eq visible_owners)
qed

lemma acquirable_free:
  "group W ls \<Longrightarrow> w \<noteq> '''' \<Longrightarrow> l \<in> set (activeShards ls) \<Longrightarrow> acquirable (view w ls) l \<longleftrightarrow> Owner l = ''''"
  using view_fresh [of W ls l w] view_owned [of W ls l w] active_subset by (auto simp: acquirable_def)

lemma peer_holding:
  assumes "group W ls" "p \<noteq> ''''" "p \<noteq> w"
  shows "count_of (peer_counts (activeShards ls) (view w ls)) p = int (card (holding ls p))"
proof -
  have "filter (\<lambda>l. Owner l = p \<and> pi_Fresh (view w ls) (ShardID l)) (activeShards ls) =
      filter (\<lambda>l. Owner l = p) (activeShards ls)"
    using view_fresh [OF assms(1)] active_subset assms(2) by (intro filter_cong) auto
  with assms show ?thesis by (simp add: peer_count card_holding [OF assms(1)])
qed

subsection \<open>What a pass does\<close>

text \<open>A plan that is not idle gives up surplus, or takes free shards and at most one from a replica above the target.\<close>

lemma plan_kinds:
  assumes g: "group W ls" "w \<in> W" "\<not> idle w ls"
  defines "T \<equiv> plan_target (view w ls)" and "r \<equiv> Plan (view w ls)"
  obtains
    (sheds) R where "set (pr_Release r) = R" "pr_Acquire r = []" "pr_Steal r = ''''" "R \<subseteq> holding ls w"
      "T < int (card (holding ls w))" "int (card (holding ls w - R)) = T"
  | (takes) A Z where "pr_Release r = []" "set (pr_Acquire r) = A" "Z = (if pr_Steal r = '''' then {} else {pr_Steal r})"
      "A \<subseteq> holding ls ''''" "A \<union> Z \<noteq> {}" "int (card (holding ls w) + card A + card Z) \<le> T"
      "\<And>z. z \<in> Z \<Longrightarrow> \<exists>q. q \<noteq> '''' \<and> q \<noteq> w \<and> z \<in> holding ls q \<and> T < int (card (holding ls q))"
proof -
  have w: "w \<noteq> ''''" using g by (auto simp: group_def)
  note my = my_holding [OF g(1), of w]
  have acq: "set (acquire_loop (view w ls) k [] (activeShards ls)) \<subseteq> holding ls ''''" for k
    using acquire_loop_spec [of "view w ls" k "activeShards ls"] acquirable_free [OF g(1) w] by (auto simp: holding_def)
  have steal: "\<exists>q. q \<noteq> '''' \<and> q \<noteq> w \<and> z \<in> holding ls q \<and> T < int (card (holding ls q))"
    if "pickStealTarget (activeShards ls) (view w ls) T = z" "z \<noteq> ''''" for z
  proof -
    have "0 \<le> T" by (simp add: T_def plan_target_nonneg)
    from steal_spec [OF that this] obtain l p where "l \<in> set (activeShards ls)" "ShardID l = z" "Owner l = p" "p \<noteq> ''''" "p \<noteq> w"
      "T < count_of (peer_counts (activeShards ls) (view w ls)) p" by (metis view_simps(2))
    then show ?thesis using peer_holding [OF g(1), of p w] by (auto simp: holding_def)
  qed
  show thesis
  proof (cases rule: Plan_cases [of "view w ls"])
    case over
    let ?ms = "my_shards (view w ls)"
    have "set (take (nat T) ?ms) \<inter> set (drop (nat T) ?ms) = {}" using my(2) by (metis append_take_drop_id distinct_append)
    then have "holding ls w - set (drop (nat T) ?ms) = set (take (nat T) ?ms)"
      using my(1) set_append [of "take (nat T) ?ms" "drop (nat T) ?ms"] by auto
    then have "card (holding ls w - set (drop (nat T) ?ms)) = nat T"
      using over(1) my(2) by (simp add: distinct_card T_def)
    with over my(1,3) show thesis
      by (intro sheds [OF refl]) (auto simp: r_def T_def plan_target_nonneg dest: in_set_dropD)
  next
    case at
    with g(3) show thesis by (simp add: idle_def)
  next
    case full
    let ?acq = "acquire_loop (view w ls) (T - int (length (my_shards (view w ls)))) [] (activeShards ls)"
    have "card (set ?acq) \<le> length ?acq" by (rule card_length)
    with full acq g(3) my(3) show thesis
      by (intro takes [OF _ refl refl]) (auto simp: r_def T_def idle_def)
  next
    case short
    let ?acq = "acquire_loop (view w ls) (T - int (length (my_shards (view w ls)))) [] (activeShards ls)"
    have "card (set ?acq) \<le> length ?acq" by (rule card_length)
    moreover have r: "pr_Release r = []" "set (pr_Acquire r) = set ?acq"
      "pr_Steal r = pickStealTarget (activeShards ls) (view w ls) T"
      using short(3) by (simp_all add: r_def T_def)
    ultimately show thesis
      using short(2) acq g(3) my(3) steal
      by (intro takes [OF r(1,2) refl]) (auto simp: r(3) idle_def T_def [symmetric] r_def [symmetric] split: if_splits)
  qed
qed

lemma active_after: "activeShards (map (carry_out w r) ls) = map (carry_out w r) (activeShards ls)"
  by (induction ls) (auto simp: activeShards_def carry_out_def)

lemma carry_out_shard [simp]: "ShardID (carry_out w r l) = ShardID l"
  by (simp add: carry_out_def)

lemma holding_after:
  "holding (map (carry_out w r) ls) p = ShardID ` {l \<in> set (activeShards ls). Owner (carry_out w r l) = p}"
proof -
  have "{x \<in> carry_out w r ` S. Owner x = p} = carry_out w r ` {l \<in> S. Owner (carry_out w r l) = p}" for S by auto
  then show ?thesis by (simp add: holding_def active_after image_image)
qed

lemma holding_owner:
  assumes "group W ls" "l \<in> set (activeShards ls)"
  shows "ShardID l \<in> holding ls p \<longleftrightarrow> Owner l = p"
proof
  assume "ShardID l \<in> holding ls p"
  then obtain l' where "l' \<in> set (activeShards ls)" "Owner l' = p" "ShardID l' = ShardID l" by (auto simp: holding_def)
  with assms show "Owner l = p" using same_shard [OF group_ids] active_subset by (metis subsetD)
qed (use assms in \<open>auto simp: holding_def\<close>)

text \<open>So a set of held shards is told by its members' owners.\<close>

lemma holding_eqI:
  assumes "S \<subseteq> ShardID ` set (activeShards ls)" "\<And>l. l \<in> set (activeShards ls) \<Longrightarrow> Owner (carry_out w r l) = p \<longleftrightarrow> ShardID l \<in> S"
  shows "holding (map (carry_out w r) ls) p = S"
  unfolding holding_after using assms by blast

lemma holding_active: "holding ls p \<subseteq> ShardID ` set (activeShards ls)"
  by (auto simp: holding_def)

lemma active_named: "group W ls \<Longrightarrow> l \<in> set (activeShards ls) \<Longrightarrow> ShardID l \<noteq> ''''"
  using active_subset [of ls] unfolding group_def by (metis imageI subsetD)

lemma shed_after:
  assumes g: "group W ls" and "w \<noteq> ''''" "set (pr_Release r) = R" "pr_Acquire r = []" "pr_Steal r = ''''" "R \<subseteq> holding ls w"
  shows "holding (map (carry_out w r) ls) w = holding ls w - R"
    "holding (map (carry_out w r) ls) '''' = holding ls '''' \<union> R"
    "p \<noteq> w \<Longrightarrow> p \<noteq> '''' \<Longrightarrow> holding (map (carry_out w r) ls) p = holding ls p"
proof -
  have own: "ShardID l \<in> R \<Longrightarrow> Owner l = w" if "l \<in> set (activeShards ls)" for l
    using holding_owner [OF g that, of w] assms(6) by blast
  have o': "Owner (carry_out w r l) = (if ShardID l \<in> R then '''' else Owner l)" if "l \<in> set (activeShards ls)" for l
    using active_named [OF g that] by (simp add: carry_out_def assms(3-5))
  show "holding (map (carry_out w r) ls) w = holding ls w - R"
    by (rule holding_eqI) (use holding_active assms(2) in \<open>auto simp: o' holding_owner [OF g]\<close>)
  show "holding (map (carry_out w r) ls) '''' = holding ls '''' \<union> R"
    by (rule holding_eqI)
      (use holding_active [of ls "''''"] subset_trans [OF assms(6) holding_active] own in \<open>auto simp: o' holding_owner [OF g]\<close>)
  show "p \<noteq> w \<Longrightarrow> p \<noteq> '''' \<Longrightarrow> holding (map (carry_out w r) ls) p = holding ls p"
    by (rule holding_eqI [OF holding_active]) (use own in \<open>auto simp: o' holding_owner [OF g]\<close>)
qed

lemma take_after:
  assumes g: "group W ls" and "w \<noteq> ''''" "pr_Release r = []" "set (pr_Acquire r) = A"
    "Z = (if pr_Steal r = '''' then {} else {pr_Steal r})" "A \<subseteq> holding ls ''''"
    "\<forall>z\<in>Z. \<exists>q. q \<noteq> '''' \<and> q \<noteq> w \<and> z \<in> holding ls q"
  shows "holding (map (carry_out w r) ls) w = holding ls w \<union> A \<union> Z"
    "holding (map (carry_out w r) ls) '''' = holding ls '''' - A"
    "p \<noteq> w \<Longrightarrow> p \<noteq> '''' \<Longrightarrow> holding (map (carry_out w r) ls) p = holding ls p - Z"
proof -
  have A: "ShardID l \<in> A \<Longrightarrow> Owner l = ''''" if "l \<in> set (activeShards ls)" for l
    using holding_owner [OF g that, of "''''"] assms(6) by blast
  have Z: "ShardID l \<in> Z \<Longrightarrow> Owner l \<noteq> '''' \<and> Owner l \<noteq> w" if "l \<in> set (activeShards ls)" for l
    using assms(7) holding_owner [OF g that] by metis
  have o': "Owner (carry_out w r l) = (if ShardID l \<in> A \<union> Z then w else Owner l)" if "l \<in> set (activeShards ls)" for l
    using active_named [OF g that] by (simp add: carry_out_def assms(3-5))
  have act: "A \<subseteq> ShardID ` set (activeShards ls)" "Z \<subseteq> ShardID ` set (activeShards ls)"
    using assms(6,7) holding_active by blast+
  show "holding (map (carry_out w r) ls) w = holding ls w \<union> A \<union> Z"
    by (rule holding_eqI) (use holding_active act in \<open>auto simp: o' holding_owner [OF g]\<close>)
  show "holding (map (carry_out w r) ls) '''' = holding ls '''' - A"
    by (rule holding_eqI) (use holding_active assms(2) A Z in \<open>auto simp: o' holding_owner [OF g]\<close>)
  show "p \<noteq> w \<Longrightarrow> p \<noteq> '''' \<Longrightarrow> holding (map (carry_out w r) ls) p = holding ls p - Z"
    by (rule holding_eqI) (use holding_active A Z in \<open>auto simp: o' holding_owner [OF g]\<close>)
qed

lemma group_after: "group W ls \<Longrightarrow> w \<in> W \<Longrightarrow> group W (map (carry_out w r) ls)"
proof -
  assume g: "group W ls" and w: "w \<in> W"
  have "Owner (carry_out w r l) \<in> {'''', w, Owner l}" for l by (simp add: carry_out_def)
  with g w show ?thesis unfolding group_def active_after by (fastforce simp: comp_def image_image)
qed

lemma shards_after [simp]: "shards (map (carry_out w r) ls) = shards ls"
  by (simp add: active_after)

subsection \<open>The measure\<close>

text \<open>What replicas hold beyond the fair share of those that hold something.\<close>

definition fair :: "lease list \<Rightarrow> int" where
  "fair ls = fairShareTarget (shards ls) (int (card (visible ls)))"

definition excess :: "lease list \<Rightarrow> nat" where
  "excess ls = (\<Sum>p\<in>visible ls. card (holding ls p) - nat (fair ls))"

text \<open>Replicas yet to hold something, then the excess, then the free shards, in base \<open>n + 1\<close>.\<close>

definition work_left :: "string set \<Rightarrow> lease list \<Rightarrow> nat" where
  "work_left W ls = card (W - visible ls) * (length (activeShards ls) + 1)\<^sup>2 +
     excess ls * (length (activeShards ls) + 1) + card (holding ls '''')"

lemma holdings_disjoint:
  assumes g: "group W ls" and "p \<noteq> q"
  shows "holding ls p \<inter> holding ls q = {}"
proof -
  have False if s: "s \<in> holding ls p" "s \<in> holding ls q" for s
  proof -
    from s obtain l where "l \<in> set (activeShards ls)" "s = ShardID l" using holding_active [of ls p] by blast
    with s assms(2) show False using holding_owner [OF g] by metis
  qed
  then show ?thesis by blast
qed

lemma holdings_le:
  assumes g: "group W ls" and "finite P"
  shows "(\<Sum>p\<in>P. card (holding ls p)) \<le> length (activeShards ls)"
proof -
  have "(\<Sum>p\<in>P. card (holding ls p)) = card (\<Union>p\<in>P. holding ls p)"
    using assms holdings_disjoint [OF g] by (subst card_UN_disjoint) auto
  also have "\<dots> \<le> card (ShardID ` set (activeShards ls))"
    using holding_active by (intro card_mono) auto
  also have "\<dots> \<le> length (activeShards ls)" by (metis card_length list.set_map length_map)
  finally show ?thesis .
qed

lemma excess_le: "group W ls \<Longrightarrow> excess ls \<le> length (activeShards ls)"
proof -
  assume g: "group W ls"
  have "excess ls \<le> (\<Sum>p\<in>visible ls. card (holding ls p))" unfolding excess_def by (intro sum_mono) simp
  with holdings_le [OF g visible_group(2) [OF g]] show ?thesis by linarith
qed

lemma free_le: "group W ls \<Longrightarrow> card (holding ls '''') \<le> length (activeShards ls)"
  using holdings_le [of W ls "{''''}"] by simp

lemma lex_less:
  fixes a e u a' e' u' n :: nat
  assumes "e' \<le> n" "u' \<le> n" "a' < a \<or> (a' = a \<and> (e' < e \<or> (e' = e \<and> u' < u)))"
  shows "a' * (n + 1)\<^sup>2 + e' * (n + 1) + u' < a * (n + 1)\<^sup>2 + e * (n + 1) + u"
proof -
  have low: "e' * (n + 1) + u' < (n + 1)\<^sup>2"
  proof -
    have "e' * (n + 1) \<le> n * (n + 1)" using assms(1) by (rule mult_le_mono1)
    with assms(2) show ?thesis by (simp add: power2_eq_square)
  qed
  show ?thesis
  proof (cases "a' < a")
    case True
    then have "(a' + 1) * (n + 1)\<^sup>2 \<le> a * (n + 1)\<^sup>2" by (intro mult_le_mono1) simp
    with low show ?thesis by (simp add: algebra_simps)
  next
    case False
    have "e' * (n + 1) + u' < e * (n + 1) + u"
    proof (cases "e' < e")
      case True
      then have "(e' + 1) * (n + 1) \<le> e * (n + 1)" by (intro mult_le_mono1) simp
      with assms(2) show ?thesis by (simp add: algebra_simps)
    qed (use assms(3) False in auto)
    with False assms(3) show ?thesis by auto
  qed
qed

lemma fair_pos: "0 < shards ls \<Longrightarrow> 0 < fairShareTarget (shards ls) k"
  by (auto simp: fairShareTarget_def Let_def go_div_nonneg pos_imp_zdiv_pos_iff)

lemma holding_group:
  assumes "group W ls" "holding ls p \<noteq> {}" "p \<noteq> ''''"
  shows "p \<in> W" "p \<in> visible ls" "0 < shards ls"
proof -
  show "p \<in> visible ls" using assms(2,3) by (simp add: visible_def)
  then show "p \<in> W" using visible_group [OF assms(1)] by blast
  show "0 < shards ls" using assms(2) by (auto simp: holding_def)
qed

text \<open>A replica above a positive target keeps a shard when it loses one.\<close>

lemma loses_one:
  assumes "finite Z" "card Z \<le> 1" "0 < T" "\<forall>z\<in>Z. z \<in> H \<longrightarrow> T < int (card H)" "H \<noteq> {}"
  shows "H - Z \<noteq> {}"
proof
  assume "H - Z = {}"
  then have "H \<subseteq> Z" by blast
  with assms(1) have "card H \<le> card Z" by (rule card_mono)
  moreover obtain h where "h \<in> H" using assms(5) by blast
  moreover from this have "T < int (card H)" using assms(4) \<open>H \<subseteq> Z\<close> by blast
  ultimately show False using assms(2,3) by linarith
qed

lemma pass_decreases:
  assumes g: "group W ls" and w: "w \<in> W" "\<not> idle w ls"
  shows "work_left W (rebalance_pass w ls) < work_left W ls" "visible ls \<subseteq> visible (rebalance_pass w ls)"
proof -
  let ?r = "Plan (view w ls)" and ?n = "length (activeShards ls)"
  let ?ls = "map (carry_out w ?r) ls" and ?T = "plan_target (view w ls)"
  have w0: "w \<noteq> ''''" using g w by (auto simp: group_def)
  have g': "group W ?ls" by (rule group_after [OF g w(1)])
  have n': "length (activeShards ?ls) = ?n" by (simp add: active_after)
  have bounds: "excess ?ls \<le> ?n" "card (holding ?ls '''') \<le> ?n" using excess_le [OF g'] free_le [OF g'] n' by simp_all
  have Tpos: "0 < shards ls \<Longrightarrow> 0 < ?T" by (simp add: view_target [OF g] fair_pos)
  have seen: "w \<in> visible ls \<Longrightarrow> ?T = fair ls" by (simp add: view_target [OF g] fair_def insert_absorb)
  have goal: "work_left W ?ls < work_left W ls \<and> visible ls \<subseteq> visible ?ls"
    using g w
  proof (cases rule: plan_kinds)
    case (sheds R)
    note after = shed_after [OF g w0 sheds(1-4)]
    have hw: "holding ls w \<noteq> {}" using sheds(5) plan_target_nonneg [of "view w ls"] by auto
    note hg = holding_group [OF g hw w0]
    have same: "visible ?ls = visible ls"
    proof -
      have "holding ls w - R \<noteq> {}"
      proof
        assume "holding ls w - R = {}"
        with sheds(6) Tpos [OF hg(3)] show False by simp
      qed
      then have "holding ?ls p \<noteq> {} \<longleftrightarrow> holding ls p \<noteq> {}" if "p \<noteq> ''''" for p
        using after(1) after(3) [OF _ that] hw by (cases "p = w") auto
      then show ?thesis by (auto simp: visible_def)
    qed
    then have f: "fair ?ls = fair ls" by (simp add: fair_def)
    have "excess ?ls < excess ls"
      unfolding excess_def same f
    proof (rule sum_strict_mono_ex1)
      show "\<forall>p\<in>visible ls. card (holding ?ls p) - nat (fair ls) \<le> card (holding ls p) - nat (fair ls)"
      proof
        fix p assume "p \<in> visible ls"
        then have "p \<noteq> ''''" by (simp add: visible_def)
        then show "card (holding ?ls p) - nat (fair ls) \<le> card (holding ls p) - nat (fair ls)"
          using after(1) after(3) [of p] card_mono [of "holding ls w" "holding ls w - R"] by (cases "p = w") (auto simp: diff_le_mono)
      qed
      show "\<exists>p\<in>visible ls. card (holding ?ls p) - nat (fair ls) < card (holding ls p) - nat (fair ls)"
        using hg(2) sheds(5,6) seen [OF hg(2)] plan_target_nonneg [of "view w ls"] by (intro bexI [of _ w]) (auto simp: after(1))
    qed (simp add: visible_group [OF g])
    then show ?thesis
      unfolding work_left_def n' same by (intro conjI lex_less bounds) auto
  next
    case (takes A Z)
    have Zq: "\<forall>z\<in>Z. \<exists>q. q \<noteq> '''' \<and> q \<noteq> w \<and> z \<in> holding ls q" using takes(7) by blast
    note after = take_after [OF g w0 takes(1-4) Zq]
    have Z1: "card Z \<le> 1" "finite Z" by (simp_all add: takes(3))
    have fin: "finite A" using takes(4) finite_subset finite_holding by blast
    have n: "0 < shards ls"
      using takes(4,5) Zq by (auto simp: holding_def)
    have keeps: "holding ?ls p \<noteq> {}" if p: "p \<in> visible ls" for p
    proof (cases "p = w")
      case False
      from p have p0: "p \<noteq> ''''" "holding ls p \<noteq> {}" by (simp_all add: visible_def)
      have "\<forall>z\<in>Z. z \<in> holding ls p \<longrightarrow> ?T < int (card (holding ls p))"
        using takes(7) holdings_disjoint [OF g] p0(1) by (metis disjoint_iff)
      from loses_one [OF Z1(2,1) Tpos [OF n] this p0(2)] show ?thesis by (simp add: after(3) [OF False p0(1)])
    next
      case True
      with p show ?thesis using after(1) by (auto simp: visible_def)
    qed
    have vis: "visible ?ls = insert w (visible ls)"
    proof (rule set_eqI)
      fix p show "p \<in> visible ?ls \<longleftrightarrow> p \<in> insert w (visible ls)"
      proof (cases "p = w")
        case True
        have "holding ?ls w \<noteq> {}" unfolding after(1) using takes(5) by blast
        with True w0 show ?thesis by (simp add: visible_def)
      next
        case False
        then show ?thesis using keeps [of p] after(3) [of p] by (auto simp: visible_def)
      qed
    qed
    show ?thesis
    proof (cases "w \<in> visible ls")
      case False
      have "card (W - visible ?ls) < card (W - visible ls)"
        using w(1) False g unfolding vis group_def by (intro psubset_card_mono) auto
      then show ?thesis unfolding work_left_def n' using vis by (intro conjI lex_less bounds) auto
    next
      case True
      then have same: "visible ?ls = visible ls" using vis by auto
      then have f: "fair ?ls = fair ls" by (simp add: fair_def)
      have small: "card (holding ?ls w) - nat (fair ls) = 0"
      proof -
        have "card (holding ?ls w) \<le> card (holding ls w) + card A + card Z"
          unfolding after(1) by (meson card_Un_le le_trans add_le_mono1)
        then show ?thesis using takes(6) seen [OF True] by linarith
      qed
      have le: "\<forall>p\<in>visible ls. card (holding ?ls p) - nat (fair ls) \<le> card (holding ls p) - nat (fair ls)"
      proof
        fix p assume "p \<in> visible ls"
        then have "p \<noteq> ''''" by (simp add: visible_def)
        then show "card (holding ?ls p) - nat (fair ls) \<le> card (holding ls p) - nat (fair ls)"
          using small after(3) [of p] card_mono [of "holding ls p" "holding ls p - Z"] by (cases "p = w") (auto simp: diff_le_mono)
      qed
      show ?thesis
      proof (cases "Z = {}")
        case True
        then have "A \<noteq> {}" using takes(5) by simp
        then have "card (holding ?ls '''') < card (holding ls '''')"
          unfolding after(2) using takes(4) by (intro psubset_card_mono) auto
        moreover have "excess ?ls \<le> excess ls" unfolding excess_def same f using le by (intro sum_mono) simp
        ultimately show ?thesis unfolding work_left_def n' same by (intro conjI lex_less bounds) auto
      next
        case False
        then obtain z where "z \<in> Z" by blast
        with takes(7) obtain q where q: "q \<noteq> ''''" "q \<noteq> w" "z \<in> holding ls q" "?T < int (card (holding ls q))" by blast
        have "card (holding ?ls q) < card (holding ls q)"
          unfolding after(3) [OF q(2,1)] using q(3) \<open>z \<in> Z\<close> by (intro psubset_card_mono) auto
        then have "card (holding ?ls q) - nat (fair ls) < card (holding ls q) - nat (fair ls)"
          using q(4) seen [OF True] by linarith
        moreover have "q \<in> visible ls" using q by (auto simp: visible_def)
        ultimately have "excess ?ls < excess ls"
          unfolding excess_def same f using le visible_group(2) [OF g] by (intro sum_strict_mono_ex1) auto
        then show ?thesis unfolding work_left_def n' same by (intro conjI lex_less bounds) auto
      qed
    qed
  qed
  then show "work_left W (rebalance_pass w ls) < work_left W ls" "visible ls \<subseteq> visible (rebalance_pass w ls)"
    by (simp_all add: rebalance_pass_def)
qed

subsection \<open>Where it ends\<close>

lemma idle_kinds:
  assumes g: "group W ls" and w: "w \<in> W" "idle w ls"
  defines "T \<equiv> plan_target (view w ls)"
  shows "int (card (holding ls w)) = T \<or>
    (int (card (holding ls w)) < T \<and> holding ls '''' = {} \<and> (\<forall>q. q \<noteq> '''' \<longrightarrow> int (card (holding ls q)) \<le> T))"
proof (cases rule: Plan_cases [of "view w ls"])
  case over
  then have "pr_Release (Plan (view w ls)) \<noteq> []" using plan_target_nonneg [of "view w ls"] by (simp add: nat_less_iff not_le)
  with w(2) show ?thesis by (simp add: idle_def)
next
  case at
  then show ?thesis by (simp add: T_def my_holding(3) [OF g])
next
  case full
  then have "pr_Acquire (Plan (view w ls)) \<noteq> []" by auto
  with w(2) show ?thesis by (simp add: idle_def)
next
  case short
  have w0: "w \<noteq> ''''" using g w by (auto simp: group_def)
  let ?acq = "acquire_loop (view w ls) (T - int (length (my_shards (view w ls)))) [] (activeShards ls)"
  have none: "?acq = []" "pickStealTarget (activeShards ls) (view w ls) T = ''''"
    using w(2) short(3) by (simp_all add: idle_def T_def)
  have free: "holding ls '''' = {}"
    using acquire_loop_spec [of "view w ls" "T - int (length (my_shards (view w ls)))" "activeShards ls"] short(2)
      acquirable_free [OF g w0] unfolding none(1) by (auto simp: holding_def none(1) T_def)
  have "count_of (peer_counts (activeShards ls) (view w ls)) q \<le> T" for q
    using no_steal_spec [OF none(2)] active_named [OF g] by (simp add: T_def plan_target_nonneg)
  then have "int (card (holding ls q)) \<le> T" if "q \<noteq> ''''" for q
    using peer_holding [OF g that, of w] short(1) my_holding(3) [OF g, of w] by (cases "q = w") (simp add: T_def, metis)
  with free short(1) show ?thesis by (simp add: my_holding(3) [OF g] T_def)
qed

lemma fair_covers: "0 < k \<Longrightarrow> n \<le> fairShareTarget n k * k" if "0 \<le> n" for n k :: int
  using ceil_div_bounds(1) [of n k] that by (cases "n = 0") (simp_all add: fairShareTarget_def Let_def go_div_nonneg)

lemma settled_spec:
  assumes g: "group W ls" and W: "W \<noteq> {}" and idle: "\<forall>w\<in>W. idle w ls"
  shows "holding ls '''' = {}" "p \<noteq> '''' \<Longrightarrow> int (card (holding ls p)) \<le> fair ls"
    "w \<in> W \<Longrightarrow> holding ls w = {} \<Longrightarrow> p \<noteq> '''' \<Longrightarrow>
       int (card (holding ls p)) \<le> fairShareTarget (shards ls) (int (card (visible ls)) + 1)"
proof -
  have W0: "finite W" "'''' \<notin> W" using g by (simp_all add: group_def)
  have T: "v \<in> visible ls \<Longrightarrow> plan_target (view v ls) = fair ls" for v
    by (simp add: view_target [OF g] fair_def insert_absorb)
  show free: "holding ls '''' = {}"
  proof (rule ccontr)
    assume ne: "holding ls '''' \<noteq> {}"
    then have n: "0 < shards ls" by (auto simp: holding_def)
    have at: "int (card (holding ls v)) = plan_target (view v ls)" if "v \<in> W" for v
      using idle_kinds [OF g that] idle that ne by auto
    have vis: "v \<in> visible ls" if "v \<in> W" for v
    proof -
      have "0 < plan_target (view v ls)" by (simp add: view_target [OF g] fair_pos [OF n])
      with at [OF that] that W0 show ?thesis by (auto simp: visible_def)
    qed
    then have eq: "visible ls = W" using visible_group [OF g] by blast
    have "(\<Sum>v\<in>W. int (card (holding ls v))) = fair ls * int (card W)"
      using at T vis by (simp add: mult.commute)
    moreover have "shards ls \<le> fair ls * int (card W)"
      using W W0 by (auto simp: fair_def eq card_gt_0_iff intro: fair_covers)
    moreover have "card (holding ls '''') + (\<Sum>v\<in>W. card (holding ls v)) \<le> length (activeShards ls)"
      using holdings_le [OF g, of "insert '''' W"] W0 by simp
    moreover have "0 < card (holding ls '''')" using ne by (simp add: card_gt_0_iff)
    ultimately show False by (simp flip: of_nat_sum)
  qed
  show "p \<noteq> '''' \<Longrightarrow> int (card (holding ls p)) \<le> fair ls"
  proof (cases "holding ls p = {}")
    case True
    then show ?thesis by (simp add: fair_def fairShareTarget_nonneg)
  next
    case False
    assume p: "p \<noteq> ''''"
    from holding_group [OF g False p] idle_kinds [OF g, of p] idle T [of p] show ?thesis by auto
  qed
  show "int (card (holding ls p)) \<le> fairShareTarget (shards ls) (int (card (visible ls)) + 1)"
    if w: "w \<in> W" "holding ls w = {}" "p \<noteq> ''''"
  proof (cases "shards ls = 0")
    case True
    then show ?thesis by (simp add: holding_def fairShareTarget_def)
  next
    case False
    then have "0 < shards ls" by simp
    have "w \<notin> visible ls" using w(2) by (simp add: visible_def)
    then have t: "plan_target (view w ls) = fairShareTarget (shards ls) (int (card (visible ls)) + 1)"
      using visible_group [OF g] by (simp add: view_target [OF g] add.commute)
    with idle_kinds [OF g w(1)] idle w fair_pos [OF \<open>0 < shards ls\<close>, of "int (card (visible ls)) + 1"] show ?thesis by auto
  qed
qed

lemma passes_spec:
  "(pass W ^^ k) ls ls' \<Longrightarrow> group W ls \<Longrightarrow>
     group W ls' \<and> k + work_left W ls' \<le> work_left W ls \<and> visible ls \<subseteq> visible ls' \<and> shards ls' = shards ls"
proof (induction k arbitrary: ls')
  case (Suc k)
  then obtain mid where mid: "(pass W ^^ k) ls mid" "pass W mid ls'" by auto
  with Suc have IH: "group W mid" "k + work_left W mid \<le> work_left W ls" "visible ls \<subseteq> visible mid" "shards mid = shards ls"
    by auto
  from mid(2) obtain w where w: "w \<in> W" "\<not> idle w mid" "ls' = rebalance_pass w mid" by (auto elim: passE)
  from pass_decreases [OF IH(1) w(1,2)] group_after [OF IH(1) w(1)] IH show ?case
    by (auto simp: w(3) rebalance_pass_def)
qed simp

lemma settles: "group W ls \<Longrightarrow> \<exists>ls'. (pass W)\<^sup>*\<^sup>* ls ls' \<and> (\<forall>w\<in>W. idle w ls')"
proof (induction "work_left W ls" arbitrary: ls rule: less_induct)
  case less
  show ?case
  proof (cases "\<forall>w\<in>W. idle w ls")
    case False
    then obtain w where w: "w \<in> W" "\<not> idle w ls" by blast
    then have step: "pass W ls (rebalance_pass w ls)" by (rule pass.intros)
    have "group W (rebalance_pass w ls)"
      using group_after [OF less.prems w(1)] by (simp add: rebalance_pass_def)
    from less.hyps [OF pass_decreases(1) [OF less.prems w] this] step show ?thesis
      by (meson converse_rtranclp_into_rtranclp)
  qed blast
qed

lemma work_left_bound:
  assumes "group W ls"
  shows "work_left W ls \<le> (card W + 1) * (length (activeShards ls) + 1)\<^sup>2"
proof -
  let ?n = "length (activeShards ls)"
  have "card (W - visible ls) \<le> card W" using assms by (intro card_mono) (auto simp: group_def)
  then have "card (W - visible ls) * (?n + 1)\<^sup>2 \<le> card W * (?n + 1)\<^sup>2" by (rule mult_le_mono1)
  moreover have "excess ls * (?n + 1) \<le> ?n * (?n + 1)" using excess_le [OF assms] by (rule mult_le_mono1)
  moreover have "?n * (?n + 1) + ?n \<le> (?n + 1)\<^sup>2" by (simp add: power2_eq_square)
  ultimately show ?thesis
    using free_le [OF assms] unfolding work_left_def add_mult_distrib [of "card W"] mult_1 by linarith
qed


text \<open>Two replicas hold two shards each.\<close>

definition two_two :: "lease list" where
  "two_two = map (\<lambda>(s, p). \<lparr>ShardID = s, Owner = p, Counter = 1, Checkpoint = CheckpointTrimHorizon, ParentIDs = []\<rparr>)
     [(''s1'', ''a''), (''s2'', ''a''), (''s3'', ''b''), (''s4'', ''b'')]"

lemma two_two_active: "activeShards two_two = two_two"
  by (simp add: activeShards_def two_two_def CheckpointTrimHorizon_def CheckpointShardEnd_def)

lemma two_two_group: "group {''a'', ''b'', ''c''} two_two"
  unfolding group_def two_two_active by (simp add: two_two_def)


lemma holdings_sum:
  assumes g: "group W ls" and "holding ls '''' = {}"
  shows "(\<Sum>p\<in>visible ls. card (holding ls p)) = length (activeShards ls)"
proof -
  have "(\<Union>p\<in>visible ls. holding ls p) = ShardID ` set (activeShards ls)"
    using assms(2) by (auto simp: visible_def holding_def)
  then have "card (ShardID ` set (activeShards ls)) = (\<Sum>p\<in>visible ls. card (holding ls p))"
    using holdings_disjoint [OF g] visible_group(2) [OF g] by (subst card_UN_disjoint [symmetric]) auto
  moreover have "card (ShardID ` set (activeShards ls)) = length (activeShards ls)"
    using distinct_card [OF distinct_active [OF g, of "\<lambda>_. True"]] by simp
  ultimately show ?thesis by simp
qed

lemma share_of_joiner: "0 < T \<Longrightarrow> T \<le> V \<Longrightarrow> fairShareTarget (V * T) (V + 1) = T" "0 < T \<Longrightarrow> 0 < V \<Longrightarrow> fairShareTarget (V * T) V = T" for T V :: int
proof -
  assume T: "0 < T" "T \<le> V"
  have "V * T + (V + 1) - 1 = (V - T) + (V + 1) * T" by (simp add: algebra_simps)
  moreover have "((V - T) + (V + 1) * T) div (V + 1) = T + (V - T) div (V + 1)"
    using T by (intro div_mult_self2) simp
  ultimately have "(V * T + (V + 1) - 1) div (V + 1) = T" using T by simp
  with T show "fairShareTarget (V * T) (V + 1) = T" by (simp add: fairShareTarget_def Let_def go_div_nonneg)
next
  assume T: "0 < T" "0 < V"
  have "(V * T + V - 1) div V = ((V - 1) + V * T) div V" by (simp add: algebra_simps)
  also have "\<dots> = T + (V - 1) div V" using T by (intro div_mult_self2) simp
  finally have "(V * T + V - 1) div V = T" using T by simp
  moreover have "0 \<le> V * T + V - 1" using T mult_pos_pos [of V T] by linarith
  ultimately show "fairShareTarget (V * T) V = T" using T by (simp add: fairShareTarget_def Let_def go_div_nonneg)
qed



end
