(* ===== verification/Spec2Isabelle.thy ===== *)
theory Spec2Isabelle
  imports Prelude Lease Dynamo Fencing Taker Pdata Batch Split Encoding ExporterConfig Partition FirstSeen
    Grouping GroupMetrics Oversize Sending ReceiverConfig Sink Poller Delivery Coordinator Reconcile
    Telemetry Receiver Pipeline ExporterFactory Linegen Datasets Rebalance
begin

text \<open>
  A verification of the Kinesis exporter and receiver for the OpenTelemetry collector.

  \<^bold>\<open>The program.\<close>  The exporter (\<^verbatim>\<open>exporter/awskinesisexporter\<close>) takes batches of spans, datapoints or
  log records, groups them by a partition key, encodes and compresses each group, recovers from
  payloads that are too big, and writes the payloads with PutRecords.  The receiver
  (\<^verbatim>\<open>receiver/awskinesisreceiver\<close>) reads them back: a coordinator per replica discovers the shards of
  the stream, takes a fair share of them through leases, and runs a poller per shard, which hands
  the records to a sink and moves the checkpoint of its lease.  Leases live in the store of
  \<^verbatim>\<open>internal/lease\<close>, in memory or in DynamoDB; names of wire formats and codecs are resolved in
  \<^verbatim>\<open>internal/encoding\<close>.

  \<^bold>\<open>Conventions.\<close>  Definitions carry the names of the Go functions; a struct is a record whose
  fields have a short prefix, an interface is a record of functions or a locale, an error is the
  left side of a sum or \<open>Some\<close> of an error type.  Machine integers are words where the code can
  wrap (lease counters, durations), \<open>int\<close> or \<open>nat\<close> where it only counts.  What the code calls and does
  not define (AWS SDK, protobuf and JSON marshalers, compressors, regular expressions, xxhash,
  UUIDs, the clock, contexts, the next consumer) is a parameter, a field of a library or
  environment record that acts on a world \<open>'w\<close>; documented behaviour the proofs rely on is a named
  hypothesis or the assumption of a locale, and each is discharged for a concrete instance.  Log
  output is left out everywhere.

  \<^bold>\<open>Leases\<close> (\<^verbatim>\<open>internal/lease\<close>).
  \<open>Lease\<close>: \<^verbatim>\<open>lease.go\<close> and \<^verbatim>\<open>memory.go\<close>: the lease row, the errors, the Store interface as the record
  \<open>store\<close>, every method of MemoryStore.  The locale \<open>lease_store\<close> states what the interface promises;
  it is interpreted for the in-memory store, and its lemmas (what a stale token can do, what a
  lost reply can mean) serve every user of a store.
  \<open>Dynamo\<close>: \<^verbatim>\<open>dynamodb.go\<close>: the row codec, every method, the scan loop of List as a partial function.
  The locale \<open>dynamo_api\<close> names the behaviour of the service, lost replies included; \<open>lease_store\<close>
  follows from it, so the DynamoDB store refines the in-memory one.  A reference service, which
  loses replies on a schedule, interprets it.
  \<open>Fencing\<close>: any sequence of store calls by any workers: a token that was taken over stays useless.
  \<open>Taker\<close>: \<^verbatim>\<open>taker.go\<close>: Plan, the fair-share decision, with its bounds, safety, balance and
  independence of the order of the lease table.  \<open>Rebalance\<close>: the group of replicas that carry out
  their plans in turns, as a step relation: it settles within a bound, and where.  There every owner
  heartbeats, every shard may be taken and every write succeeds.

  \<^bold>\<open>Wire formats\<close> (\<^verbatim>\<open>internal/encoding\<close>).
  \<open>Encoding\<close>: \<^verbatim>\<open>encoding.go, codec.go, otlp.go, otlpjson.go\<close>: dispatch by name and the order of library
  calls with their error paths; a reader can return data and an error at once, as Go's do.

  \<^bold>\<open>The exporter.\<close>
  \<open>ExporterConfig\<close>: \<^verbatim>\<open>config.go\<close>, defaults of \<^verbatim>\<open>factory.go\<close>.  \<open>Pdata\<close>: attribute maps and the UTF-8 cut of
  \<^verbatim>\<open>signal.go\<close>.  \<open>Batch\<close>: the pdata trees of the three signals and attribute truncation.  \<open>Split\<close>:
  halving a batch (locale \<open>halving\<close>).  \<open>Partition\<close>: \<^verbatim>\<open>partition.go\<close>, the key plan.  \<open>FirstSeen\<close>: grouping in
  order of first appearance, the specification that \<open>Grouping\<close> and \<open>GroupMetrics\<close>
  (\<^verbatim>\<open>partition_grouping.go\<close> and the group functions of \<^verbatim>\<open>signal_*.go\<close>) are proved equal to.  \<open>Oversize\<close>:
  \<^verbatim>\<open>oversize.go\<close>, the policy chain, with a ledger of what was shipped and dropped.  \<open>Sending\<close>: \<^verbatim>\<open>record.go\<close>
  and \<^verbatim>\<open>exporter.go\<close>: emit, chunking, PutRecords with retries and backoff, construction.  Its locale
  \<open>signal\<close>, interpreted for the codecs of the three signals, carries the end-to-end accounting.

  \<^bold>\<open>The receiver.\<close>
  \<open>ReceiverConfig\<close>: \<^verbatim>\<open>config.go\<close>, \<^verbatim>\<open>workerid.go\<close>, defaults of \<^verbatim>\<open>factory.go\<close>.  \<open>Sink\<close>: \<^verbatim>\<open>sink.go\<close>,
  \<^verbatim>\<open>deadletter.go\<close>, base64 written out.  \<open>Poller\<close>: \<^verbatim>\<open>poller.go\<close>, \<^verbatim>\<open>poller_lease.go\<close>, \<^verbatim>\<open>poller_records.go\<close>:
  one pass of the loop is \<open>poll_turn\<close>, which also reports what it handled; the locale \<open>polled_shard\<close>
  names what a shard answers.  \<open>Delivery\<close>: sessions of many workers on one shard as a step relation,
  at-least-once delivery as its invariant, and a run to the end of a shard.  \<open>Coordinator\<close>:
  \<^verbatim>\<open>coordinator.go\<close> and \<^verbatim>\<open>shard_discovery.go\<close>; the actions of one worker, interleaved with poller exits and
  shutdown, are the step relation \<open>coord_reach\<close>.  \<open>Reconcile\<close>: the loop itself, that it makes only those
  steps, and that a shard waits for its parents.  \<open>Receiver\<close>: \<^verbatim>\<open>receiver.go\<close>, \<^verbatim>\<open>client.go\<close>, the create
  functions of \<^verbatim>\<open>factory.go\<close>: construction, choice of the lease store, Start and Shutdown.

  \<open>Telemetry\<close>: \<^verbatim>\<open>telemetry.go\<close> of both: instruments and measurements, tied to the events the other
  theories report.  \<open>ExporterFactory\<close>: the exporter's \<^verbatim>\<open>factory.go\<close> and \<^verbatim>\<open>client.go\<close>.

  \<^bold>\<open>The whole.\<close>  \<open>Pipeline\<close> composes the two ends: the locale \<open>moving\<close> extends \<open>signal\<close> by what grouping does
  to an item, and the records an export had accepted, spread over the shards of a stream, are read
  by pollers of the same encoding and codec into the batches that were exported.

  \<^bold>\<open>Tools.\<close>  \<open>Linegen\<close>: \<^verbatim>\<open>cmd/linegen\<close>, the load generator of the metrics test.  \<open>Datasets\<close>: \<^verbatim>\<open>perf\<close>, the data
  of the encoding benchmarks and their latency report.

  \<^bold>\<open>Concurrency.\<close>  A call of the environment may change any part of the world, so what other
  goroutines and replicas do between two calls of the modelled code is part of every parameter.
  Where a mutex makes a method atomic, it is one step.  A poller's heartbeat and its poll loop
  share the lease token, which is therefore in the world; \<open>Delivery\<close> interleaves heartbeats with
  passes of the loop explicitly, and \<open>Coordinator\<close> interleaves the discovery loop with exits.

  \<^bold>\<open>Loops and bounds.\<close>  There is no fuel: a loop that may run for ever (the poll loop, ListShards and
  List paging, flush with a record limit of zero) is a partial function whose value \<open>None\<close> is not
  returning, and that it returns is proved where the code means it to: flush for every positive
  limit, List for every cut into pages, the poll loop on a closed shard.  Five PutRecords
  attempts and three checkpoint attempts are the constants of the code.

  \<^bold>\<open>Not modelled.\<close>  The receiver's NewFactory only registers the functions of \<open>Receiver\<close>.  Timeouts of
  contexts are only seen as the error of a call.  Log output, the duration of a PutRecords call,
  and the parts of pdata that the code copies unread (kept as opaque numbers) are left out.
\<close>

end
